(* ===== verification/Prelude.thy ===== *)
theory Prelude
  imports Main "HOL-Library.Word" "HOL-Library.List_Lexorder" "HOL-Library.Sublist"
begin

text \<open>
  Shared vocabulary of the development: JavaScript strings as lists of UTF-16 code units, the
  string operations of the language that the sources use (\<open>split\<close>, \<open>join\<close>, \<open>slice\<close>,
  \<open>startsWith\<close>, \<open>endsWith\<close>, \<open>includes\<close>), and the stable \<open>Array.prototype.sort\<close> under a
  comparator.  The locale \<open>comparator\<close> is the contract a comparison function has to meet; it
  carries the lemmas about sorting and about the "push unless equal to the last element"
  deduplication loop once for every comparator of the program.
\<close>

section \<open>Strings\<close>

type_synonym code_unit = "16 word"
type_synonym ustring = "code_unit list"

text \<open>ASCII literals of the sources as strings of code units.\<close>

definition cu :: "char \<Rightarrow> code_unit" where
  "cu c = of_char c"

definition js :: "string \<Rightarrow> ustring" where
  "js s = map cu s"

named_theorems js_lits \<open>evaluation of string literals\<close>

lemmas [js_lits] = js_def cu_def

lemma js_append: "js (a @ b) = js a @ js b"
  by (simp add: js_def)

lemma length_js [simp]: "length (js s) = length s"
  by (simp add: js_def)

text \<open>Literals are equal exactly when their characters are.\<close>

lemma cu_inject: "cu a = cu b \<longleftrightarrow> a = b"
proof
  assume "cu a = cu b"
  then have "(of_nat (of_char a) :: code_unit) = of_nat (of_char b)" by (simp only: cu_def of_nat_of_char)
  moreover have "take_bit LENGTH(16) (of_char c :: nat) = of_char c" for c
    by (rule take_bit_nat_eq_self) (rule less_trans[OF nat_of_char_less_256], simp)
  ultimately have "(of_char a :: nat) = of_char b"
    by (simp only: word_of_nat_eq_iff)
  then show "a = b" by simp
qed simp

lemma js_inject: "js s = js t \<longleftrightarrow> s = t"
  using inj_map_eq_map[of cu] by (auto simp: js_def inj_def cu_inject)

text \<open>\<open>s.split(c)\<close> for a one-unit separator and \<open>xs.join(sep)\<close>.\<close>

fun js_split :: "'a \<Rightarrow> 'a list \<Rightarrow> 'a list list" where
  "js_split c [] = [[]]"
| "js_split c (x # xs) =
     (if x = c then [] # js_split c xs
      else (case js_split c xs of [] \<Rightarrow> [[x]] | y # ys \<Rightarrow> (x # y) # ys))"

fun js_join :: "'a list \<Rightarrow> 'a list list \<Rightarrow> 'a list" where
  "js_join sep [] = []"
| "js_join sep [x] = x"
| "js_join sep (x # y # ys) = x @ sep @ js_join sep (y # ys)"

lemma js_split_not_Nil [simp]: "js_split c xs \<noteq> []"
  by (induction xs) (auto split: list.splits)

lemma js_join_Cons: "js_join sep (x # ys) = (if ys = [] then x else x @ sep @ js_join sep ys)"
  by (cases ys) auto

lemma js_join_split [simp]: "js_join [c] (js_split c xs) = xs"
proof (induction xs)
  case Nil
  then show ?case by simp
next
  case (Cons x xs)
  then show ?case
    by (cases "js_split c xs") (auto simp: js_join_Cons split: if_splits)
qed

lemma js_split_no_sep: "x \<in> set (js_split c xs) \<Longrightarrow> c \<notin> set x"
proof (induction xs arbitrary: x)
  case Nil
  then show ?case by simp
next
  case (Cons a xs)
  then show ?case by (cases "js_split c xs") (auto split: if_splits)
qed

lemma js_split_single: "c \<notin> set xs \<Longrightarrow> js_split c xs = [xs]"
  by (induction xs) auto

lemma js_split_append_sep: "js_split c (xs @ c # ys) = js_split c xs @ js_split c ys"
proof (induction xs)
  case Nil
  then show ?case by simp
next
  case (Cons a xs)
  then show ?case
    by (cases "js_split c xs") (auto split: list.splits)
qed

lemma js_split_join:
  "xs \<noteq> [] \<Longrightarrow> (\<forall>x \<in> set xs. c \<notin> set x) \<Longrightarrow> js_split c (js_join [c] xs) = xs"
proof (induction xs rule: induct_list012)
  case 1
  then show ?case by simp
next
  case (2 x)
  then show ?case by (simp add: js_split_single)
next
  case (3 x y zs)
  then show ?case by (simp add: js_split_append_sep js_split_single)
qed

text \<open>\<open>s.slice(0, -k)\<close>, \<open>s.startsWith(p)\<close>, \<open>s.endsWith(p)\<close>.\<close>

definition dropEnd :: "nat \<Rightarrow> 'a list \<Rightarrow> 'a list" where
  "dropEnd k s = take (length s - k) s"

definition startsWith :: "'a list \<Rightarrow> 'a list \<Rightarrow> bool" where
  "startsWith s p = prefix p s"

definition endsWith :: "'a list \<Rightarrow> 'a list \<Rightarrow> bool" where
  "endsWith s p = suffix p s"

lemma startsWithE [elim]: "startsWith s p \<Longrightarrow> (\<And>r. s = p @ r \<Longrightarrow> P) \<Longrightarrow> P"
  by (auto simp: startsWith_def elim: prefixE)

lemma startsWith_append [simp]: "startsWith (p @ r) p"
  by (simp add: startsWith_def)

lemma endsWithE: "endsWith s p \<Longrightarrow> (\<And>r. s = r @ p \<Longrightarrow> dropEnd (length p) s = r \<Longrightarrow> P) \<Longrightarrow> P"
  by (auto simp: endsWith_def dropEnd_def elim!: suffixE)

lemma dropEnd_append [simp]: "dropEnd (length p) (r @ p) = r"
  by (simp add: dropEnd_def)

lemma dropEnd_le: "length (dropEnd k s) \<le> length s"
  by (simp add: dropEnd_def)

lemma endsWith_append [simp]: "endsWith (r @ p) p"
  by (auto simp: endsWith_def suffix_def)

lemma startsWith_single: "startsWith s [c] \<longleftrightarrow> (\<exists>t. s = c # t)"
  by (auto simp: startsWith_def prefix_def)

lemma find_key:
  assumes "x \<in> set xs" "\<And>y. y \<in> set xs \<Longrightarrow> f y = f x \<Longrightarrow> y = x"
  shows "find (\<lambda>a. f a = f x) xs = Some x"
  using assms by (induction xs) auto

lemma split_at_first: "c \<in> set t \<Longrightarrow> t = takeWhile (\<lambda>u. u \<noteq> c) t @ c # tl (dropWhile (\<lambda>u. u \<noteq> c) t)"
  by (induction t) auto

lemma ex_drop_split:
  "(\<exists>k. P (drop (n + k) r)) \<longleftrightarrow> P (drop n r) \<or> (\<exists>k. P (drop (Suc (n + k)) r))"
  by (metis add_0_right add_Suc_right not0_implies_Suc)

lemma join_append:
  "xs \<noteq> [] \<Longrightarrow> ys \<noteq> [] \<Longrightarrow> js_join sep (xs @ ys) = js_join sep xs @ sep @ js_join sep ys"
  by (induction xs) (auto simp: js_join_Cons)

section \<open>Sorting under a comparator\<close>

text \<open>
  \<open>Array.prototype.sort(cmp)\<close> is a stable sort.  The model is insertion from the right: an element
  is placed before the first element that is not smaller, so equal elements keep their order.
\<close>

fun insort_cmp :: "('a \<Rightarrow> 'a \<Rightarrow> int) \<Rightarrow> 'a \<Rightarrow> 'a list \<Rightarrow> 'a list" where
  "insort_cmp cmp x [] = [x]"
| "insort_cmp cmp x (y # ys) = (if cmp x y \<le> 0 then x # y # ys else y # insort_cmp cmp x ys)"

definition js_sort :: "('a \<Rightarrow> 'a \<Rightarrow> int) \<Rightarrow> 'a list \<Rightarrow> 'a list" where
  "js_sort cmp xs = foldr (insort_cmp cmp) xs []"

lemma js_sort_simps [simp]:
  "js_sort cmp [] = []"
  "js_sort cmp (x # xs) = insort_cmp cmp x (js_sort cmp xs)"
  by (simp_all add: js_sort_def)

lemma set_insort_cmp [simp]: "set (insort_cmp cmp x xs) = insert x (set xs)"
  by (induction xs) auto

lemma set_js_sort [simp]: "set (js_sort cmp xs) = set xs"
  by (induction xs) auto

lemma length_insort_cmp [simp]: "length (insort_cmp cmp x xs) = Suc (length xs)"
  by (induction xs) auto

lemma length_js_sort [simp]: "length (js_sort cmp xs) = length xs"
  by (induction xs) auto

lemma distinct_insort_cmp [simp]: "distinct (insort_cmp cmp x xs) \<longleftrightarrow> x \<notin> set xs \<and> distinct xs"
  by (induction xs) auto

lemma distinct_js_sort [simp]: "distinct (js_sort cmp xs) = distinct xs"
  by (induction xs) auto

text \<open>The deduplication loop: push unless the comparator finds the last pushed element equal.\<close>

fun pushDistinct :: "('a \<Rightarrow> 'a \<Rightarrow> int) \<Rightarrow> 'a list \<Rightarrow> 'a list \<Rightarrow> 'a list" where
  "pushDistinct cmp normalized [] = normalized"
| "pushDistinct cmp normalized (x # xs) =
     (if normalized = [] \<or> cmp (last normalized) x \<noteq> 0
      then pushDistinct cmp (normalized @ [x]) xs
      else pushDistinct cmp normalized xs)"

locale comparator =
  fixes cmp :: "'a \<Rightarrow> 'a \<Rightarrow> int"
  assumes cmp_zero: "cmp a b = 0 \<longleftrightarrow> a = b"
    and cmp_sym: "cmp a b < 0 \<longleftrightarrow> 0 < cmp b a"
    and cmp_trans: "cmp a b \<le> 0 \<Longrightarrow> cmp b c \<le> 0 \<Longrightarrow> cmp a c \<le> 0"
begin

lemma cmp_total: "cmp a b \<le> 0 \<or> cmp b a \<le> 0"
  using cmp_sym[of b a] by linarith

lemma cmp_antisym: "cmp a b \<le> 0 \<Longrightarrow> cmp b a \<le> 0 \<Longrightarrow> a = b"
  using cmp_sym[of b a] cmp_zero[of a b] cmp_zero[of b a] by (cases "cmp b a = 0") auto

lemma cmp_strict_trans: "cmp a b < 0 \<Longrightarrow> cmp b c < 0 \<Longrightarrow> cmp a c < 0"
proof -
  assume ab: "cmp a b < 0" and bc: "cmp b c < 0"
  then have "cmp a c \<le> 0" by (auto intro: cmp_trans[of a b c])
  moreover have "a \<noteq> c" using ab bc cmp_sym[of a b] by auto
  ultimately show ?thesis using cmp_zero[of a c] by linarith
qed

lemma sorted_insort_cmp:
  "sorted_wrt (\<lambda>a b. cmp a b \<le> 0) xs \<Longrightarrow> sorted_wrt (\<lambda>a b. cmp a b \<le> 0) (insort_cmp cmp x xs)"
proof (induction xs)
  case Nil
  then show ?case by simp
next
  case (Cons y ys)
  show ?case
  proof (cases "cmp x y \<le> 0")
    case True
    with Cons.prems show ?thesis by (auto intro: cmp_trans[of x y])
  next
    case False
    with cmp_total[of x y] have "cmp y x \<le> 0" by simp
    with False Cons show ?thesis by auto
  qed
qed

lemma sorted_js_sort: "sorted_wrt (\<lambda>a b. cmp a b \<le> 0) (js_sort cmp xs)"
  by (induction xs) (auto intro: sorted_insort_cmp)

text \<open>The loop keeps the accumulator strictly increasing and loses no element.\<close>

lemma pushDistinct_spec:
  assumes "sorted_wrt (\<lambda>a b. cmp a b < 0) acc" "sorted_wrt (\<lambda>a b. cmp a b \<le> 0) xs"
    and "\<And>a x. a \<in> set acc \<Longrightarrow> x \<in> set xs \<Longrightarrow> cmp a x \<le> 0"
  shows "sorted_wrt (\<lambda>a b. cmp a b < 0) (pushDistinct cmp acc xs)
       \<and> set (pushDistinct cmp acc xs) = set acc \<union> set xs"
  using assms
proof (induction xs arbitrary: acc)
  case Nil
  then show ?case by simp
next
  case (Cons x xs)
  show ?case
  proof (cases "acc = [] \<or> cmp (last acc) x \<noteq> 0")
    case True
    have lt: "cmp a x < 0" if "a \<in> set acc" for a
    proof (cases "a = last acc")
      case True
      with that \<open>acc = [] \<or> cmp (last acc) x \<noteq> 0\<close> Cons.prems(3)[of a x] show ?thesis by auto
    next
      case False
      from that obtain ys where acc: "acc = ys @ [last acc]"
        by (metis append_butlast_last_id empty_iff list.set(1))
      with that False have "a \<in> set ys"
        by (metis UnE empty_iff insert_iff list.set set_append)
      with Cons.prems(1) acc have "cmp a (last acc) < 0"
        by (metis list.set_intros(1) sorted_wrt_append)
      moreover have "cmp (last acc) x < 0"
        using \<open>acc = [] \<or> cmp (last acc) x \<noteq> 0\<close> that Cons.prems(3)[of "last acc" x]
        by (cases "acc = []") auto
      ultimately show ?thesis by (rule cmp_strict_trans)
    qed
    have "sorted_wrt (\<lambda>a b. cmp a b < 0) (acc @ [x])"
      using Cons.prems(1) lt by (auto simp: sorted_wrt_append)
    moreover have "cmp a b \<le> 0" if "a \<in> set (acc @ [x])" "b \<in> set xs" for a b
      using that Cons.prems(2,3) by auto
    ultimately show ?thesis
      using True Cons.IH[of "acc @ [x]"] Cons.prems(2) by auto
  next
    case False
    then have "x = last acc" "acc \<noteq> []" using cmp_zero[of "last acc" x] by auto
    then have "x \<in> set acc" by simp
    with False Cons.IH[of acc] Cons.prems show ?thesis by auto
  qed
qed

lemma dedup_sorted:
  shows "sorted_wrt (\<lambda>a b. cmp a b < 0) (pushDistinct cmp [] (js_sort cmp xs))"
    and "set (pushDistinct cmp [] (js_sort cmp xs)) = set xs"
  using pushDistinct_spec[of "[]" "js_sort cmp xs"] sorted_js_sort by auto

lemma strict_sorted_unique:
  assumes "sorted_wrt (\<lambda>a b. cmp a b < 0) xs" "sorted_wrt (\<lambda>a b. cmp a b < 0) ys"
    and "set xs = set ys"
  shows "xs = ys"
  using assms
proof (induction xs arbitrary: ys)
  case Nil
  then show ?case by simp
next
  case (Cons x xs)
  then obtain y ys' where ys: "ys = y # ys'" by (cases ys) auto
  have irr: "\<not> cmp a a < 0" for a using cmp_zero[of a a] by simp
  have asym: "cmp a b < 0 \<Longrightarrow> \<not> cmp b a < 0" for a b using cmp_sym[of a b] by simp
  have xy: "x = y"
    using Cons.prems ys asym by (metis list.set_intros(1) set_ConsD sorted_wrt.simps(2))
  moreover have "set xs = set ys'"
    using Cons.prems ys xy irr by (metis insert_ident list.set(2) sorted_wrt.simps(2))
  ultimately show ?case using Cons.IH[of ys'] Cons.prems ys by auto
qed

text \<open>Sorting and deduplicating depends on the set of elements only.\<close>

lemma dedup_canonical:
  "set xs = set ys \<Longrightarrow> pushDistinct cmp [] (js_sort cmp xs) = pushDistinct cmp [] (js_sort cmp ys)"
  by (rule strict_sorted_unique) (auto simp: dedup_sorted)

lemma js_sort_canonical:
  assumes "distinct xs" "distinct ys" "set xs = set ys"
  shows "js_sort cmp xs = js_sort cmp ys"
proof (rule strict_sorted_unique)
  have strict: "sorted_wrt (\<lambda>a b. cmp a b < 0) zs"
    if "sorted_wrt (\<lambda>a b. cmp a b \<le> 0) zs" "distinct zs" for zs
    using that by (induction zs) (auto simp: less_le cmp_zero)
  show "sorted_wrt (\<lambda>a b. cmp a b < 0) (js_sort cmp xs)"
    and "sorted_wrt (\<lambda>a b. cmp a b < 0) (js_sort cmp ys)"
    using assms by (auto intro!: strict sorted_js_sort)
  show "set (js_sort cmp xs) = set (js_sort cmp ys)" using assms by simp
qed

end

text \<open>The default comparison of strings, by code units.\<close>

definition js_compare :: "'a::linorder \<Rightarrow> 'a \<Rightarrow> int" where
  "js_compare a b = (if a < b then -1 else if b < a then 1 else 0)"

interpretation str_cmp: comparator "js_compare :: 'a::linorder \<Rightarrow> 'a \<Rightarrow> int"
  by unfold_locales (auto simp: js_compare_def split: if_splits)

text \<open>A comparator from an injective key into a linear order.\<close>

lemma comparator_by_key:
  fixes f :: "'a \<Rightarrow> 'b::linorder"
  assumes lt: "\<And>a b. cmp a b < 0 \<longleftrightarrow> f a < f b" and gt: "\<And>a b. 0 < cmp a b \<longleftrightarrow> f b < f a"
    and inj: "\<And>a b. f a = f b \<Longrightarrow> a = b"
  shows "comparator cmp"
proof
  fix a b c
  show "cmp a b = 0 \<longleftrightarrow> a = b"
    using lt[of a b] gt[of a b] inj[of a b] by (metis less_irrefl linorder_less_linear)
  show "cmp a b < 0 \<longleftrightarrow> 0 < cmp b a" using lt gt by simp
  have le: "cmp a b \<le> 0 \<longleftrightarrow> f a \<le> f b" for a b using gt[of a b] by (simp add: not_less[symmetric])
  then show "cmp a b \<le> 0 \<Longrightarrow> cmp b c \<le> 0 \<Longrightarrow> cmp a c \<le> 0" by (meson order_trans)
qed

section \<open>Insertion-ordered maps\<close>

text \<open>
  A JavaScript \<open>Map\<close> is an association list with distinct keys in insertion order: \<open>set\<close> on a
  present key replaces the value in place, on an absent key appends.
\<close>

fun jsmap_set :: "('k \<times> 'v) list \<Rightarrow> 'k \<Rightarrow> 'v \<Rightarrow> ('k \<times> 'v) list" where
  "jsmap_set [] k v = [(k, v)]"
| "jsmap_set ((k', v') # m) k v = (if k' = k then (k, v) # m else (k', v') # jsmap_set m k v)"

definition jsmap_delete :: "('k \<times> 'v) list \<Rightarrow> 'k \<Rightarrow> ('k \<times> 'v) list" where
  "jsmap_delete m k = filter (\<lambda>(k', _). k' \<noteq> k) m"

lemma jsmap_set_lookup [simp]: "map_of (jsmap_set m k v) = (map_of m)(k \<mapsto> v)"
  by (induction m k v rule: jsmap_set.induct) auto

lemma jsmap_delete_lookup [simp]: "map_of (jsmap_delete m k) = (map_of m)(k := None)"
  by (induction m) (auto simp: jsmap_delete_def)

lemma jsmap_set_keys: "set (map fst (jsmap_set m k v)) = insert k (set (map fst m))"
  by (induction m k v rule: jsmap_set.induct) auto

lemma jsmap_set_distinct [simp]: "distinct (map fst m) \<Longrightarrow> distinct (map fst (jsmap_set m k v))"
  by (induction m k v rule: jsmap_set.induct) (auto simp: jsmap_set_keys simp flip: set_map)

lemma jsmap_delete_distinct [simp]: "distinct (map fst m) \<Longrightarrow> distinct (map fst (jsmap_delete m k))"
  by (auto simp: jsmap_delete_def distinct_map intro: inj_on_subset)

lemma jsmap_delete_subset: "set (jsmap_delete m k) \<subseteq> set m"
  by (auto simp: jsmap_delete_def)

lemma jsmap_set_append: "k \<notin> set (map fst m) \<Longrightarrow> jsmap_set m k v = m @ [(k, v)]"
  by (induction m k v rule: jsmap_set.induct) auto

text \<open>A lookup in a map is the first list entry.\<close>

locale keyed_store =
  fixes lookup :: "'m \<Rightarrow> 'k \<Rightarrow> 'v option"
    and store :: "'m \<Rightarrow> 'k \<Rightarrow> 'v \<Rightarrow> 'm"
    and delete :: "'m \<Rightarrow> 'k \<Rightarrow> 'm"
  assumes lookup_store: "lookup (store m k v) k' = (if k' = k then Some v else lookup m k')"
    and lookup_delete: "lookup (delete m k) k' = (if k' = k then None else lookup m k')"
begin

lemma lookup_store_same [simp]: "lookup (store m k v) k = Some v"
  by (simp add: lookup_store)

lemma lookup_delete_store: "lookup (delete (store m k v) k) k' = lookup (delete m k) k'"
  by (simp add: lookup_store lookup_delete)

end

interpretation jsmap: keyed_store "map_of :: ('k \<times> 'v) list \<Rightarrow> 'k \<rightharpoonup> 'v" jsmap_set jsmap_delete
  by unfold_locales auto

section \<open>Arrays\<close>

text \<open>Mapping a throwing snapshot over an array: the first failure aborts.\<close>

fun mapM :: "('a \<Rightarrow> 'b option) \<Rightarrow> 'a list \<Rightarrow> 'b list option" where
  "mapM f [] = Some []"
| "mapM f (x # xs) = (case f x of None \<Rightarrow> None | Some y \<Rightarrow> map_option (\<lambda>ys. y # ys) (mapM f xs))"

lemma mapM_Some: "mapM f xs = Some ys \<longleftrightarrow> map f xs = map Some ys"
  by (induction xs arbitrary: ys) (auto split: option.splits)

lemma mapM_id: "(\<And>x. x \<in> set xs \<Longrightarrow> f x = Some (g x)) \<Longrightarrow> mapM f xs = Some (map g xs)"
  by (simp add: mapM_Some)

lemma mapM_length: "mapM f xs = Some ys \<Longrightarrow> length ys = length xs"
  by (metis length_map mapM_Some)

lemma mapM_in_set: "mapM f xs = Some ys \<Longrightarrow> y \<in> set ys \<Longrightarrow> \<exists>x \<in> set xs. f x = Some y"
  by (metis (no_types, lifting) image_eqI imageE list.set_map mapM_Some)

lemma mapM_None: "mapM f xs = None \<longleftrightarrow> (\<exists>x \<in> set xs. f x = None)"
  by (induction xs) (auto split: option.splits)

lemma mapM_append: "mapM f (xs @ ys) = (case mapM f xs of None \<Rightarrow> None | Some a \<Rightarrow> map_option (\<lambda>b. a @ b) (mapM f ys))"
  by (cases "mapM f ys"; induction xs) (auto split: option.splits)

text \<open>\<open>Array.prototype.findIndex\<close>, with \<open>None\<close> for -1.\<close>

fun find_index :: "('a \<Rightarrow> bool) \<Rightarrow> 'a list \<Rightarrow> nat option" where
  "find_index P [] = None"
| "find_index P (x # xs) = (if P x then Some 0 else map_option Suc (find_index P xs))"

lemma find_index_None: "find_index P xs = None \<longleftrightarrow> (\<forall>x \<in> set xs. \<not> P x)"
  by (induction xs) auto

lemma find_index_Some: "find_index P xs = Some i \<Longrightarrow> i < length xs \<and> P (xs ! i) \<and> (\<forall>j < i. \<not> P (xs ! j))"
proof (induction xs arbitrary: i)
  case (Cons x xs)
  then show ?case by (cases i) (auto split: if_splits simp: less_Suc_eq_0_disj)
qed simp

text \<open>\<open>findIndex\<close> with a predicate that may throw: the outer \<open>None\<close> is the exception.\<close>

fun findIndexM :: "('a \<Rightarrow> bool option) \<Rightarrow> 'a list \<Rightarrow> nat option option" where
  "findIndexM f [] = Some None"
| "findIndexM f (x # xs) =
     (case f x of
        None \<Rightarrow> None
      | Some True \<Rightarrow> Some (Some 0)
      | Some False \<Rightarrow> map_option (map_option Suc) (findIndexM f xs))"

lemma findIndexM_None: "findIndexM f xs = Some None \<longleftrightarrow> (\<forall>x \<in> set xs. f x = Some False)"
  by (induction xs) (auto split: option.splits bool.splits)

lemma findIndexM_total: "(\<And>x. x \<in> set xs \<Longrightarrow> f x \<noteq> None) \<Longrightarrow> findIndexM f xs \<noteq> None"
  by (induction xs) (auto split: option.splits bool.splits)

text \<open>The elements a \<open>Set\<close> built from an array holds, in insertion order.\<close>

definition distinctFirst :: "'a list \<Rightarrow> 'a list" where
  "distinctFirst xs = rev (remdups (rev xs))"

lemma set_distinctFirst [simp]: "set (distinctFirst xs) = set xs"
  by (simp add: distinctFirst_def)

lemma distinct_distinctFirst [simp]: "distinct (distinctFirst xs)"
  by (simp add: distinctFirst_def)

lemma length_distinctFirst: "length (distinctFirst xs) \<le> length xs"
  by (metis distinctFirst_def length_remdups_leq length_rev)

text \<open>The decimal text of a non-negative integer.\<close>

fun decimal :: "nat \<Rightarrow> ustring" where
  "decimal n = (if n < 10 then [of_nat (48 + n)] else decimal (n div 10) @ [of_nat (48 + n mod 10)])"

declare decimal.simps [simp del]

lemma decimal_not_Nil [simp]: "decimal n \<noteq> []"
  by (subst decimal.simps) simp

lemma digit_inject: "a < 10 \<Longrightarrow> b < 10 \<Longrightarrow> (of_nat (48 + a) :: code_unit) = of_nat (48 + b) \<Longrightarrow> a = b"
  using word_of_nat_eq_iff[where 'a = 16, of "48 + a" "48 + b"] by (simp add: take_bit_nat_eq_self)

lemma decimal_inject: "decimal m = decimal n \<Longrightarrow> m = n"
proof (induction m arbitrary: n rule: less_induct)
  case (less m)
  show ?case
  proof (cases "m < 10 \<or> n < 10")
    case True
    with less.prems show ?thesis
      by (subst (asm) (2) decimal.simps, subst (asm) decimal.simps) (auto split: if_splits dest: digit_inject dest!: sym[of "[]"])
  next
    case False
    with less.prems have "decimal (m div 10) = decimal (n div 10)"
      "(of_nat (48 + m mod 10) :: code_unit) = of_nat (48 + n mod 10)"
      by (subst (asm) (2) decimal.simps, subst (asm) decimal.simps, simp)+
    with less.IH[of "m div 10" "n div 10"] False have "m div 10 = n div 10" "m mod 10 = n mod 10"
      by (auto intro: digit_inject)
    then show ?thesis by (metis div_mod_decomp)
  qed
qed

end
