(* ===== verification/Capability.thy ===== *)
theory Capability
  imports Prelude
begin

text \<open>
  The capability vocabulary (\<open>packages/smithers/flows/capability/src/Capability.ts\<close>): actions,
  exact capabilities, wildcard patterns, the glob matcher, conservative subsumption, and effect
  tiers with lexical workspace containment.  The two-pointer glob matcher is proved equal to the
  recursive meaning of a glob, subsumption is proved sound for matching, and containment is
  proved to be a prefix relation on normalised path segments.
\<close>

section \<open>Actions, capabilities and patterns\<close>

datatype action =
    FsRead | FsWrite | NetGet | NetPost | ModelCall | ProcSpawn
  | JjStatus | JjDiff | JjSnapshot | JjRestore | JjWorkspaceAdd | JjWorkspaceForget | JjRoot | JjRevert

datatype pattern_action =
    Exactly action | FsAny | NetAny | ModelAny | ProcAny | JjAny | AnyAction

fun action_text :: "action \<Rightarrow> ustring" where
  "action_text FsRead = js ''fs:read''"
| "action_text FsWrite = js ''fs:write''"
| "action_text NetGet = js ''net:get''"
| "action_text NetPost = js ''net:post''"
| "action_text ModelCall = js ''model:call''"
| "action_text ProcSpawn = js ''proc:spawn''"
| "action_text JjStatus = js ''jj:status''"
| "action_text JjDiff = js ''jj:diff''"
| "action_text JjSnapshot = js ''jj:snapshot''"
| "action_text JjRestore = js ''jj:restore''"
| "action_text JjWorkspaceAdd = js ''jj:workspace-add''"
| "action_text JjWorkspaceForget = js ''jj:workspace-forget''"
| "action_text JjRoot = js ''jj:root''"
| "action_text JjRevert = js ''jj:revert''"

fun pattern_action_text :: "pattern_action \<Rightarrow> ustring" where
  "pattern_action_text (Exactly a) = action_text a"
| "pattern_action_text FsAny = js ''fs:*''"
| "pattern_action_text NetAny = js ''net:*''"
| "pattern_action_text ModelAny = js ''model:*''"
| "pattern_action_text ProcAny = js ''proc:*''"
| "pattern_action_text JjAny = js ''jj:*''"
| "pattern_action_text AnyAction = js ''*''"

definition action_literals :: "action list" where
  "action_literals = [FsRead, FsWrite, NetGet, NetPost, ModelCall, ProcSpawn, JjStatus, JjDiff,
     JjSnapshot, JjRestore, JjWorkspaceAdd, JjWorkspaceForget, JjRoot, JjRevert]"

definition pattern_action_literals :: "pattern_action list" where
  "pattern_action_literals =
     map Exactly action_literals @ [FsAny, NetAny, ModelAny, ProcAny, JjAny, AnyAction]"

text \<open>The runtime guards \<open>isAction\<close> and \<open>isPatternAction\<close>, returning the narrowed value.\<close>

definition isAction :: "ustring \<Rightarrow> action option" where
  "isAction value = find (\<lambda>a. action_text a = value) action_literals"

definition isPatternAction :: "ustring \<Rightarrow> pattern_action option" where
  "isPatternAction value = find (\<lambda>a. pattern_action_text a = value) pattern_action_literals"

definition maxResourceLength :: nat where
  "maxResourceLength = 4096"

definition maxMatchWork :: nat where
  "maxMatchWork = maxResourceLength * maxResourceLength"

record capability =
  cap_action :: action
  cap_resource :: ustring

record capability_pattern =
  pat_action :: pattern_action
  pat_resource :: ustring

text \<open>The schema check on the resource of both classes.\<close>

definition valid_capability :: "capability \<Rightarrow> bool" where
  "valid_capability c = (length (cap_resource c) \<le> maxResourceLength)"

definition valid_pattern :: "capability_pattern \<Rightarrow> bool" where
  "valid_pattern p = (length (pat_resource p) \<le> maxResourceLength)"

text \<open>The constructors throw (\<open>None\<close>) on a resource over the limit.\<close>

definition make_capability :: "action \<Rightarrow> ustring \<Rightarrow> capability option" where
  "make_capability a r =
     (let c = \<lparr>cap_action = a, cap_resource = r\<rparr> in if valid_capability c then Some c else None)"

definition make_pattern :: "pattern_action \<Rightarrow> ustring \<Rightarrow> capability_pattern option" where
  "make_pattern a r =
     (let p = \<lparr>pat_action = a, pat_resource = r\<rparr> in if valid_pattern p then Some p else None)"

section \<open>Rendering and parsing\<close>

text \<open>\<open>format\<close> works on any structural \<open>{action, resource}\<close>; an unknown action throws.\<close>

definition format :: "ustring \<Rightarrow> ustring \<Rightarrow> ustring option" where
  "format act resource =
     (case isPatternAction act of None \<Rightarrow> None | Some _ \<Rightarrow> Some (act @ js '':'' @ resource))"

abbreviation format_capability :: "capability \<Rightarrow> ustring option" where
  "format_capability c \<equiv> format (action_text (cap_action c)) (cap_resource c)"

abbreviation format_pattern :: "capability_pattern \<Rightarrow> ustring option" where
  "format_pattern p \<equiv> format (pattern_action_text (pat_action p)) (pat_resource p)"

definition colon :: code_unit where
  "colon = cu CHR '':''"

definition star :: code_unit where
  "star = cu CHR ''*''"

definition question :: code_unit where
  "question = cu CHR ''?''"

definition slash :: code_unit where
  "slash = cu CHR ''/''"

definition parse :: "ustring \<Rightarrow> capability option" where
  "parse input =
     (let components = js_split colon input in
      if length components < 3 then None
      else let namespace = components ! 0;
               operation = components ! 1;
               act = namespace @ js '':'' @ operation;
               resource = js_join [colon] (drop 2 components)
           in case isAction act of
                Some a \<Rightarrow> if length resource \<le> maxResourceLength
                           then make_capability a resource else None
              | None \<Rightarrow> None)"

definition parsePattern :: "ustring \<Rightarrow> capability_pattern option" where
  "parsePattern input =
     (let components = js_split colon input in
      if components ! 0 = js ''*'' then
        (if length components < 2 then make_pattern AnyAction (js ''**'')
         else let resource = js_join [colon] (drop 1 components)
              in if length resource \<le> maxResourceLength then make_pattern AnyAction resource else None)
      else if length components < 3 then None
      else let namespace = components ! 0;
               operation = components ! 1;
               act = namespace @ js '':'' @ operation;
               resource = js_join [colon] (drop 2 components)
           in case isPatternAction act of
                Some a \<Rightarrow> if length resource \<le> maxResourceLength
                           then make_pattern a resource else None
              | None \<Rightarrow> None)"

definition hasResourceWildcard :: "ustring \<Rightarrow> bool" where
  "hasResourceWildcard resource = (star \<in> set resource \<or> question \<in> set resource)"

definition patternFromCapability :: "capability \<Rightarrow> capability_pattern option" where
  "patternFromCapability c =
     (if length (cap_resource c) > maxResourceLength
         \<or> star \<in> set (cap_resource c) \<or> question \<in> set (cap_resource c)
      then None
      else make_pattern (Exactly (cap_action c)) (cap_resource c))"

section \<open>Matching\<close>

definition matchesAction :: "pattern_action \<Rightarrow> action \<Rightarrow> bool" where
  "matchesAction p a =
     (let pt = pattern_action_text p; at = action_text a in
      pt = js ''*'' \<or> pt = at \<or> (endsWith pt (js '':*'') \<and> startsWith at (dropEnd 1 pt)))"

definition withinMatchBudget :: "capability_pattern \<Rightarrow> capability \<Rightarrow> bool" where
  "withinMatchBudget p c =
     (\<not> matchesAction (pat_action p) (cap_action c)
      \<or> length (pat_resource p) * length (cap_resource c) \<le> maxMatchWork)"

text \<open>
  The loop of \<open>matchGlob\<close>: \<open>pi\<close>, \<open>ri\<close> are \<open>patternIndex\<close> and \<open>resourceIndex\<close>, \<open>si\<close> is
  \<open>starIndex\<close> with \<open>None\<close> for \<open>-1\<close>, \<open>sri\<close> is \<open>starResourceIndex\<close>.  Reading
  \<open>pattern[pi]\<close> out of range is \<open>undefined\<close>.
\<close>

definition unit_at :: "'a list \<Rightarrow> nat \<Rightarrow> 'a option" where
  "unit_at s i = (if i < length s then Some (s ! i) else None)"

fun skipStars :: "ustring \<Rightarrow> nat" where
  "skipStars [] = 0"
| "skipStars (x # xs) = (if x = star then Suc (skipStars xs) else 0)"

definition glob_anchored :: "nat \<Rightarrow> nat \<Rightarrow> nat option \<Rightarrow> nat \<Rightarrow> bool" where
  "glob_anchored pi ri si sri = (case si of None \<Rightarrow> True | Some s \<Rightarrow> s < pi \<and> sri \<le> ri)"

function matchGlobLoop ::
  "ustring \<Rightarrow> ustring \<Rightarrow> nat \<Rightarrow> nat \<Rightarrow> nat option \<Rightarrow> nat \<Rightarrow> bool" where
  "matchGlobLoop pattern resource pi ri si sri =
     (if ri < length resource then
        (if unit_at pattern pi = Some star then
           matchGlobLoop pattern resource (pi + 1) ri (Some pi) ri
         else if unit_at pattern pi \<noteq> None
              \<and> (unit_at pattern pi = Some question \<or> unit_at pattern pi = Some (resource ! ri)) then
           matchGlobLoop pattern resource (pi + 1) (ri + 1) si sri
         else (case si of
                 Some s \<Rightarrow> matchGlobLoop pattern resource (s + 1) (sri + 1) si (sri + 1)
               | None \<Rightarrow> False))
      else pi + skipStars (drop pi pattern) = length pattern)"
  by pat_completeness auto

text \<open>
  Termination: the remembered star moves right, or it is re-anchored further into the resource, or
  the pattern index advances; the leading measure covers argument tuples no run reaches.
\<close>

termination
  by (relation "measures
        [\<lambda>(p, r, pi, ri, si, sri). if glob_anchored pi ri si sri then 0 else 1 :: nat,
         \<lambda>(p, r, pi, ri, si, sri). case si of None \<Rightarrow> Suc (length p) | Some s \<Rightarrow> length p - s,
         \<lambda>(p, r, pi, ri, si, sri). length r - sri,
         \<lambda>(p, r, pi, ri, si, sri). length p - pi]")
     (auto simp: glob_anchored_def unit_at_def split: option.splits if_splits)

definition matchGlob :: "ustring \<Rightarrow> ustring \<Rightarrow> bool" where
  "matchGlob pattern resource = matchGlobLoop pattern resource 0 0 None 0"

definition matchesResource :: "ustring \<Rightarrow> ustring \<Rightarrow> bool" where
  "matchesResource pattern resource =
     (if length pattern * length resource > maxMatchWork then False
      else if endsWith pattern (js '' *'') \<and> matchGlob (dropEnd 2 pattern) resource then True
      else matchGlob pattern resource)"

definition matches :: "capability_pattern \<Rightarrow> capability \<Rightarrow> bool" where
  "matches p c = (matchesAction (pat_action p) (cap_action c)
                  \<and> matchesResource (pat_resource p) (cap_resource c))"

section \<open>Subsumption\<close>

definition actionSubsumes :: "pattern_action \<Rightarrow> pattern_action \<Rightarrow> bool" where
  "actionSubsumes left right =
     (let l = pattern_action_text left; r = pattern_action_text right in
      if l = js ''*'' \<or> l = r then True
      else endsWith l (js '':*'') \<and> r \<noteq> js ''*'' \<and> startsWith r (dropEnd 1 l))"

definition resourceSubsumes :: "ustring \<Rightarrow> ustring \<Rightarrow> bool" where
  "resourceSubsumes left right =
     (if left = right \<or> left = js ''**'' then True
      else if \<not> endsWith left (js ''/**'') then False
      else startsWith right (dropEnd 3 left @ js ''/''))"

definition subsumes :: "capability_pattern \<Rightarrow> capability_pattern \<Rightarrow> bool" where
  "subsumes left right =
     (actionSubsumes (pat_action left) (pat_action right)
      \<and> resourceSubsumes (pat_resource left) (pat_resource right))"

section \<open>Effect tiers\<close>

datatype effect_tier = Sealed | Compensable | Irreversible

text \<open>The loop of \<open>lexicalPath\<close> over the split path, with \<open>segments\<close> as a list.\<close>

fun lexicalSegments :: "bool \<Rightarrow> ustring list \<Rightarrow> ustring list \<Rightarrow> ustring list" where
  "lexicalSegments absolute segments [] = segments"
| "lexicalSegments absolute segments (segment # rest) =
     (if segment = [] \<or> segment = js ''.'' then lexicalSegments absolute segments rest
      else if segment = js ''..'' then
        (if segments \<noteq> [] \<and> last segments \<noteq> js ''..''
         then lexicalSegments absolute (butlast segments) rest
         else if \<not> absolute then lexicalSegments absolute (segments @ [segment]) rest
         else lexicalSegments absolute segments rest)
      else lexicalSegments absolute (segments @ [segment]) rest)"

definition lexicalPath :: "ustring \<Rightarrow> ustring" where
  "lexicalPath path =
     (let absolute = startsWith path (js ''/'');
          pre = (if absolute then js ''/'' else []);
          segments = lexicalSegments absolute [] (js_split slash (drop (length pre) path));
          result = pre @ js_join [slash] segments
      in if result = [] then js ''.'' else result)"

definition isAbsolutePath :: "ustring \<Rightarrow> bool" where
  "isAbsolutePath path = startsWith path (js ''/'')"

definition isInsideWorkspace :: "ustring \<Rightarrow> ustring \<Rightarrow> bool" where
  "isInsideWorkspace resource workspaceRoot =
     (let root = lexicalPath workspaceRoot in
      if root = js ''.'' then False
      else let resolved = lexicalPath (if isAbsolutePath resource then resource
                                       else root @ js ''/'' @ resource);
               pre = (if endsWith root (js ''/'') then root else root @ js ''/'')
           in if resolved = root then True
              else if \<not> startsWith resolved pre then False
              else let remainder = drop (length pre) resolved
                   in remainder \<noteq> js ''..'' \<and> \<not> startsWith remainder (js ''../''))"

definition tierOf :: "capability \<Rightarrow> ustring \<Rightarrow> effect_tier" where
  "tierOf c workspaceRoot =
     (case cap_action c of
        FsRead \<Rightarrow> Sealed | NetGet \<Rightarrow> Sealed | ModelCall \<Rightarrow> Sealed
      | JjStatus \<Rightarrow> Sealed | JjDiff \<Rightarrow> Sealed | JjRoot \<Rightarrow> Sealed
      | FsWrite \<Rightarrow> if isInsideWorkspace (cap_resource c) workspaceRoot then Compensable else Irreversible
      | JjSnapshot \<Rightarrow> Compensable | JjRestore \<Rightarrow> Compensable | JjWorkspaceAdd \<Rightarrow> Compensable
      | JjWorkspaceForget \<Rightarrow> Compensable | JjRevert \<Rightarrow> Compensable
      | NetPost \<Rightarrow> Irreversible | ProcSpawn \<Rightarrow> Irreversible)"

definition requiresIdempotencyKey :: "effect_tier \<Rightarrow> bool" where
  "requiresIdempotencyKey tier = (tier = Irreversible)"

declare matchGlobLoop.simps [simp del]

section \<open>The meaning of a glob\<close>

fun glob :: "ustring \<Rightarrow> ustring \<Rightarrow> bool" where
  "glob [] r = (r = [])"
| "glob (c # p) [] = (c = star \<and> glob p [])"
| "glob (c # p) (x # r) =
     (if c = star then glob p (x # r) \<or> glob (c # p) r
      else (c = question \<or> c = x) \<and> glob p r)"

lemma glob_star: "glob (star # p) r \<longleftrightarrow> (\<exists>k. glob p (drop k r))"
proof (induction r)
  case Nil
  then show ?case by simp
next
  case (Cons x r)
  have "(\<exists>k. glob p (drop k (x # r))) \<longleftrightarrow> glob p (x # r) \<or> (\<exists>k. glob p (drop k r))"
    by (metis drop0 drop_Suc_Cons not0_implies_Suc)
  with Cons show ?case by simp
qed

lemma glob_Nil: "glob p [] \<longleftrightarrow> skipStars p = length p"
  by (induction p) auto

lemma glob_append_star: "glob p r \<Longrightarrow> glob (p @ [star]) (r @ t)"
proof (induction p r rule: glob.induct)
  case (1 r)
  then show ?case by (auto simp: glob_star intro: exI[of _ "length t"])
next
  case (2 c p)
  then show ?case by (auto simp: glob_star intro: exI[of _ 0])
next
  case (3 c p x r)
  then show ?case by (auto split: if_splits)
qed

lemma glob_all: "glob [star, star] r"
  by (auto simp: glob_star intro: exI[of _ "length r"])

text \<open>A star-free part of the pattern consumes exactly its length.\<close>

lemma glob_literal_prefix:
  "star \<notin> set seg \<Longrightarrow> glob (seg @ q) t \<Longrightarrow> length seg \<le> length t \<and> glob q (drop (length seg) t)"
proof (induction seg arbitrary: t)
  case Nil
  then show ?case by simp
next
  case (Cons c seg)
  then show ?case by (cases t) auto
qed

lemma glob_star_skip: "glob (star # p) (drop k r) \<Longrightarrow> glob (star # p) r"
  by (auto simp: glob_star)

lemma glob_split: "glob (a @ b) r \<Longrightarrow> \<exists>k. glob a (take k r) \<and> glob b (drop k r)"
proof (induction a r rule: glob.induct)
  case (1 r)
  then show ?case by (auto intro: exI[of _ 0])
next
  case (2 c p)
  then show ?case by auto
next
  case (3 c p x r)
  show ?case
  proof (cases "c = star")
    case True
    with 3 consider "glob (p @ b) (x # r)" | "glob ((c # p) @ b) r" by auto
    then show ?thesis
    proof cases
      case 1
      with 3 True obtain k where "glob p (take k (x # r))" "glob b (drop k (x # r))" by blast
      moreover from this have "glob (c # p) (take k (x # r))"
        using True by (auto simp: glob_star intro: exI[of _ 0])
      ultimately show ?thesis by blast
    next
      case 2
      with 3 True obtain k where "glob (c # p) (take k r)" "glob b (drop k r)" by blast
      then show ?thesis using True by (auto intro!: exI[of _ "Suc k"])
    qed
  next
    case False
    with 3 obtain k where "glob p (take k r)" "glob b (drop k r)" by auto
    with False 3 show ?thesis by (auto intro!: exI[of _ "Suc k"])
  qed
qed

section \<open>The two-pointer matcher computes the meaning of the glob\<close>

definition seg_ok :: "ustring \<Rightarrow> nat \<Rightarrow> nat \<Rightarrow> nat option \<Rightarrow> nat \<Rightarrow> bool" where
  "seg_ok p pi ri si sri =
     (case si of None \<Rightarrow> True
      | Some s \<Rightarrow> s < length p \<and> p ! s = star \<and> sri \<le> ri \<and> pi = s + 1 + (ri - sri) \<and> pi \<le> length p
                  \<and> star \<notin> set (take (ri - sri) (drop (s + 1) p)))"

definition open_choice :: "ustring \<Rightarrow> ustring \<Rightarrow> nat option \<Rightarrow> nat \<Rightarrow> bool" where
  "open_choice p r si sri =
     (case si of None \<Rightarrow> False | Some s \<Rightarrow> \<exists>k. glob (drop (s + 1) p) (drop (sri + 1 + k) r))"

lemma open_choice_end:
  assumes "seg_ok p pi ri si sri" "open_choice p r si sri"
  shows "\<exists>k. glob (drop pi p) (drop (ri + k) r)"
proof -
  obtain s k where si: "si = Some s" and g: "glob (drop (s + 1) p) (drop (sri + 1 + k) r)"
    using assms(2) by (auto simp: open_choice_def split: option.splits)
  let ?seg = "take (ri - sri) (drop (s + 1) p)"
  have seg: "star \<notin> set ?seg" "length ?seg = ri - sri" "sri \<le> ri" "pi = s + 1 + (ri - sri)"
    using assms(1) si by (auto simp: seg_ok_def)
  have "drop (s + 1) p = ?seg @ drop pi p"
    using append_take_drop_id[of "ri - sri" "drop (s + 1) p"] seg(4) by (simp add: add.commute)
  with g have "glob (?seg @ drop pi p) (drop (sri + 1 + k) r)" by simp
  then have "glob (drop pi p) (drop (length ?seg) (drop (sri + 1 + k) r))"
    using glob_literal_prefix seg(1) by blast
  with seg have "glob (drop pi p) (drop (ri + (1 + k)) r)"
    by (simp add: add.commute add.left_commute)
  then show ?thesis by blast
qed

lemma matchGlobLoop_glob:
  "seg_ok p pi ri si sri \<Longrightarrow> pi \<le> length p \<Longrightarrow>
   matchGlobLoop p r pi ri si sri \<longleftrightarrow> glob (drop pi p) (drop ri r) \<or> open_choice p r si sri"
proof (induction p r pi ri si sri rule: matchGlobLoop.induct)
  case (1 p r pi ri si sri)
  note step = matchGlobLoop.simps[of p r pi ri si sri]
  consider (finished) "\<not> ri < length r"
    | (wild) "ri < length r" "unit_at p pi = Some star"
    | (lit) "ri < length r" "unit_at p pi \<noteq> Some star" "unit_at p pi \<noteq> None"
        "unit_at p pi = Some question \<or> unit_at p pi = Some (r ! ri)"
    | (stuck) "ri < length r" "unit_at p pi \<noteq> Some star"
        "\<not> (unit_at p pi \<noteq> None \<and> (unit_at p pi = Some question \<or> unit_at p pi = Some (r ! ri)))"
    by blast
  then show ?case
  proof cases
    case finished
    have "glob (drop pi p) []" if choice: "open_choice p r si sri"
      using open_choice_end[OF "1.prems"(1) choice] finished by auto
    with finished "1.prems"(2) show ?thesis by (auto simp: step glob_Nil)
  next
    case wild
    then have pi: "pi < length p" "p ! pi = star" by (auto simp: unit_at_def split: if_splits)
    then have drop_pi: "drop pi p = star # drop (Suc pi) p" by (simp add: Cons_nth_drop_Suc[symmetric])
    have "seg_ok p (pi + 1) ri (Some pi) ri" using pi by (simp add: seg_ok_def)
    with 1 wild pi have "matchGlobLoop p r (pi + 1) ri (Some pi) ri \<longleftrightarrow>
        glob (drop (pi + 1) p) (drop ri r) \<or> open_choice p r (Some pi) ri" by simp
    also have "\<dots> \<longleftrightarrow> glob (drop pi p) (drop ri r)"
      using ex_drop_split[of "glob (drop (Suc pi) p)" ri r]
      by (simp add: drop_pi glob_star open_choice_def add.commute)
    also have "\<dots> \<longleftrightarrow> glob (drop pi p) (drop ri r) \<or> open_choice p r si sri"
    proof -
      have "glob (drop pi p) (drop ri r)" if choice: "open_choice p r si sri"
      proof -
        obtain k where "glob (drop pi p) (drop k (drop ri r))"
          using open_choice_end[OF "1.prems"(1) choice] by (auto simp: add.commute)
        then show ?thesis unfolding drop_pi by (rule glob_star_skip)
      qed
      then show ?thesis by blast
    qed
    finally show ?thesis using wild by (simp add: step)
  next
    case lit
    then have pi: "pi < length p" "p ! pi \<noteq> star" "p ! pi = question \<or> p ! pi = r ! ri"
      by (auto simp: unit_at_def split: if_splits)
    have drops: "drop pi p = p ! pi # drop (Suc pi) p" "drop ri r = r ! ri # drop (Suc ri) r"
      using pi lit(1) by (simp_all add: Cons_nth_drop_Suc)
    have "seg_ok p (pi + 1) (ri + 1) si sri"
      using "1.prems" pi
      by (auto simp: seg_ok_def Suc_diff_le take_Suc_conv_app_nth split: option.splits)
    with 1 lit pi show ?thesis by (simp add: step drops)
  next
    case stuck
    have no: "\<not> glob (drop pi p) (drop ri r)"
    proof (cases "pi < length p")
      case True
      then have "drop pi p = p ! pi # drop (Suc pi) p" "drop ri r = r ! ri # drop (Suc ri) r"
        using stuck(1) by (simp_all add: Cons_nth_drop_Suc)
      with True stuck show ?thesis by (auto simp: unit_at_def)
    next
      case False
      with stuck(1) show ?thesis by simp
    qed
    show ?thesis
    proof (cases si)
      case None
      with stuck no show ?thesis unfolding step by (auto simp: open_choice_def)
    next
      case (Some s)
      have "seg_ok p (s + 1) (sri + 1) si (sri + 1)" using "1.prems" Some by (auto simp: seg_ok_def)
      moreover have "s + 1 \<le> length p" using "1.prems" Some by (auto simp: seg_ok_def)
      ultimately have "matchGlobLoop p r (s + 1) (sri + 1) si (sri + 1) \<longleftrightarrow>
          glob (drop (s + 1) p) (drop (sri + 1) r) \<or> open_choice p r si (sri + 1)"
        using "1.IH"(3)[of s] stuck Some by simp
      also have "\<dots> \<longleftrightarrow> open_choice p r si sri"
        using ex_drop_split[of "glob (drop (Suc s) p)" "Suc sri" r] Some
        by (simp add: open_choice_def)
      finally show ?thesis using stuck Some no unfolding step by auto
    qed
  qed
qed

lemma matchGlob_glob: "matchGlob p r = glob p r"
  using matchGlobLoop_glob[of p 0 0 None 0 r]
  by (simp add: matchGlob_def seg_ok_def open_choice_def)

section \<open>Action families\<close>

lemma action_literal_units:
  "js ''fs:read'' = [102, 115, 58, 114, 101, 97, 100]"
  "js ''fs:write'' = [102, 115, 58, 119, 114, 105, 116, 101]"
  "js ''net:get'' = [110, 101, 116, 58, 103, 101, 116]"
  "js ''net:post'' = [110, 101, 116, 58, 112, 111, 115, 116]"
  "js ''model:call'' = [109, 111, 100, 101, 108, 58, 99, 97, 108, 108]"
  "js ''proc:spawn'' = [112, 114, 111, 99, 58, 115, 112, 97, 119, 110]"
  "js ''jj:status'' = [106, 106, 58, 115, 116, 97, 116, 117, 115]"
  "js ''jj:diff'' = [106, 106, 58, 100, 105, 102, 102]"
  "js ''jj:snapshot'' = [106, 106, 58, 115, 110, 97, 112, 115, 104, 111, 116]"
  "js ''jj:restore'' = [106, 106, 58, 114, 101, 115, 116, 111, 114, 101]"
  "js ''jj:workspace-add'' = [106, 106, 58, 119, 111, 114, 107, 115, 112, 97, 99, 101, 45, 97, 100, 100]"
  "js ''jj:workspace-forget'' = [106, 106, 58, 119, 111, 114, 107, 115, 112, 97, 99, 101, 45, 102, 111, 114, 103, 101, 116]"
  "js ''jj:root'' = [106, 106, 58, 114, 111, 111, 116]"
  "js ''jj:revert'' = [106, 106, 58, 114, 101, 118, 101, 114, 116]"
  "js ''fs:*'' = [102, 115, 58, 42]"
  "js ''net:*'' = [110, 101, 116, 58, 42]"
  "js ''model:*'' = [109, 111, 100, 101, 108, 58, 42]"
  "js ''proc:*'' = [112, 114, 111, 99, 58, 42]"
  "js ''jj:*'' = [106, 106, 58, 42]"
  "js ''*'' = [42]"
  "js '':*'' = [58, 42]"
  "js '':'' = [58]"
  by (simp_all add: js_lits)

fun family :: "action \<Rightarrow> pattern_action" where
  "family FsRead = FsAny" | "family FsWrite = FsAny"
| "family NetGet = NetAny" | "family NetPost = NetAny"
| "family ModelCall = ModelAny" | "family ProcSpawn = ProcAny"
| "family _ = JjAny"

lemma action_text_inj [simp]: "action_text a = action_text b \<longleftrightarrow> a = b"
  by (cases a; cases b; simp add: action_literal_units)

lemma pattern_action_text_inj [simp]: "pattern_action_text a = pattern_action_text b \<longleftrightarrow> a = b"
proof (cases a)
  case (Exactly x)
  then show ?thesis by (cases b) (simp_all, (cases x; simp add: action_literal_units)+)
qed (cases b; simp add: action_literal_units; (rename_tac x, case_tac x; simp add: action_literal_units)?)+

lemma pattern_action_text_star [simp]: "pattern_action_text p = js ''*'' \<longleftrightarrow> p = AnyAction"
  using pattern_action_text_inj[of p AnyAction] by simp

lemma exact_not_family: "\<not> endsWith (action_text b) (js '':*'')"
  by (cases b; simp add: action_literal_units endsWith_def suffix_to_prefix)

lemma matchesAction_exact: "matchesAction (Exactly b) a \<longleftrightarrow> b = a"
proof -
  have "action_text b \<noteq> js ''*''"
    using pattern_action_text_star[of "Exactly b"] by simp
  then show ?thesis by (simp add: matchesAction_def Let_def exact_not_family)
qed

lemma matchesAction_iff: "matchesAction p a \<longleftrightarrow> p = AnyAction \<or> p = Exactly a \<or> p = family a"
proof (cases p)
  case (Exactly b)
  then show ?thesis by (cases a) (auto simp: matchesAction_exact)
qed (cases a; simp add: matchesAction_def action_literal_units endsWith_def startsWith_def dropEnd_def
       suffix_to_prefix)+

lemma actionSubsumes_exact_left: "actionSubsumes (Exactly b) r \<longleftrightarrow> r = Exactly b"
  using pattern_action_text_star[of "Exactly b"] pattern_action_text_inj[of "Exactly b" r]
  by (auto simp: actionSubsumes_def Let_def exact_not_family)

lemma actionSubsumes_exact_right: "actionSubsumes l (Exactly a) \<longleftrightarrow> matchesAction l a"
  using pattern_action_text_inj[of l "Exactly a"] pattern_action_text_star[of "Exactly a"]
  by (auto simp: actionSubsumes_def matchesAction_def Let_def)

lemma actionSubsumes_iff:
  "actionSubsumes l r \<longleftrightarrow> l = AnyAction \<or> l = r \<or> (\<exists>a. r = Exactly a \<and> l = family a)"
proof (cases "(\<exists>a. l = Exactly a) \<or> (\<exists>a. r = Exactly a)")
  case True
  have "Exactly b \<noteq> family a" for a b by (cases a) auto
  with True show ?thesis
    by (auto simp: actionSubsumes_exact_left actionSubsumes_exact_right matchesAction_iff)
next
  case False
  then show ?thesis
    by (cases l; cases r; simp add: actionSubsumes_def action_literal_units endsWith_def
          startsWith_def dropEnd_def suffix_to_prefix)
qed

lemma actionSubsumes_sound: "actionSubsumes l r \<Longrightarrow> matchesAction r a \<Longrightarrow> matchesAction l a"
  by (cases a) (auto simp: actionSubsumes_iff matchesAction_iff)

section \<open>Subsumption is sound for matching\<close>

lemma matchesResource_iff:
  "matchesResource p r \<longleftrightarrow>
     length p * length r \<le> maxMatchWork \<and>
     (glob p r \<or> (endsWith p (js '' *'') \<and> glob (dropEnd 2 p) r))"
  by (auto simp: matchesResource_def matchGlob_glob)

lemma work_within_budget:
  "length p \<le> maxResourceLength \<Longrightarrow> length r \<le> maxResourceLength \<Longrightarrow> length p * length r \<le> maxMatchWork"
  unfolding maxMatchWork_def by (rule mult_le_mono)

lemma recursive_units:
  "js ''/**'' = [slash, star, star]" "js ''/'' = [slash]" "js ''**'' = [star, star]"
  "js '' *'' = [cu CHR '' '', star]" "slash \<noteq> star" "slash \<noteq> cu CHR '' ''"
  by (simp_all add: js_lits star_def slash_def)

lemma glob_under_prefix: "glob (q @ t) x \<Longrightarrow> glob (q @ [star, star]) x"
proof -
  assume "glob (q @ t) x"
  then obtain k where "glob q (take k x)" using glob_split by blast
  then have "glob ((q @ [star]) @ [star]) ((take k x @ drop k x) @ [])"
    by (intro glob_append_star)
  then show ?thesis by simp
qed

lemma space_star_below_prefix:
  assumes "q @ slash # t = r0 @ [cu CHR '' '', star]"
  shows "\<exists>t'. r0 = q @ slash # t'"
proof (cases t rule: rev_cases)
  case Nil
  with assms have "last (q @ [slash]) = star" by simp
  then show ?thesis using recursive_units by simp
next
  case (snoc t1 y)
  with assms have eq: "(q @ slash # t1) @ [y] = (r0 @ [cu CHR '' '']) @ [star]" by simp
  then have eq1: "q @ slash # t1 = r0 @ [cu CHR '' '']" by (simp only: append1_eq_conv)
  show ?thesis
  proof (cases t1 rule: rev_cases)
    case Nil
    with eq1 have "last (q @ [slash]) = cu CHR '' ''" by simp
    then show ?thesis using recursive_units by simp
  next
    case (snoc t2 z)
    with eq1 have "(q @ slash # t2) @ [z] = r0 @ [cu CHR '' '']" by simp
    then show ?thesis by (auto simp only: append1_eq_conv)
  qed
qed

lemma resourceSubsumes_sound:
  assumes "resourceSubsumes l r" "matchesResource r x"
    and "length l \<le> maxResourceLength" "length x \<le> maxResourceLength"
  shows "matchesResource l x"
proof -
  note budget = work_within_budget[OF assms(3,4)]
  consider "l = r" | "l = js ''**''" | "endsWith l (js ''/**'')" "startsWith r (dropEnd 3 l @ js ''/'')"
    using assms(1) by (auto simp: resourceSubsumes_def split: if_splits)
  then show ?thesis
  proof cases
    case 1
    with assms(2) show ?thesis by simp
  next
    case 2
    with budget glob_all show ?thesis by (simp add: matchesResource_iff recursive_units)
  next
    case 3
    then obtain q where l: "l = q @ [slash, star, star]" and q: "dropEnd 3 l = q"
      by (auto simp: recursive_units numeral_3_eq_3 elim!: endsWithE)
    with 3 obtain t where r: "r = q @ slash # t"
      by (auto simp: recursive_units elim!: startsWithE)
    have "\<exists>t'. glob (q @ slash # t') x"
    proof (cases "glob r x")
      case True
      with r show ?thesis by blast
    next
      case False
      with assms(2) have e: "endsWith r (js '' *'')" and g: "glob (dropEnd 2 r) x"
        by (auto simp: matchesResource_iff)
      from e obtain r0 where "r = r0 @ [cu CHR '' '', star]" "dropEnd 2 r = r0"
        by (auto simp: recursive_units numeral_2_eq_2 elim!: endsWithE)
      with r g show ?thesis using space_star_below_prefix[of q t r0] by auto
    qed
    then have "glob l x" using glob_under_prefix[of "q @ [slash]" _ x] l by auto
    with budget show ?thesis by (simp add: matchesResource_iff)
  qed
qed

lemma subsumes_matches:
  assumes "subsumes l r" "matches r c" "valid_pattern l" "valid_capability c"
  shows "matches l c"
  using assms actionSubsumes_sound resourceSubsumes_sound
  by (auto simp: subsumes_def matches_def valid_pattern_def valid_capability_def)

section \<open>Rendering and parsing round trips\<close>

lemma action_literals_all: "a \<in> set action_literals"
  by (cases a) (simp_all add: action_literals_def)

lemma isAction_text [simp]: "isAction (action_text a) = Some a"
  unfolding isAction_def by (rule find_key) (simp_all add: action_literals_all)

lemma isAction_Some: "isAction v = Some a \<longleftrightarrow> v = action_text a"
  using isAction_text[of a] by (auto simp: isAction_def find_Some_iff)

lemma isPatternAction_text [simp]: "isPatternAction (pattern_action_text p) = Some p"
  unfolding isPatternAction_def
  by (rule find_key, cases p) (simp_all add: pattern_action_literals_def action_literals_all)

lemma isPatternAction_Some: "isPatternAction v = Some p \<longleftrightarrow> v = pattern_action_text p"
  using isPatternAction_text[of p] by (auto simp: isPatternAction_def find_Some_iff)

lemma isPatternAction_action [simp]: "isPatternAction (action_text a) = Some (Exactly a)"
  by (simp add: isPatternAction_Some)

lemma colon_units: "js '':'' = [colon]" "js ''*'' = [star]" "star \<noteq> colon"
  by (simp_all add: js_lits colon_def star_def)

lemma action_parts:
  "colon \<in> set (action_text a)"
  "colon \<notin> set (tl (dropWhile (\<lambda>u. u \<noteq> colon) (action_text a)))"
  "takeWhile (\<lambda>u. u \<noteq> colon) (action_text a) \<noteq> js ''*''"
  by (cases a; simp add: action_literal_units colon_def cu_def)+

lemma pattern_action_parts:
  assumes "p \<noteq> AnyAction"
  shows "\<exists>n m. pattern_action_text p = n @ colon # m \<and> colon \<notin> set n \<and> colon \<notin> set m \<and> n \<noteq> js ''*''"
proof -
  let ?t = "pattern_action_text p"
  have parts: "colon \<in> set ?t" "colon \<notin> set (tl (dropWhile (\<lambda>u. u \<noteq> colon) ?t))"
    "takeWhile (\<lambda>u. u \<noteq> colon) ?t \<noteq> js ''*''"
    using assms by (cases p; simp add: action_parts; simp add: action_literal_units colon_def cu_def)+
  moreover have "colon \<notin> set (takeWhile (\<lambda>u. u \<noteq> colon) ?t)" by (auto dest: set_takeWhileD)
  ultimately show ?thesis using split_at_first[OF parts(1)] by blast
qed

lemma split_formatted:
  assumes "p \<noteq> AnyAction"
  shows "\<exists>n m. js_split colon (pattern_action_text p @ colon # r) = n # m # js_split colon r \<and>
    pattern_action_text p = n @ colon # m \<and> n \<noteq> js ''*''"
  using pattern_action_parts[OF assms] by (auto simp: js_split_append_sep js_split_single)

lemma parse_format_capability:
  assumes "valid_capability c"
  shows "Option.bind (format_capability c) parse = Some c"
proof -
  obtain n m where s: "js_split colon (action_text (cap_action c) @ colon # cap_resource c)
      = n # m # js_split colon (cap_resource c)" "action_text (cap_action c) = n @ colon # m"
    using split_formatted[of "Exactly (cap_action c)" "cap_resource c"] by fastforce
  have "format_capability c = Some (action_text (cap_action c) @ colon # cap_resource c)"
    by (simp add: format_def colon_units)
  moreover have "isAction (n @ colon # m) = Some (cap_action c)"
    using s(2) isAction_text[of "cap_action c"] by simp
  ultimately show ?thesis
    using assms s(1) unfolding valid_capability_def
    by (simp add: parse_def Let_def make_capability_def valid_capability_def colon_units Suc_le_eq)
qed

lemma parsePattern_format_pattern:
  assumes "valid_pattern p"
  shows "Option.bind (format_pattern p) parsePattern = Some p"
proof (cases "pat_action p = AnyAction")
  case True
  have "js_split colon (star # colon # pat_resource p) = js ''*'' # js_split colon (pat_resource p)"
    using colon_units by simp
  with True assms show ?thesis
    by (simp add: format_def parsePattern_def colon_units make_pattern_def valid_pattern_def Let_def Suc_le_eq
             isPatternAction_text[of AnyAction, simplified colon_units pattern_action_text.simps])
next
  case False
  then obtain n m where s: "js_split colon (pattern_action_text (pat_action p) @ colon # pat_resource p)
      = n # m # js_split colon (pat_resource p)" "pattern_action_text (pat_action p) = n @ colon # m"
    "n \<noteq> js ''*''"
    using split_formatted[of "pat_action p" "pat_resource p"] by blast
  have "format_pattern p = Some (pattern_action_text (pat_action p) @ colon # pat_resource p)"
    by (simp add: format_def colon_units)
  moreover have "isPatternAction (n @ colon # m) = Some (pat_action p)"
    using s(2) isPatternAction_text[of "pat_action p"] by simp
  ultimately show ?thesis
    using assms s(1,3) unfolding valid_pattern_def
    by (simp add: parsePattern_def Let_def make_pattern_def valid_pattern_def colon_units Suc_le_eq)
qed

lemma split_three:
  assumes "\<not> length (js_split c s) < 3"
  shows "s = js_split c s ! 0 @ c # js_split c s ! 1 @ c # js_join [c] (drop 2 (js_split c s))"
proof -
  obtain a b d ds where "js_split c s = a # b # d # ds"
    using assms by (cases "js_split c s"; cases "tl (js_split c s)"; cases "tl (tl (js_split c s))") auto
  with js_join_split[of c s] show ?thesis by (simp add: numeral_2_eq_2)
qed

lemma parse_Some_format: "parse s = Some c \<Longrightarrow> format_capability c = Some s \<and> valid_capability c"
  using split_three[of colon s]
  by (auto simp: parse_def Let_def make_capability_def valid_capability_def format_def colon_units
        isAction_Some split: if_splits option.splits)
     (metis append.assoc append_Cons)

section \<open>Derived patterns are exact\<close>

lemma glob_no_wildcard: "star \<notin> set p \<Longrightarrow> question \<notin> set p \<Longrightarrow> glob p r \<longleftrightarrow> p = r"
proof (induction p arbitrary: r)
  case Nil
  then show ?case by auto
next
  case (Cons c p)
  then show ?case by (cases r) auto
qed

lemma endsWith_mem: "endsWith p (q @ [x]) \<Longrightarrow> x \<in> set p"
  by (auto simp: endsWith_def elim: suffixE)

lemma matchesResource_no_wildcard:
  assumes "\<not> hasResourceWildcard p" "length p \<le> maxResourceLength" "length r \<le> maxResourceLength"
  shows "matchesResource p r \<longleftrightarrow> p = r"
  using assms glob_no_wildcard[of p r] endsWith_mem[of p "[cu CHR '' '']" star] work_within_budget[of p r]
  by (auto simp: matchesResource_iff hasResourceWildcard_def recursive_units)

lemma patternFromCapability_matches:
  assumes "patternFromCapability c = Some p" "valid_capability d"
  shows "matches p d \<longleftrightarrow> d = c"
proof -
  have p: "p = \<lparr>pat_action = Exactly (cap_action c), pat_resource = cap_resource c\<rparr>"
    and w: "\<not> hasResourceWildcard (cap_resource c)" "length (cap_resource c) \<le> maxResourceLength"
    using assms(1)
    by (auto simp: patternFromCapability_def make_pattern_def hasResourceWildcard_def Let_def split: if_splits)
  have "matches p d \<longleftrightarrow> cap_action c = cap_action d \<and> cap_resource c = cap_resource d"
    using matchesResource_no_wildcard[OF w, of "cap_resource d"] assms(2) p
    by (auto simp: matches_def matchesAction_exact valid_capability_def)
  then show ?thesis by auto
qed

section \<open>Lexical paths\<close>

definition dot :: ustring where "dot = js ''.''"
definition dotdot :: ustring where "dotdot = js ''..''"

lemma path_units: "js ''/'' = [slash]" "js ''../'' = dotdot @ [slash]"
  "slash \<notin> set dot" "slash \<notin> set dotdot" "dot \<noteq> dotdot" "dot \<noteq> []" "dotdot \<noteq> []" "[slash] \<noteq> dot"
  by (simp_all add: js_lits slash_def dot_def dotdot_def)

definition proper :: "ustring \<Rightarrow> bool" where
  "proper s = (s \<noteq> [] \<and> s \<noteq> dot \<and> s \<noteq> dotdot \<and> slash \<notin> set s)"

text \<open>Normal segment lists: parent references only at the front, and only in relative paths.\<close>

definition normal_segments :: "bool \<Rightarrow> ustring list \<Rightarrow> bool" where
  "normal_segments absolute xs =
     (\<exists>n ys. xs = replicate n dotdot @ ys \<and> (\<forall>y \<in> set ys. proper y) \<and> (absolute \<longrightarrow> n = 0))"

lemma normal_absolute: "normal_segments True xs \<longleftrightarrow> (\<forall>x \<in> set xs. proper x)"
  by (auto simp: normal_segments_def)

lemma normal_snoc_proper:
  assumes "normal_segments a xs" "proper s"
  shows "normal_segments a (xs @ [s])"
proof -
  obtain n ys where "xs = replicate n dotdot @ ys" "\<forall>y \<in> set ys. proper y" "a \<longrightarrow> n = 0"
    using assms(1) by (auto simp: normal_segments_def)
  with assms(2) show ?thesis
    unfolding normal_segments_def by (intro exI[of _ n] exI[of _ "ys @ [s]"]) auto
qed

lemma normal_snoc_dotdot:
  assumes "normal_segments False xs" "xs = [] \<or> last xs = dotdot"
  shows "normal_segments False (xs @ [dotdot])"
proof -
  obtain n ys where xs: "xs = replicate n dotdot @ ys" "\<forall>y \<in> set ys. proper y"
    using assms(1) by (auto simp: normal_segments_def)
  have "ys = []"
    using assms(2) xs by (cases ys rule: rev_cases) (auto simp: proper_def)
  with xs have "xs @ [dotdot] = replicate (Suc n) dotdot @ []"
    by (simp add: replicate_append_same)
  then show ?thesis unfolding normal_segments_def by (metis empty_iff list.set(1))
qed

lemma normal_butlast:
  assumes "normal_segments a xs" "xs \<noteq> []" "last xs \<noteq> dotdot"
  shows "normal_segments a (butlast xs)"
proof -
  obtain n ys where xs: "xs = replicate n dotdot @ ys" "\<forall>y \<in> set ys. proper y" "a \<longrightarrow> n = 0"
    using assms(1) by (auto simp: normal_segments_def)
  have "ys \<noteq> []" using assms(2,3) xs by auto
  then have "butlast xs = replicate n dotdot @ butlast ys" using xs by (simp add: butlast_append)
  moreover have "\<forall>y \<in> set (butlast ys). proper y" using xs by (auto dest: in_set_butlastD)
  ultimately show ?thesis using xs(3) by (auto simp: normal_segments_def)
qed

lemma lexicalSegments_normal:
  "normal_segments a acc \<Longrightarrow> (\<forall>s \<in> set segs. slash \<notin> set s) \<Longrightarrow>
   normal_segments a (lexicalSegments a acc segs)"
proof (induction a acc segs rule: lexicalSegments.induct)
  case (1 a acc)
  then show ?case by simp
next
  case (2 a acc s rest)
  consider "s = [] \<or> s = dot" | "s = dotdot" "acc \<noteq> []" "last acc \<noteq> dotdot"
    | "s = dotdot" "acc = [] \<or> last acc = dotdot" "a"
    | "s = dotdot" "acc = [] \<or> last acc = dotdot" "\<not> a" | "proper s"
    using 2 by (auto simp: proper_def)
  then show ?case
    using 2 path_units
    by cases (auto simp: dot_def[symmetric] dotdot_def[symmetric] proper_def
        intro: normal_butlast normal_snoc_dotdot normal_snoc_proper[unfolded proper_def])
qed

lemma lexicalSegments_proper:
  "\<forall>s \<in> set segs. proper s \<Longrightarrow> lexicalSegments a acc segs = acc @ segs"
  by (induction a acc segs rule: lexicalSegments.induct)
     (auto simp: proper_def dot_def[symmetric] dotdot_def[symmetric])

lemma lexicalSegments_dotdots:
  "set acc \<subseteq> {dotdot} \<Longrightarrow>
   lexicalSegments False acc (replicate n dotdot @ ys) = lexicalSegments False (acc @ replicate n dotdot) ys"
proof (induction n arbitrary: acc)
  case 0
  then show ?case by simp
next
  case (Suc n)
  have "acc = [] \<or> last acc = dotdot" using Suc.prems by (metis last_in_set singletonD subsetD)
  with Suc path_units show ?case
    by (auto simp: dot_def[symmetric] dotdot_def[symmetric])
qed

lemma lexicalSegments_idem:
  assumes "normal_segments a xs"
  shows "lexicalSegments a [] xs = xs"
proof -
  obtain n ys where "xs = replicate n dotdot @ ys" "\<forall>y \<in> set ys. proper y" "a \<longrightarrow> n = 0"
    using assms by (auto simp: normal_segments_def)
  then show ?thesis
    by (cases a) (auto simp: lexicalSegments_dotdots lexicalSegments_proper)
qed

lemma normal_clean:
  assumes "normal_segments a xs" "x \<in> set xs"
  shows "x \<noteq> [] \<and> slash \<notin> set x"
proof -
  obtain n ys where xs: "xs = replicate n dotdot @ ys" "\<forall>y \<in> set ys. proper y"
    using assms(1) by (auto simp: normal_segments_def)
  then have "x = dotdot \<or> proper x" using assms(2) by (auto simp: in_set_replicate)
  then show ?thesis using path_units(4,7) unfolding proper_def by metis
qed

lemma join_Nil_iff: "normal_segments a xs \<Longrightarrow> js_join [slash] xs = [] \<longleftrightarrow> xs = []"
  using normal_clean[of a xs] by (cases xs) (auto simp: js_join_Cons)

lemma split_join_normal: "normal_segments a xs \<Longrightarrow> xs \<noteq> [] \<Longrightarrow> js_split slash (js_join [slash] xs) = xs"
  by (rule js_split_join) (auto dest: normal_clean)

lemma lexicalSegments_append:
  "lexicalSegments a acc (xs @ ys) = lexicalSegments a (lexicalSegments a acc xs) ys"
  by (induction a acc xs rule: lexicalSegments.induct) auto

lemma lexicalSegments_rejoin:
  assumes "normal_segments a xs"
  shows "lexicalSegments a [] (js_split slash (js_join [slash] xs)) = xs"
  using assms split_join_normal[OF assms] lexicalSegments_idem[OF assms] by (cases "xs = []") auto

lemma join_not_absolute: "normal_segments a xs \<Longrightarrow> \<not> startsWith (js_join [slash] xs) [slash]"
proof (cases xs)
  case Nil
  then show ?thesis by (simp add: startsWith_single)
next
  case (Cons y ys)
  moreover assume "normal_segments a xs"
  ultimately have "y \<noteq> [] \<and> slash \<notin> set y" using normal_clean by fastforce
  then obtain c z where "y = c # z" "c \<noteq> slash" by (cases y) auto
  with Cons show ?thesis by (auto simp: js_join_Cons startsWith_single)
qed

lemma normal_of_split: "normal_segments a (lexicalSegments a [] (js_split slash t))"
  by (rule lexicalSegments_normal) (auto simp: normal_segments_def dest: js_split_no_sep)

lemma lexicalPath_absolute:
  "lexicalPath (slash # t) = slash # js_join [slash] (lexicalSegments True [] (js_split slash t))"
  by (simp add: lexicalPath_def path_units startsWith_def)

lemma lexicalPath_relative:
  "\<not> startsWith p [slash] \<Longrightarrow> lexicalPath p =
     (let xs = lexicalSegments False [] (js_split slash p)
      in if xs = [] then dot else js_join [slash] xs)"
  using join_Nil_iff[OF normal_of_split[of False p]]
  by (simp add: lexicalPath_def path_units dot_def Let_def)

lemma lexicalPath_dot: "lexicalPath dot = dot"
proof -
  have "\<not> startsWith dot [slash]" using path_units(3) unfolding startsWith_single by (metis list.set_intros(1))
  moreover have "js_split slash dot = [dot]" using path_units(3) by (rule js_split_single)
  ultimately show ?thesis by (simp add: lexicalPath_relative dot_def)
qed

lemma lexicalPath_idempotent: "lexicalPath (lexicalPath p) = lexicalPath p"
proof (cases "startsWith p [slash]")
  case True
  then obtain t where "p = slash # t" by (auto elim: startsWithE)
  then show ?thesis by (simp add: lexicalPath_absolute lexicalSegments_rejoin normal_of_split)
next
  case False
  let ?xs = "lexicalSegments False [] (js_split slash p)"
  have n: "normal_segments False ?xs" by (rule normal_of_split)
  have p: "lexicalPath p = (if ?xs = [] then dot else js_join [slash] ?xs)"
    using False by (simp add: lexicalPath_relative Let_def)
  show ?thesis
  proof (cases "?xs = []")
    case True
    with p show ?thesis by (simp add: lexicalPath_dot)
  next
    case False
    with p show ?thesis
      using lexicalPath_relative[OF join_not_absolute[OF n]] lexicalSegments_rejoin[OF n]
      by (simp add: Let_def)
  qed
qed

section \<open>Workspace containment\<close>

definition absSegs :: "ustring \<Rightarrow> ustring list" where
  "absSegs p = lexicalSegments True [] (js_split slash (drop 1 p))"

definition resolvedSegs :: "ustring \<Rightarrow> ustring \<Rightarrow> ustring list" where
  "resolvedSegs resource root =
     (if isAbsolutePath resource then absSegs resource
      else lexicalSegments True (absSegs root) (js_split slash resource))"

lemma join_inj:
  assumes "normal_segments a xs" "normal_segments a ys" "js_join [slash] xs = js_join [slash] ys"
  shows "xs = ys"
  using assms join_Nil_iff split_join_normal by metis

lemma below_prefix:
  assumes "normal_segments a xs" "normal_segments a ys" "xs \<noteq> []"
  shows "startsWith (js_join [slash] ys) (js_join [slash] xs @ [slash]) \<longleftrightarrow> (\<exists>zs. zs \<noteq> [] \<and> ys = xs @ zs)"
proof
  assume "startsWith (js_join [slash] ys) (js_join [slash] xs @ [slash])"
  then obtain t where t: "js_join [slash] ys = js_join [slash] xs @ slash # t" by (auto elim: startsWithE)
  then have "ys \<noteq> []" by auto
  with t have "ys = xs @ js_split slash t"
    using split_join_normal[OF assms(2)] split_join_normal[OF assms(1,3)]
    by (simp add: js_split_append_sep)
  then show "\<exists>zs. zs \<noteq> [] \<and> ys = xs @ zs" by auto
next
  assume "\<exists>zs. zs \<noteq> [] \<and> ys = xs @ zs"
  with assms(3) show "startsWith (js_join [slash] ys) (js_join [slash] xs @ [slash])"
    by (auto simp: join_append startsWith_def)
qed

lemma no_parent_remainder:
  assumes "\<forall>x \<in> set xs. proper x"
  shows "js_join [slash] xs \<noteq> dotdot \<and> \<not> startsWith (js_join [slash] xs) (dotdot @ [slash])"
proof (cases "xs = []")
  case True
  then show ?thesis using path_units by (auto elim: startsWithE)
next
  case False
  have split: "js_split slash (js_join [slash] xs) = xs"
    using False assms by (intro js_split_join) (auto simp: proper_def)
  have "dotdot \<in> set xs" if "js_join [slash] xs = dotdot"
    using that split js_split_single[OF path_units(4)] by (metis list.set_intros(1))
  moreover have "dotdot \<in> set xs" if "startsWith (js_join [slash] xs) (dotdot @ [slash])"
  proof -
    from that obtain u where "js_join [slash] xs = dotdot @ slash # u" by (auto elim: startsWithE)
    with split have "xs = js_split slash dotdot @ js_split slash u" by (simp add: js_split_append_sep)
    then show ?thesis using path_units by (simp add: js_split_single)
  qed
  ultimately show ?thesis using assms by (auto simp: proper_def)
qed

lemma join_endsWith_slash:
  assumes "normal_segments a xs"
  shows "endsWith (slash # js_join [slash] xs) [slash] \<longleftrightarrow> xs = []"
proof (cases xs rule: rev_cases)
  case Nil
  then show ?thesis by (simp add: endsWith_def)
next
  case (snoc ys y)
  then have y: "y \<noteq> []" "slash \<notin> set y" using normal_clean[OF assms, of y] by auto
  have "last (js_join [slash] xs) = last y" "js_join [slash] xs \<noteq> []"
    using snoc y by (cases "ys = []"; simp add: join_append)+
  moreover have "last y \<noteq> slash" using y by (metis last_in_set)
  ultimately show ?thesis
    using snoc by (auto simp: endsWith_def suffix_def) (metis last.simps last_snoc)
qed

lemma isInsideWorkspace_iff:
  assumes "isAbsolutePath w"
  shows "isInsideWorkspace r w \<longleftrightarrow> prefix (absSegs w) (resolvedSegs r w)"
proof -
  obtain t where w: "w = slash # t" using assms by (auto simp: isAbsolutePath_def path_units elim: startsWithE)
  define A where "A = absSegs w"
  define R where "R = resolvedSegs r w"
  have nA: "normal_segments True A" by (simp add: A_def absSegs_def normal_of_split)
  have root: "lexicalPath w = slash # js_join [slash] A"
    by (simp add: w lexicalPath_absolute A_def absSegs_def)
  have nR: "normal_segments True R"
    unfolding R_def resolvedSegs_def A_def[symmetric]
    using nA by (auto simp: absSegs_def normal_of_split
        dest: js_split_no_sep intro: lexicalSegments_normal)
  have resolved: "lexicalPath (if isAbsolutePath r then r else lexicalPath w @ [slash] @ r)
      = slash # js_join [slash] R"
  proof (cases "isAbsolutePath r")
    case True
    then obtain u where "r = slash # u" by (auto simp: isAbsolutePath_def path_units elim: startsWithE)
    with True show ?thesis by (simp add: lexicalPath_absolute R_def resolvedSegs_def absSegs_def)
  next
    case False
    have "js_split slash (js_join [slash] A @ slash # r)
        = js_split slash (js_join [slash] A) @ js_split slash r" by (rule js_split_append_sep)
    with False show ?thesis
      using lexicalSegments_rejoin[OF nA]
      by (simp add: root lexicalPath_absolute lexicalSegments_append R_def resolvedSegs_def flip: A_def)
  qed
  have "slash # js_join [slash] A \<noteq> dot" using path_units(3) by (metis list.set_intros(1))
  then have inside: "isInsideWorkspace r w \<longleftrightarrow>
      (js_join [slash] R = js_join [slash] A \<or>
       (let pre = (if A = [] then [slash] else slash # js_join [slash] A @ [slash])
        in startsWith (slash # js_join [slash] R) pre
           \<and> drop (length pre) (slash # js_join [slash] R) \<noteq> dotdot
           \<and> \<not> startsWith (drop (length pre) (slash # js_join [slash] R)) (dotdot @ [slash])))"
    unfolding isInsideWorkspace_def Let_def path_units resolved
    using join_endsWith_slash[OF nA] root
    by (auto simp: dot_def[symmetric] dotdot_def[symmetric])
  show ?thesis
  proof (cases "A = []")
    case True
    with inside no_parent_remainder[of R] nR show ?thesis
      by (auto simp: normal_absolute A_def[symmetric] startsWith_def)
  next
    case False
    have "isInsideWorkspace r w \<longleftrightarrow> R = A \<or> (\<exists>zs. zs \<noteq> [] \<and> R = A @ zs)"
    proof (cases "\<exists>zs. zs \<noteq> [] \<and> R = A @ zs")
      case True
      then obtain zs where zs: "zs \<noteq> []" "R = A @ zs" by blast
      moreover have "\<forall>x \<in> set zs. proper x" using nR zs by (auto simp: normal_absolute)
      ultimately show ?thesis
        using inside False no_parent_remainder[of zs]
        by (simp add: join_append startsWith_def Let_def)
    next
      case no: False
      have "\<not> startsWith (slash # js_join [slash] R) (slash # js_join [slash] A @ [slash])"
        using below_prefix[OF nA nR False] no by (auto simp: startsWith_def)
      with inside False no show ?thesis using join_inj[OF nR nA] by (auto simp: Let_def)
    qed
    then show ?thesis by (auto simp: A_def[symmetric] R_def[symmetric] prefix_def)
  qed
qed

end
