(* ===== verification/Text.thy ===== *)
theory Text
  imports Prelude
begin

text \<open>
  Text handling that several components share: UTF-16 well-formedness (the same loop occurs in
  \<open>crypto/src/Sha256.ts\<close>, \<open>kernel/src/GrantStore.ts\<close> and, throwing instead of returning
  false, in \<open>canonical/src/internal/canonicalize.ts\<close>), the code points of a string as
  \<open>for (const unit of value)\<close> enumerates them, \<open>TextEncoder.encode\<close>, and the quoting of a
  string by \<open>JSON.stringify\<close>.  Encoding is proved injective on well-formed text.
\<close>

unbundle bit_operations_syntax

section \<open>UTF-16\<close>

definition isHigh :: "code_unit \<Rightarrow> bool" where
  "isHigh u = (0xd800 \<le> u \<and> u \<le> 0xdbff)"

definition isLow :: "code_unit \<Rightarrow> bool" where
  "isLow u = (0xdc00 \<le> u \<and> u \<le> 0xdfff)"

fun isWellFormed :: "ustring \<Rightarrow> bool" where
  "isWellFormed [] = True"
| "isWellFormed (code # rest) =
     (if isHigh code then
        (case rest of
           [] \<Rightarrow> False
         | nxt # rest' \<Rightarrow> if \<not> isLow nxt then False else isWellFormed rest')
      else if isLow code then False
      else isWellFormed rest)"

text \<open>
  The string iterator: a surrogate pair is one chunk of two units, every other unit, a lone
  surrogate included, is a chunk of its own.
\<close>

fun chunks :: "ustring \<Rightarrow> ustring list" where
  "chunks [] = []"
| "chunks (u # v # rest) =
     (if isHigh u \<and> isLow v then [u, v] # chunks rest else [u] # chunks (v # rest))"
| "chunks [u] = [[u]]"

lemma concat_chunks [simp]: "concat (chunks s) = s"
  by (induction s rule: chunks.induct) auto

lemma chunks_nonempty: "c \<in> set (chunks s) \<Longrightarrow> 1 \<le> length c \<and> length c \<le> 2"
  by (induction s rule: chunks.induct) (auto split: if_splits)

text \<open>The code point of a chunk.\<close>

fun codePoint :: "ustring \<Rightarrow> nat" where
  "codePoint [u] = unat u"
| "codePoint [u, v] = 0x10000 + (unat u - 0xd800) * 0x400 + (unat v - 0xdc00)"
| "codePoint _ = 0"

section \<open>UTF-8\<close>

type_synonym byte = "8 word"

definition isSurrogatePoint :: "nat \<Rightarrow> bool" where
  "isSurrogatePoint p = (0xd800 \<le> p \<and> p \<le> 0xdfff)"

definition utf8Point :: "nat \<Rightarrow> byte list" where
  "utf8Point p =
     (if p < 0x80 then [of_nat p]
      else if p < 0x800 then [of_nat (0xc0 + p div 0x40), of_nat (0x80 + p mod 0x40)]
      else if p < 0x10000 then
        [of_nat (0xe0 + p div 0x1000), of_nat (0x80 + p div 0x40 mod 0x40), of_nat (0x80 + p mod 0x40)]
      else
        [of_nat (0xf0 + p div 0x40000), of_nat (0x80 + p div 0x1000 mod 0x40),
         of_nat (0x80 + p div 0x40 mod 0x40), of_nat (0x80 + p mod 0x40)])"

text \<open>\<open>TextEncoder.encode\<close>; a lone surrogate becomes U+FFFD.\<close>

definition utf8 :: "ustring \<Rightarrow> byte list" where
  "utf8 s = concat (map (\<lambda>c. utf8Point (let p = codePoint c in if isSurrogatePoint p then 0xfffd else p)) (chunks s))"

section \<open>JSON strings\<close>

definition hexDigit :: "nat \<Rightarrow> code_unit" where
  "hexDigit n = js ''0123456789abcdef'' ! n"

definition unicodeEscape :: "code_unit \<Rightarrow> ustring" where
  "unicodeEscape u =
     (let n = unat u in
      js [CHR 0x5c, CHR ''u''] @
      [hexDigit (n div 0x1000), hexDigit (n div 0x100 mod 0x10), hexDigit (n div 0x10 mod 0x10), hexDigit (n mod 0x10)])"

definition quoteUnit :: "code_unit \<Rightarrow> ustring" where
  "quoteUnit u =
     (if u = 0x22 then [0x5c, 0x22]
      else if u = 0x5c then [0x5c, 0x5c]
      else if u = 0x08 then js [CHR 0x5c, CHR ''b'']
      else if u = 0x0c then js [CHR 0x5c, CHR ''f'']
      else if u = 0x0a then js [CHR 0x5c, CHR ''n'']
      else if u = 0x0d then js [CHR 0x5c, CHR ''r'']
      else if u = 0x09 then js [CHR 0x5c, CHR ''t'']
      else if u < 0x20 then unicodeEscape u
      else [u])"

definition quoteChunk :: "ustring \<Rightarrow> ustring" where
  "quoteChunk c = (case c of [u] \<Rightarrow> if isHigh u \<or> isLow u then unicodeEscape u else quoteUnit u | _ \<Rightarrow> c)"

definition quoteJson :: "ustring \<Rightarrow> ustring" where
  "quoteJson s = [0x22] @ concat (map quoteChunk (chunks s)) @ [0x22]"

section \<open>Well-formed text\<close>

lemma isHigh_isLow: "isHigh u \<Longrightarrow> \<not> isLow u"
  by (auto simp: isHigh_def isLow_def word_le_nat_alt)

lemma wellFormed_chunks:
  "isWellFormed s \<longleftrightarrow> (\<forall>c \<in> set (chunks s). \<not> isSurrogatePoint (codePoint c))"
proof (induction s rule: chunks.induct)
  case 1
  then show ?case by simp
next
  case (2 u v rest)
  have surr: "isSurrogatePoint (unat u) \<longleftrightarrow> isHigh u \<or> isLow u" for u :: code_unit
    by (auto simp: isSurrogatePoint_def isHigh_def isLow_def word_le_nat_alt)
  show ?case
  proof (cases "isHigh u \<and> isLow v")
    case True
    then have "\<not> isSurrogatePoint (codePoint [u, v])" by (simp add: isSurrogatePoint_def)
    with True 2 show ?thesis by simp
  next
    case False
    with 2 show ?thesis by (auto simp: surr isHigh_isLow)
  qed
next
  case (3 u)
  have "isSurrogatePoint (unat u) \<longleftrightarrow> isHigh u \<or> isLow u"
    by (auto simp: isSurrogatePoint_def isHigh_def isLow_def word_le_nat_alt)
  then show ?case by simp
qed

section \<open>UTF-8 is injective on well-formed text\<close>

definition utf8Nat :: "nat \<Rightarrow> nat list" where
  "utf8Nat p =
     (if p < 0x80 then [p]
      else if p < 0x800 then [0xc0 + p div 0x40, 0x80 + p mod 0x40]
      else if p < 0x10000 then [0xe0 + p div 0x1000, 0x80 + p div 0x40 mod 0x40, 0x80 + p mod 0x40]
      else [0xf0 + p div 0x40000, 0x80 + p div 0x1000 mod 0x40, 0x80 + p div 0x40 mod 0x40, 0x80 + p mod 0x40])"

lemma utf8Point_Nat: "utf8Point p = map of_nat (utf8Nat p)"
  by (simp add: utf8Point_def utf8Nat_def)

lemma utf8Nat_byte: "p < 0x110000 \<Longrightarrow> b \<in> set (utf8Nat p) \<Longrightarrow> b < 256"
  by (auto simp: utf8Nat_def split: if_splits)

lemma recompose2: "(p::nat) div 64 = q div 64 \<Longrightarrow> p mod 64 = q mod 64 \<Longrightarrow> p = q"
  by (metis div_mult_mod_eq)

lemma recompose3:
  "(p::nat) div 4096 = q div 4096 \<Longrightarrow> p div 64 mod 64 = q div 64 mod 64 \<Longrightarrow> p mod 64 = q mod 64 \<Longrightarrow> p = q"
  using recompose2[of "p div 64" "q div 64"] recompose2[of p q] by (simp add: div_mult2_eq[symmetric])

lemma recompose4:
  "(p::nat) div 262144 = q div 262144 \<Longrightarrow> p div 4096 mod 64 = q div 4096 mod 64 \<Longrightarrow>
   p div 64 mod 64 = q div 64 mod 64 \<Longrightarrow> p mod 64 = q mod 64 \<Longrightarrow> p = q"
  using recompose2[of "p div 4096" "q div 4096"] recompose3[of p q] by (simp add: div_mult2_eq[symmetric])

lemma utf8Nat_prefix_code:
  assumes "utf8Nat p @ xs = utf8Nat q @ ys" "p < 0x110000" "q < 0x110000"
  shows "p = q \<and> xs = ys"
  using assms
  by (auto simp: utf8Nat_def split: if_splits intro: recompose2 recompose3 recompose4)

lemma utf8Point_prefix_code:
  assumes "utf8Point p @ xs = utf8Point q @ ys" "p < 0x110000" "q < 0x110000"
  shows "p = q \<and> xs = ys"
proof -
  have unats: "map unat (utf8Point p) = utf8Nat p" if "p < 0x110000" for p
    unfolding utf8Point_Nat using utf8Nat_byte[OF that] by (auto simp: unat_of_nat intro!: map_idI)
  have "map unat (utf8Point p @ xs) = map unat (utf8Point q @ ys)" using assms(1) by simp
  then have "utf8Nat p @ map unat xs = utf8Nat q @ map unat ys"
    using unats[OF assms(2)] unats[OF assms(3)] by simp
  then have "p = q \<and> map unat xs = map unat ys" using assms(2,3) by (rule utf8Nat_prefix_code)
  then show ?thesis by (metis assms(1) same_append_eq)
qed

lemma utf8Point_nonempty: "utf8Point p \<noteq> []"
  by (simp add: utf8Point_def)

lemma utf8_points_inject:
  "concat (map utf8Point ps) = concat (map utf8Point qs) \<Longrightarrow>
   (\<forall>p \<in> set ps. p < 0x110000) \<Longrightarrow> (\<forall>q \<in> set qs. q < 0x110000) \<Longrightarrow> ps = qs"
proof (induction ps arbitrary: qs)
  case Nil
  then show ?case using utf8Point_nonempty by (cases qs) auto
next
  case (Cons p ps)
  then obtain q qs' where qs: "qs = q # qs'" using utf8Point_nonempty by (cases qs) auto
  with Cons.prems have "p = q \<and> concat (map utf8Point ps) = concat (map utf8Point qs')"
    by (intro utf8Point_prefix_code) auto
  with Cons qs show ?case by auto
qed

lemma chunk_shapes:
  "c \<in> set (chunks s) \<Longrightarrow> (\<exists>u. c = [u]) \<or> (\<exists>u v. c = [u, v] \<and> isHigh u \<and> isLow v)"
  by (induction s rule: chunks.induct) (auto split: if_splits)

lemma unit_bound: "unat (u :: code_unit) < 0x10000"
  using unsigned_less[of u, where 'a = nat] by simp

lemma base_digits:
  assumes "(x::nat) * 1024 + y = x' * 1024 + y'" "y < 1024" "y' < 1024"
  shows "x = x' \<and> y = y'"
proof -
  have "(x * 1024 + y) div 1024 = x" "(x * 1024 + y) mod 1024 = y" using assms(2) by simp_all
  moreover have "(x' * 1024 + y') div 1024 = x'" "(x' * 1024 + y') mod 1024 = y'" using assms(3) by simp_all
  ultimately show ?thesis using assms(1) by metis
qed

lemma pair_inj:
  assumes "isHigh u" "isLow v" "isHigh u'" "isLow v'" "codePoint [u, v] = codePoint [u', v']"
  shows "u = u' \<and> v = v'"
proof -
  note b = assms(1-4)[unfolded isHigh_def isLow_def word_le_nat_alt, simplified]
  have "(unat u - 0xd800) * 1024 + (unat v - 0xdc00) = (unat u' - 0xd800) * 1024 + (unat v' - 0xdc00)"
    using assms(5) by simp
  then have "unat u - 0xd800 = unat u' - 0xd800 \<and> unat v - 0xdc00 = unat v' - 0xdc00"
    using b by (intro base_digits) auto
  then show ?thesis using b by (auto simp: word_unat_eq_iff eq_diff_iff)
qed

lemma codePoint_bound: "c \<in> set (chunks s) \<Longrightarrow> codePoint c < 0x110000"
proof (drule chunk_shapes, elim disjE exE conjE)
  fix u assume "c = [u]"
  then show ?thesis using unit_bound[of u] by simp
next
  fix u v assume "c = [u, v]" "isHigh u" "isLow v"
  then show ?thesis by (auto simp: isHigh_def isLow_def word_le_nat_alt)
qed

lemma codePoint_inj:
  assumes "c \<in> set (chunks s)" "d \<in> set (chunks t)" "codePoint c = codePoint d"
  shows "c = d"
proof -
  have big: "0x10000 \<le> codePoint [u, v]" for u v by simp
  consider (a) u u' where "c = [u]" "d = [u']"
    | (b) u u' v' where "c = [u]" "d = [u', v']"
    | (c) u v u' where "c = [u, v]" "d = [u']"
    | (d) u v u' v' where "c = [u, v]" "d = [u', v']" "isHigh u" "isLow v" "isHigh u'" "isLow v'"
    using chunk_shapes[OF assms(1)] chunk_shapes[OF assms(2)] by blast
  then show ?thesis
  proof cases
    case a
    with assms(3) show ?thesis by (simp add: word_unat_eq_iff)
  next
    case b
    with assms(3) big[of u' v'] unit_bound[of u] show ?thesis by simp
  next
    case c
    with assms(3) big[of u v] unit_bound[of u'] show ?thesis by simp
  next
    case d
    with pair_inj[OF d(3-6)] assms(3) show ?thesis by simp
  qed
qed

lemma utf8_wellFormed: "isWellFormed s \<Longrightarrow> utf8 s = concat (map utf8Point (map codePoint (chunks s)))"
  by (auto simp: utf8_def Let_def wellFormed_chunks comp_def intro!: arg_cong[of _ _ concat])

lemma utf8_inject:
  assumes "isWellFormed s" "isWellFormed t" "utf8 s = utf8 t"
  shows "s = t"
proof -
  have "map codePoint (chunks s) = map codePoint (chunks t)"
    using assms codePoint_bound by (intro utf8_points_inject) (auto simp: utf8_wellFormed)
  moreover have "inj_on codePoint (set (chunks s) \<union> set (chunks t))"
    by (auto simp: inj_on_def intro: codePoint_inj)
  ultimately have "chunks s = chunks t" by (simp add: inj_on_map_eq_map)
  then show ?thesis by (metis concat_chunks)
qed

section \<open>Quoted JSON text is a well-formed prefix code\<close>

lemma hexDigit_inject: "a < 16 \<Longrightarrow> b < 16 \<Longrightarrow> hexDigit a = hexDigit b \<Longrightarrow> a = b"
proof -
  have d: "distinct (js ''0123456789abcdef'')" by (simp add: js_lits)
  show "a < 16 \<Longrightarrow> b < 16 \<Longrightarrow> hexDigit a = hexDigit b \<Longrightarrow> a = b"
    unfolding hexDigit_def using nth_eq_iff_index_eq[OF d, of a b] by simp
qed

lemma hexDigit_wf: "a < 16 \<Longrightarrow> hexDigit a \<noteq> 0x22 \<and> \<not> isHigh (hexDigit a) \<and> \<not> isLow (hexDigit a)"
proof -
  have "\<forall>x \<in> set (js ''0123456789abcdef''). x \<noteq> 0x22 \<and> \<not> isHigh x \<and> \<not> isLow x"
    by (simp add: js_lits isHigh_def isLow_def)
  then show "a < 16 \<Longrightarrow> hexDigit a \<noteq> 0x22 \<and> \<not> isHigh (hexDigit a) \<and> \<not> isLow (hexDigit a)"
    unfolding hexDigit_def by simp
qed

lemma hex_digits: "(n::nat) = ((n div 0x1000 * 16 + n div 0x100 mod 0x10) * 16 + n div 0x10 mod 0x10) * 16 + n mod 0x10"
proof -
  have "n div 0x100 = n div 0x1000 * 16 + n div 0x100 mod 0x10"
    using div_mult_mod_eq[of "n div 0x100" 16] by (simp add: div_mult2_eq[symmetric])
  moreover have "n div 0x10 = n div 0x100 * 16 + n div 0x10 mod 0x10"
    using div_mult_mod_eq[of "n div 0x10" 16] by (simp add: div_mult2_eq[symmetric])
  ultimately show ?thesis using div_mult_mod_eq[of n 16] by simp
qed

definition nibbles :: "code_unit \<Rightarrow> nat list" where
  "nibbles u = (let n = unat u in [n div 0x1000, n div 0x100 mod 0x10, n div 0x10 mod 0x10, n mod 0x10])"

lemma unicodeEscape_nibbles: "unicodeEscape u = [0x5c, 0x75] @ map hexDigit (nibbles u)"
  by (simp add: unicodeEscape_def nibbles_def Let_def js_lits)

lemma nibbles_bound: "n \<in> set (nibbles u) \<Longrightarrow> n < 16"
  using unit_bound[of u] by (auto simp: nibbles_def Let_def)

lemma nibbles_inject: "nibbles u = nibbles v \<Longrightarrow> u = v"
proof -
  assume "nibbles u = nibbles v"
  then have "unat u div 0x1000 = unat v div 0x1000" "unat u div 0x100 mod 0x10 = unat v div 0x100 mod 0x10"
    "unat u div 0x10 mod 0x10 = unat v div 0x10 mod 0x10" "unat u mod 0x10 = unat v mod 0x10"
    by (simp_all add: nibbles_def Let_def)
  then have "unat u = unat v"
    using hex_digits[of "unat u"] hex_digits[of "unat v"] by simp
  then show "u = v" by (simp add: word_unat_eq_iff)
qed

lemma length_nibbles [simp]: "length (nibbles u) = 4"
  by (simp add: nibbles_def Let_def)

lemma unicodeEscape_prefix: "unicodeEscape u @ xs = unicodeEscape v @ ys \<Longrightarrow> u = v \<and> xs = ys"
proof -
  assume "unicodeEscape u @ xs = unicodeEscape v @ ys"
  then have "map hexDigit (nibbles u) = map hexDigit (nibbles v)" "xs = ys"
    by (auto simp: unicodeEscape_nibbles append_eq_append_conv)
  moreover have "inj_on hexDigit (set (nibbles u) \<union> set (nibbles v))"
    by (auto simp: inj_on_def dest: nibbles_bound intro: hexDigit_inject)
  ultimately show "u = v \<and> xs = ys" by (metis inj_on_map_eq_map nibbles_inject)
qed

lemma quoteUnit_cases:
  obtains "quoteUnit u = [u]" "u \<noteq> 0x22" "u \<noteq> 0x5c"
  | e where "quoteUnit u = [0x5c, e]" "(u, e) \<in> {(0x22, 0x22), (0x5c, 0x5c), (8, 0x62), (0xc, 0x66), (0xa, 0x6e), (0xd, 0x72), (9, 0x74)}"
  | "quoteUnit u = unicodeEscape u"
proof (cases "u \<in> {0x22, 0x5c, 8, 0xc, 0xa, 0xd, 9}")
  case True
  then show thesis using that(2) by (elim insertE) (auto simp: quoteUnit_def js_lits)
next
  case False
  then have "quoteUnit u = (if u < 0x20 then unicodeEscape u else [u])" by (simp add: quoteUnit_def)
  with False that(1,3) show thesis by (auto split: if_splits)
qed

lemma quoteUnit_prefix:
  assumes "quoteUnit u @ xs = quoteUnit v @ ys"
  shows "u = v \<and> xs = ys"
proof -
  have "quoteUnit u = unicodeEscape u \<Longrightarrow> quoteUnit v = unicodeEscape v \<Longrightarrow> ?thesis"
    using assms unicodeEscape_prefix by simp
  then show ?thesis
    using assms
    by (cases u rule: quoteUnit_cases; cases v rule: quoteUnit_cases)
       (auto simp: unicodeEscape_nibbles)
qed

lemma quoteUnit_surrogate: "isHigh u \<or> isLow u \<Longrightarrow> quoteUnit u = [u]"
  by (auto simp: quoteUnit_def isHigh_def isLow_def word_le_nat_alt word_less_nat_alt)

definition chunk_ok :: "ustring \<Rightarrow> bool" where
  "chunk_ok c = ((\<exists>u. c = [u]) \<or> (\<exists>u v. c = [u, v] \<and> isHigh u \<and> isLow v))"

lemma quoteUnit_head:
  obtains t where "quoteUnit u = 0x5c # t" | "quoteUnit u = [u]"
  by (cases u rule: quoteUnit_cases) (auto simp: unicodeEscape_nibbles)

lemma quoteChunk_prefix:
  assumes "quoteChunk c @ xs = quoteChunk d @ ys" "chunk_ok c" "chunk_ok d"
  shows "c = d \<and> xs = ys"
proof -
  have esc: "\<not> isHigh 0x5c" by (simp add: isHigh_def)
  have single: "\<exists>h t. quoteChunk [u] = h # t \<and> \<not> isHigh h" for u
    using esc by (cases u rule: quoteUnit_head) (auto simp: quoteChunk_def unicodeEscape_nibbles)
  have units: "quoteChunk [u] @ xs = quoteChunk [v] @ ys \<Longrightarrow> u = v \<and> xs = ys" for u v
  proof (cases "isHigh u \<or> isLow u"; cases "isHigh v \<or> isLow v")
    assume "quoteChunk [u] @ xs = quoteChunk [v] @ ys" "isHigh u \<or> isLow u" "isHigh v \<or> isLow v"
    then show ?thesis using unicodeEscape_prefix[of u xs v ys] by (simp add: quoteChunk_def)
  next
    assume e: "quoteChunk [u] @ xs = quoteChunk [v] @ ys" "isHigh u \<or> isLow u" "\<not> (isHigh v \<or> isLow v)"
    then have "unicodeEscape u @ xs = quoteUnit v @ ys" by (simp add: quoteChunk_def)
    then show ?thesis using e unicodeEscape_prefix[of u xs v ys]
      by (cases v rule: quoteUnit_cases) (auto simp: unicodeEscape_nibbles)
  next
    assume e: "quoteChunk [u] @ xs = quoteChunk [v] @ ys" "\<not> (isHigh u \<or> isLow u)" "isHigh v \<or> isLow v"
    then have "quoteUnit u @ xs = unicodeEscape v @ ys" by (simp add: quoteChunk_def)
    then show ?thesis using e unicodeEscape_prefix[of u xs v ys]
      by (cases u rule: quoteUnit_cases) (auto simp: unicodeEscape_nibbles)
  next
    assume "quoteChunk [u] @ xs = quoteChunk [v] @ ys" "\<not> (isHigh u \<or> isLow u)" "\<not> (isHigh v \<or> isLow v)"
    then show ?thesis using quoteUnit_prefix[of u xs v ys] by (simp add: quoteChunk_def)
  qed
  have "quoteChunk [u, v] = [u, v]" for u v by (simp add: quoteChunk_def)
  note pair = this
  consider (a) u u' where "c = [u]" "d = [u']"
    | (b) u u' v' where "c = [u]" "d = [u', v']" "isHigh u'"
    | (c) u v u' where "c = [u, v]" "d = [u']" "isHigh u"
    | (d) u v u' v' where "c = [u, v]" "d = [u', v']"
    using assms(2,3) unfolding chunk_ok_def by blast
  then show ?thesis
  proof cases
    case a
    with assms(1) units show ?thesis by simp
  next
    case b
    with assms(1) single[of u] show ?thesis by (auto simp: pair)
  next
    case c
    with assms(1) single[of u'] show ?thesis by (auto simp: pair)
  next
    case d
    with assms(1) show ?thesis by (simp add: pair)
  qed
qed

lemma quoteChunk_not_quote: "chunk_ok c \<Longrightarrow> \<exists>h t. quoteChunk c = h # t \<and> h \<noteq> 0x22"
proof -
  have "\<not> isHigh 0x22" by (simp add: isHigh_def)
  moreover have "\<exists>h t. quoteChunk [u] = h # t \<and> h \<noteq> 0x22" for u
    by (cases u rule: quoteUnit_cases) (auto simp: quoteChunk_def unicodeEscape_nibbles)
  ultimately show "chunk_ok c \<Longrightarrow> ?thesis" by (auto simp: chunk_ok_def quoteChunk_def)
qed

lemma quoteChunks_prefix:
  "concat (map quoteChunk cs) @ 0x22 # xs = concat (map quoteChunk ds) @ 0x22 # ys \<Longrightarrow>
   \<forall>c \<in> set cs. chunk_ok c \<Longrightarrow> \<forall>d \<in> set ds. chunk_ok d \<Longrightarrow> cs = ds \<and> xs = ys"
proof (induction cs arbitrary: ds)
  case Nil
  then show ?case using quoteChunk_not_quote by (cases ds) fastforce+
next
  case (Cons c cs)
  then obtain d ds' where ds: "ds = d # ds'" using quoteChunk_not_quote by (cases ds) fastforce+
  with Cons.prems have "c = d \<and> concat (map quoteChunk cs) @ 0x22 # xs = concat (map quoteChunk ds') @ 0x22 # ys"
    by (intro quoteChunk_prefix) auto
  with Cons ds show ?case by auto
qed

lemma quoteJson_prefix:
  assumes "quoteJson s @ xs = quoteJson t @ ys"
  shows "s = t \<and> xs = ys"
proof -
  have "chunks s = chunks t \<and> xs = ys"
    using assms chunk_shapes[of _ s] chunk_shapes[of _ t]
    by (intro quoteChunks_prefix) (auto simp: quoteJson_def chunk_ok_def)
  then show ?thesis by (metis concat_chunks)
qed

text \<open>Quoted text has no lone surrogate, whatever the quoted string holds.\<close>

lemma wellFormed_append: "isWellFormed a \<Longrightarrow> isWellFormed (a @ b) = isWellFormed b"
proof (induction a rule: isWellFormed.induct)
  case (2 code rest)
  show ?case
  proof (cases "isHigh code")
    case True
    with 2 show ?thesis by (cases rest) (auto split: if_splits)
  next
    case False
    with 2 show ?thesis by (auto split: if_splits)
  qed
qed simp

lemma wellFormed_plain: "(\<And>u. u \<in> set a \<Longrightarrow> \<not> isHigh u \<and> \<not> isLow u) \<Longrightarrow> isWellFormed a"
  by (induction a) auto

lemma wellFormed_quoteChunk: "chunk_ok c \<Longrightarrow> isWellFormed (quoteChunk c)"
proof -
  have e: "isWellFormed (unicodeEscape u)" for u
    by (rule wellFormed_plain)
      (auto simp: unicodeEscape_nibbles isHigh_def isLow_def
        dest!: nibbles_bound hexDigit_wf[unfolded isHigh_def isLow_def])
  have q: "isWellFormed (quoteUnit u)" if "\<not> isHigh u" "\<not> isLow u" for u
    using that e by (cases u rule: quoteUnit_cases) (auto simp: isHigh_def isLow_def)
  show "chunk_ok c \<Longrightarrow> ?thesis" using e q isHigh_isLow by (auto simp: chunk_ok_def quoteChunk_def)
qed

lemma quoteJson_wellFormed: "isWellFormed (quoteJson s)"
proof -
  have "isWellFormed (concat (map quoteChunk cs) @ [0x22])" if "\<forall>c \<in> set cs. chunk_ok c" for cs
    using that by (induction cs) (auto simp: wellFormed_append wellFormed_quoteChunk isHigh_def isLow_def)
  then have "isWellFormed (concat (map quoteChunk (chunks s)) @ [0x22])"
    using chunk_shapes by (simp add: chunk_ok_def)
  then show ?thesis using wellFormed_append[of "[0x22]"] by (simp add: quoteJson_def isHigh_def isLow_def)
qed

end
