(* ===== verification/Json.thy ===== *)
theory Json
  imports Text
begin

text \<open>
  JavaScript values on a heap and JSON values.  A heap maps addresses to arrays (with holes) and to
  objects with own property descriptors, so that cycles, shared references, accessors and exotic
  prototypes, which the sources guard against, are representable.  Numbers are IEEE 754 bit
  patterns; \<open>Number::toString\<close> is a parameter of \<open>stringify\<close>.
\<close>

unbundle bit_operations_syntax

type_synonym js_number = "64 word"

definition exponentBits :: "js_number \<Rightarrow> js_number" where
  "exponentBits n = drop_bit 52 n AND 0x7ff"

definition isFiniteNumber :: "js_number \<Rightarrow> bool" where
  "isFiniteNumber n = (exponentBits n \<noteq> 0x7ff)"

definition isNaN :: "js_number \<Rightarrow> bool" where
  "isNaN n = (exponentBits n = 0x7ff \<and> n AND 0xfffffffffffff \<noteq> 0)"

datatype js_value =
    Undefined | Null | Boolean bool | Number js_number | Str ustring
  | Opaque \<comment> \<open>a bigint, a symbol or a function\<close>
  | Ref nat

datatype js_property = Data js_value | Accessor

datatype js_object =
    ArrayObj "js_property option list" \<comment> \<open>\<open>None\<close> is a hole\<close>
  | RecordObj (plain_prototype: bool) (own_properties: "(ustring \<times> bool \<times> js_property) list")
      \<comment> \<open>key, enumerable, descriptor\<close>

type_synonym js_heap = "nat \<Rightarrow> js_object"

datatype json =
    JNull | JBool bool | JNumber js_number | JString ustring
  | JArray "json list" | JObject "(ustring \<times> json) list"

section \<open>Serialisation\<close>

fun stringify :: "(js_number \<Rightarrow> ustring) \<Rightarrow> json \<Rightarrow> ustring" where
  "stringify numText JNull = js ''null''"
| "stringify numText (JBool b) = (if b then js ''true'' else js ''false'')"
| "stringify numText (JNumber n) = (if isFiniteNumber n then numText n else js ''null'')"
| "stringify numText (JString s) = quoteJson s"
| "stringify numText (JArray xs) = js ''['' @ js_join (js '','') (map (stringify numText) xs) @ js '']''"
| "stringify numText (JObject kvs) =
     js ''{'' @ js_join (js '','') (map (\<lambda>(k, v). quoteJson k @ js '':'' @ stringify numText v) kvs) @ js ''}''"

section \<open>Size measures\<close>

fun json_depth :: "json \<Rightarrow> nat" where
  "json_depth (JArray xs) = foldr (\<lambda>x m. max (Suc (json_depth x)) m) xs 0"
| "json_depth (JObject kvs) = foldr (\<lambda>kv m. max (Suc (json_depth (snd kv))) m) kvs 0"
| "json_depth _ = 0"

fun json_members :: "json \<Rightarrow> nat" where
  "json_members (JArray xs) = sum_list (map (\<lambda>x. Suc (json_members x)) xs)"
| "json_members (JObject kvs) = sum_list (map (\<lambda>(k, v). Suc (json_members v)) kvs)"
| "json_members _ = 0"

fun json_clean :: "json \<Rightarrow> bool" where
  "json_clean (JNumber n) = isFiniteNumber n"
| "json_clean (JString s) = isWellFormed s"
| "json_clean (JArray xs) = list_all json_clean xs"
| "json_clean (JObject kvs) = list_all (\<lambda>(k, v). isWellFormed k \<and> json_clean v) kvs"
| "json_clean _ = True"

end
