(* ===== verification/Permission.thy ===== *)
theory Permission
  imports Capability Json
begin

text \<open>
  Permission failures, ordered policy rules and their evaluation, and the bounded rendering of a
  failure (\<open>packages/smithers/flows/capability/src/Permission.ts\<close>).
\<close>

section \<open>Failures\<close>

datatype grant_store_error_code =
  Duplicate_request | Request_not_found | Journal_failed | Store_closed | Invalid_resolution

datatype permission_error =
    PermissionRequired (pr_requestId: ustring) (pr_runId: "ustring option") (pr_capability: capability)
      (pr_tier: effect_tier) (pr_meta: json)
  | PermissionDenied (pd_capability: capability) (pd_reason: ustring)
  | GrantStoreError (store_code: grant_store_error_code) (store_message: "ustring option")

section \<open>Rules\<close>

datatype rule_effect = Allow | Deny | Ask

record rule =
  r_effect :: rule_effect
  r_pattern :: capability_pattern

text \<open>The reduction loop \<open>for (const rule of rules) if (matches(rule.pattern, capability)) effect = rule.effect\<close>.\<close>

fun lastMatch :: "rule_effect \<Rightarrow> rule list \<Rightarrow> capability \<Rightarrow> rule_effect" where
  "lastMatch effect [] c = effect"
| "lastMatch effect (r # rules) c =
     lastMatch (if matches (r_pattern r) c then r_effect r else effect) rules c"

fun lastMatchAll :: "rule_effect \<Rightarrow> rule list list \<Rightarrow> capability \<Rightarrow> rule_effect" where
  "lastMatchAll effect [] c = effect"
| "lastMatchAll effect (ruleset # rulesets) c = lastMatchAll (lastMatch effect ruleset c) rulesets c"

definition evaluate :: "rule list list \<Rightarrow> capability \<Rightarrow> rule_effect" where
  "evaluate rulesets c =
     (if (\<exists>ruleset \<in> set rulesets. \<exists>r \<in> set ruleset. \<not> withinMatchBudget (r_pattern r) c) then Deny
      else let configured = (case rulesets of [] \<Rightarrow> [] | x # _ \<Rightarrow> x)
           in if lastMatch Ask configured c = Deny then Deny
              else lastMatchAll Ask rulesets c)"

section \<open>Rendering\<close>

definition maxDisplayFieldLength :: nat where
  "maxDisplayFieldLength = 256"

definition truncationMarker :: ustring where
  "truncationMarker = 0x2026 # js ''[truncated]''"

definition hexDigitUpper :: "nat \<Rightarrow> code_unit" where
  "hexDigitUpper n = js ''0123456789ABCDEF'' ! n"

definition upperEscape :: "code_unit \<Rightarrow> ustring" where
  "upperEscape u =
     (let n = unat u in
      js [CHR 0x5c, CHR ''u''] @
      [hexDigitUpper (n div 0x1000), hexDigitUpper (n div 0x100 mod 0x10),
       hexDigitUpper (n div 0x10 mod 0x10), hexDigitUpper (n mod 0x10)])"

text \<open>
  \<open>escaped\<close> decides membership of a code point in the Unicode classes of the source's regular
  expression (controls, format characters, line and paragraph separators).
\<close>

definition displayChunk :: "(nat \<Rightarrow> bool) \<Rightarrow> ustring \<Rightarrow> ustring" where
  "displayChunk escaped unit =
     (if unit = [0x0a] then js [CHR 0x5c, CHR ''n'']
      else if unit = [0x0d] then js [CHR 0x5c, CHR ''r'']
      else if unit = [0x09] then js [CHR 0x5c, CHR ''t'']
      else if escaped (codePoint unit) then concat (map upperEscape unit)
      else unit)"

text \<open>The loop of \<open>displayField\<close>: the chunks pushed so far, their total length, and whether it broke off.\<close>

fun displayLoop :: "(nat \<Rightarrow> bool) \<Rightarrow> ustring list \<Rightarrow> nat \<Rightarrow> ustring list \<Rightarrow> ustring list \<times> nat \<times> bool" where
  "displayLoop escaped acc len [] = (acc, len, False)"
| "displayLoop escaped acc len (unit # rest) =
     (let chunk = displayChunk escaped unit in
      if len + length chunk > maxDisplayFieldLength then (acc, len, True)
      else displayLoop escaped (acc @ [chunk]) (len + length chunk) rest)"

text \<open>
  \<open>while (length > contentLength) length -= chunks.pop()!.length\<close>.  The popped list is not empty
  while the length, which is the total length of the chunks, is positive.
\<close>

function popChunks :: "nat \<Rightarrow> ustring list \<Rightarrow> nat \<Rightarrow> ustring list" where
  "popChunks contentLength acc len =
     (if len > contentLength \<and> acc \<noteq> []
      then popChunks contentLength (butlast acc) (len - length (last acc)) else acc)"
  by pat_completeness auto

termination
  by (relation "measure (\<lambda>(c, acc, len). length acc)") auto

declare popChunks.simps [simp del]

definition displayField :: "(nat \<Rightarrow> bool) \<Rightarrow> ustring \<Rightarrow> ustring" where
  "displayField escaped value =
     (let (acc, len, truncated) = displayLoop escaped [] 0 (chunks value) in
      if \<not> truncated then concat acc
      else concat (popChunks (maxDisplayFieldLength - length truncationMarker) acc len) @ truncationMarker)"

fun tier_text :: "effect_tier \<Rightarrow> ustring" where
  "tier_text Sealed = js ''sealed''"
| "tier_text Compensable = js ''compensable''"
| "tier_text Irreversible = js ''irreversible''"

fun store_code_text :: "grant_store_error_code \<Rightarrow> ustring" where
  "store_code_text Duplicate_request = js ''duplicate_request''"
| "store_code_text Request_not_found = js ''request_not_found''"
| "store_code_text Journal_failed = js ''journal_failed''"
| "store_code_text Store_closed = js ''store_closed''"
| "store_code_text Invalid_resolution = js ''invalid_resolution''"

definition formatted :: "capability \<Rightarrow> ustring" where
  "formatted c = (case format_capability c of Some s \<Rightarrow> s | None \<Rightarrow> [])"

fun formatError :: "(nat \<Rightarrow> bool) \<Rightarrow> permission_error \<Rightarrow> ustring" where
  "formatError escaped (PermissionRequired rid run c t m) =
     displayField escaped (js ''permission_required'') @ js '': '' @ displayField escaped (formatted c)
     @ js '' (tier '' @ displayField escaped (tier_text t) @ js '', request '' @ displayField escaped rid @ js '')''"
| "formatError escaped (PermissionDenied c why) =
     displayField escaped (js ''permission_denied'') @ js '': '' @ displayField escaped (formatted c)
     @ js '': '' @ displayField escaped why"
| "formatError escaped (GrantStoreError code message) =
     js ''grant store '' @ displayField escaped (store_code_text code) @
     (case message of Some m \<Rightarrow> if m = [] then [] else js '': '' @ displayField escaped m | None \<Rightarrow> [])"

section \<open>Evaluation\<close>

lemma lastMatch_filter:
  "lastMatch e rules c = (case filter (\<lambda>r. matches (r_pattern r) c) rules of
     [] \<Rightarrow> e | rs \<Rightarrow> r_effect (last rs))"
  by (induction rules arbitrary: e) (auto split: list.splits)

lemma lastMatch_append: "lastMatch e (xs @ ys) c = lastMatch (lastMatch e xs c) ys c"
  by (induction xs arbitrary: e) auto

lemma lastMatchAll_concat: "lastMatchAll e rulesets c = lastMatch e (concat rulesets) c"
  by (induction rulesets arbitrary: e) (auto simp: lastMatch_append)

definition decidable_rules :: "rule list list \<Rightarrow> capability \<Rightarrow> bool" where
  "decidable_rules rulesets c = (\<forall>r \<in> set (concat rulesets). withinMatchBudget (r_pattern r) c)"

text \<open>Rules and requests that pass the schema checks are always decidable.\<close>

lemma valid_decidable:
  assumes "\<forall>r \<in> set (concat rulesets). valid_pattern (r_pattern r)" "valid_capability c"
  shows "decidable_rules rulesets c"
  using assms work_within_budget
  by (auto simp: decidable_rules_def withinMatchBudget_def valid_pattern_def valid_capability_def)

definition configured_rules :: "rule list list \<Rightarrow> rule list" where
  "configured_rules rulesets = (case rulesets of [] \<Rightarrow> [] | x # _ \<Rightarrow> x)"

lemma evaluate_decidable:
  "decidable_rules rulesets c \<Longrightarrow> evaluate rulesets c =
     (if lastMatch Ask (configured_rules rulesets) c = Deny then Deny else lastMatch Ask (concat rulesets) c)"
  by (auto simp: evaluate_def decidable_rules_def configured_rules_def lastMatchAll_concat Let_def)

lemma evaluate_undecidable: "\<not> decidable_rules rulesets c \<Longrightarrow> evaluate rulesets c = Deny"
  by (auto simp: evaluate_def decidable_rules_def)

lemma lastMatch_allow_rule:
  "lastMatch Ask rules c = Allow \<Longrightarrow> \<exists>r \<in> set rules. r_effect r = Allow \<and> matches (r_pattern r) c"
proof -
  assume a: "lastMatch Ask rules c = Allow"
  let ?rs = "filter (\<lambda>r. matches (r_pattern r) c) rules"
  from a have "?rs \<noteq> []" "r_effect (last ?rs) = Allow"
    by (auto simp: lastMatch_filter split: list.splits)
  then have "last ?rs \<in> {r \<in> set rules. matches (r_pattern r) c}" by (metis last_in_set set_filter)
  with \<open>r_effect (last ?rs) = Allow\<close> show ?thesis by blast
qed

lemma evaluate_allow:
  assumes "evaluate rulesets c = Allow"
  shows "decidable_rules rulesets c" "lastMatch Ask (configured_rules rulesets) c \<noteq> Deny"
    "lastMatch Ask (concat rulesets) c = Allow"
  using assms evaluate_undecidable[of rulesets c] evaluate_decidable[of rulesets c]
  by (cases "decidable_rules rulesets c"; simp split: if_splits)+

section \<open>Rendered fields are bounded\<close>

lemma displayLoop_length:
  "length (concat acc) = len \<Longrightarrow> len \<le> maxDisplayFieldLength \<Longrightarrow>
   displayLoop escaped acc len units = (acc', len', t) \<Longrightarrow>
   length (concat acc') = len' \<and> len' \<le> maxDisplayFieldLength"
  by (induction escaped acc len units rule: displayLoop.induct) (auto simp: Let_def split: if_splits)

lemma popChunks_length:
  "length (concat acc) = len \<Longrightarrow> length (concat (popChunks n acc len)) \<le> n"
proof (induction n acc len rule: popChunks.induct)
  case (1 n acc len)
  show ?case
  proof (cases "len > n \<and> acc \<noteq> []")
    case True
    then have "concat acc = concat (butlast acc) @ last acc"
      by (metis append_butlast_last_id concat.simps concat_append append_Nil2)
    with 1 True show ?thesis by (simp add: popChunks.simps[of n acc len])
  next
    case False
    with 1 show ?thesis by (auto simp: popChunks.simps[of n acc len])
  qed
qed

lemma truncationMarker_length: "length truncationMarker = 12"
  by (simp add: truncationMarker_def)

lemma displayField_length: "length (displayField escaped value) \<le> maxDisplayFieldLength"
proof -
  obtain acc len t where l: "displayLoop escaped [] 0 (chunks value) = (acc, len, t)"
    by (metis prod_cases3)
  then have "length (concat acc) = len \<and> len \<le> maxDisplayFieldLength"
    using displayLoop_length[of "[]" 0 escaped "chunks value" acc len t] by simp
  then show ?thesis
    using l popChunks_length[of acc len "maxDisplayFieldLength - length truncationMarker"]
    by (simp add: displayField_def truncationMarker_length maxDisplayFieldLength_def)
qed

text \<open>Every chunk of the rendering is an escape or an unescaped chunk of the input.\<close>

lemma displayLoop_subset:
  "displayLoop escaped acc len units = (acc', len', t) \<Longrightarrow>
   set acc' \<subseteq> set acc \<union> displayChunk escaped ` set units"
  by (induction escaped acc len units rule: displayLoop.induct) (fastforce simp: Let_def split: if_splits)+

lemma popChunks_subset: "set (popChunks n acc len) \<subseteq> set acc"
proof (induction n acc len rule: popChunks.induct)
  case (1 n acc len)
  then show ?case by (subst popChunks.simps) (auto dest: in_set_butlastD)
qed

end
