(* ===== verification/Capability_Set.thy ===== *)
theory Capability_Set
  imports Capability
begin

text \<open>
  Monotone capability authority (\<open>packages/smithers/flows/kernel/src/CapabilitySet.ts\<close>): a
  normalised conjunction of any-of groups of patterns, its intersection, and the attenuation of
  the ambient ceiling.  The locale \<open>authority\<close> is the contract the grant store relies on.
\<close>

record capability_set =
  groups :: "capability_pattern list list"

definition comparePattern :: "capability_pattern \<Rightarrow> capability_pattern \<Rightarrow> int" where
  "comparePattern left right =
     (let la = pattern_action_text (pat_action left); ra = pattern_action_text (pat_action right) in
      if la < ra then -1 else if ra < la then 1
      else if pat_resource left < pat_resource right then -1
      else if pat_resource right < pat_resource left then 1 else 0)"

fun compareGroup :: "capability_pattern list \<Rightarrow> capability_pattern list \<Rightarrow> int" where
  "compareGroup (l # ls) (r # rs) =
     (let order = comparePattern l r in if order \<noteq> 0 then order else compareGroup ls rs)"
| "compareGroup ls rs = int (length ls) - int (length rs)"

definition normalizeGroup :: "capability_pattern list \<Rightarrow> capability_pattern list" where
  "normalizeGroup patterns = pushDistinct comparePattern [] (js_sort comparePattern patterns)"

definition fromNormalizedGroups :: "capability_pattern list list \<Rightarrow> capability_set" where
  "fromNormalizedGroups gs = \<lparr>groups = gs\<rparr>"

definition make_set :: "capability_pattern list list \<Rightarrow> capability_set" where
  "make_set gs =
     (let sorted = js_sort compareGroup (map normalizeGroup gs) in
      if (\<exists>g \<in> set sorted. length g = 0) then fromNormalizedGroups [[]]
      else fromNormalizedGroups (pushDistinct compareGroup [] sorted))"

definition fromPatterns :: "capability_pattern list \<Rightarrow> capability_set" where
  "fromPatterns patterns = make_set [patterns]"

definition unrestricted :: capability_set where
  "unrestricted = make_set []"

definition none :: capability_set where
  "none = make_set [[]]"

definition allows :: "capability_set \<Rightarrow> capability \<Rightarrow> bool" where
  "allows s c = list_all (\<lambda>g. list_ex (\<lambda>p. matches p c) g) (groups s)"

definition intersect :: "capability_set \<Rightarrow> capability_set \<Rightarrow> capability_set" where
  "intersect left right = make_set (groups left @ groups right)"

fun equalGroups :: "capability_pattern list list \<Rightarrow> capability_pattern list list \<Rightarrow> bool" where
  "equalGroups (l # ls) (r # rs) = (if compareGroup l r \<noteq> 0 then False else equalGroups ls rs)"
| "equalGroups _ _ = True"

definition equals :: "capability_set \<Rightarrow> capability_set \<Rightarrow> bool" where
  "equals left right =
     (if length (groups left) \<noteq> length (groups right) then False
      else equalGroups (groups left) (groups right))"

text \<open>\<open>attenuate\<close> runs an effect under the ceiling it computes from the parent's.\<close>

definition attenuate :: "capability_pattern list \<Rightarrow> capability_set \<Rightarrow> capability_set" where
  "attenuate patterns parent = intersect parent (fromPatterns patterns)"

section \<open>Comparison\<close>

definition pattern_key :: "capability_pattern \<Rightarrow> ustring list" where
  "pattern_key p = [pattern_action_text (pat_action p), pat_resource p]"

lemma pattern_key_inj: "pattern_key p = pattern_key q \<Longrightarrow> p = q"
  by (auto simp: pattern_key_def)

lemma comparePattern_key:
  "comparePattern l r < 0 \<longleftrightarrow> pattern_key l < pattern_key r"
  "0 < comparePattern l r \<longleftrightarrow> pattern_key r < pattern_key l"
  by (auto simp: comparePattern_def pattern_key_def Let_def)

interpretation pattern_cmp: comparator comparePattern
  by (rule comparator_by_key[where f = pattern_key]) (auto simp: comparePattern_key pattern_key_inj)

lemma Nil_less_map: "[] < map f xs \<longleftrightarrow> xs \<noteq> []"
  by (cases xs) auto

lemma compareGroup_key:
  "compareGroup ls rs < 0 \<longleftrightarrow> map pattern_key ls < map pattern_key rs"
  "0 < compareGroup ls rs \<longleftrightarrow> map pattern_key rs < map pattern_key ls"
proof (induction ls rs rule: compareGroup.induct)
  case (1 l ls r rs)
  {
    case 1
    show ?case
      using "1.IH"(1) comparePattern_key[of l r] pattern_cmp.cmp_zero[of l r]
      by (cases "l = r") (auto simp: Let_def dest: pattern_key_inj)
  next
    case 2
    show ?case
      using "1.IH"(2) comparePattern_key[of l r] pattern_cmp.cmp_zero[of l r]
      by (cases "l = r") (auto simp: Let_def dest: pattern_key_inj)
  }
qed (auto simp: Nil_less_map)

interpretation group_cmp: comparator compareGroup
proof (rule comparator_by_key[where f = "map pattern_key"])
  show "map pattern_key a = map pattern_key b \<Longrightarrow> a = b" for a b
    by (metis (no_types, lifting) inj_map_eq_map injI pattern_key_inj)
qed (auto simp: compareGroup_key)

section \<open>Normal form\<close>

lemma set_normalizeGroup [simp]: "set (normalizeGroup ps) = set ps"
  by (simp add: normalizeGroup_def pattern_cmp.dedup_sorted)

lemma normalizeGroup_cong: "set ps = set qs \<Longrightarrow> normalizeGroup ps = normalizeGroup qs"
  unfolding normalizeGroup_def by (rule pattern_cmp.dedup_canonical)

lemma normalizeGroup_Nil_iff [simp]: "normalizeGroup ps = [] \<longleftrightarrow> ps = []"
proof -
  have "normalizeGroup ps = [] \<longleftrightarrow> set (normalizeGroup ps) = {}" by (simp only: set_empty)
  then show ?thesis by (simp only: set_normalizeGroup set_empty)
qed

lemma Nil_in_normalized [simp]: "[] \<in> normalizeGroup ` A \<longleftrightarrow> [] \<in> A"
proof
  assume "[] \<in> normalizeGroup ` A"
  then obtain g where "g \<in> A" "normalizeGroup g = []" by (metis imageE)
  then show "[] \<in> A" by (simp only: normalizeGroup_Nil_iff)
next
  assume "[] \<in> A"
  then show "[] \<in> normalizeGroup ` A" by (metis image_eqI normalizeGroup_Nil_iff)
qed

lemma normalizeGroup_idem [simp]: "normalizeGroup (normalizeGroup ps) = normalizeGroup ps"
  by (rule normalizeGroup_cong) simp

lemma make_set_groups:
  "groups (make_set gs) = (if [] \<in> set gs then [[]]
     else pushDistinct compareGroup [] (js_sort compareGroup (map normalizeGroup gs)))"
  by (auto simp: make_set_def fromNormalizedGroups_def Let_def)

lemma set_make_set: "set (groups (make_set gs)) = (if [] \<in> set gs then {[]} else normalizeGroup ` set gs)"
  by (simp add: make_set_groups group_cmp.dedup_sorted)

text \<open>The normal form depends on the set of pattern sets only.\<close>

lemma make_set_canonical:
  assumes "set ` set gs = set ` set hs"
  shows "make_set gs = make_set hs"
proof -
  have "[] \<in> set gs \<longleftrightarrow> {} \<in> set ` set gs" for gs :: "capability_pattern list list" by (auto simp: image_iff)
  with assms have e: "[] \<in> set gs \<longleftrightarrow> [] \<in> set hs" by metis
  have "normalizeGroup ` set gs \<subseteq> normalizeGroup ` set hs" if "set ` set gs \<subseteq> set ` set hs"
    for gs hs :: "capability_pattern list list"
  proof
    fix x assume "x \<in> normalizeGroup ` set gs"
    then obtain g where g: "g \<in> set gs" "x = normalizeGroup g" by blast
    with that obtain h where "h \<in> set hs" "set h = set g" by (metis imageE image_subset_iff)
    with g show "x \<in> normalizeGroup ` set hs" using normalizeGroup_cong by blast
  qed
  with assms have "set (map normalizeGroup gs) = set (map normalizeGroup hs)"
    by (simp add: set_eq_subset)
  then have "groups (make_set gs) = groups (make_set hs)"
    using e group_cmp.dedup_canonical by (auto simp: make_set_groups)
  then show ?thesis by (auto simp: make_set_def fromNormalizedGroups_def Let_def)
qed

definition normalized_set :: "capability_set \<Rightarrow> bool" where
  "normalized_set s = (make_set (groups s) = s)"

lemma make_set_idem: "make_set (groups (make_set gs)) = make_set gs"
proof (cases "[] \<in> set gs")
  case True
  then show ?thesis by (simp add: make_set_def fromNormalizedGroups_def Let_def)
next
  case False
  then show ?thesis by (intro make_set_canonical) (simp add: set_make_set image_image)
qed

lemma normalized_make_set [simp]: "normalized_set (make_set gs)"
  by (simp add: normalized_set_def make_set_idem)

lemma allows_make_set: "allows (make_set gs) c \<longleftrightarrow> (\<forall>g \<in> set gs. \<exists>p \<in> set g. matches p c)"
proof -
  have "allows (make_set gs) c \<longleftrightarrow> (\<forall>g \<in> set (groups (make_set gs)). \<exists>p \<in> set g. matches p c)"
    by (simp add: allows_def list_all_iff list_ex_iff)
  then show ?thesis by (auto simp: set_make_set)
qed

section \<open>The algebra of authority\<close>

lemma allows_intersect: "allows (intersect l r) c \<longleftrightarrow> allows l c \<and> allows r c"
  by (auto simp: intersect_def allows_make_set) (auto simp: allows_def list_all_iff list_ex_iff)

lemma allows_fromPatterns: "allows (fromPatterns ps) c \<longleftrightarrow> (\<exists>p \<in> set ps. matches p c)"
  by (simp add: fromPatterns_def allows_make_set)

lemma allows_unrestricted [simp]: "allows unrestricted c"
  by (simp add: unrestricted_def allows_make_set)

lemma allows_none [simp]: "\<not> allows none c"
  by (simp add: none_def allows_make_set)

lemma intersect_commute: "intersect l r = intersect r l"
  unfolding intersect_def by (rule make_set_canonical) auto

lemma groups_empty_make: "[] \<in> set gs \<Longrightarrow> make_set gs = \<lparr>groups = [[]]\<rparr>"
  by (auto simp: make_set_def fromNormalizedGroups_def Let_def)

lemma make_set_absorb: "make_set (groups (make_set gs) @ hs) = make_set (gs @ hs)"
proof (cases "[] \<in> set gs")
  case True
  then show ?thesis by (simp add: groups_empty_make)
next
  case False
  then show ?thesis by (intro make_set_canonical) (simp add: set_make_set image_Un image_image)
qed

lemma intersect_assoc: "intersect (intersect a b) c = intersect a (intersect b c)"
proof -
  have "intersect (intersect a b) c = make_set (groups a @ groups b @ groups c)"
    by (simp add: intersect_def make_set_absorb)
  also have "\<dots> = make_set ((groups b @ groups c) @ groups a)"
    by (rule make_set_canonical) auto
  also have "\<dots> = intersect (intersect b c) a" by (simp add: intersect_def make_set_absorb)
  finally show ?thesis by (simp add: intersect_commute)
qed

lemma intersect_idem: "normalized_set a \<Longrightarrow> intersect a a = a"
  unfolding normalized_set_def intersect_def
  using make_set_canonical[of "groups a @ groups a" "groups a"] by auto

lemma intersect_unrestricted: "normalized_set a \<Longrightarrow> intersect a unrestricted = a"
  by (simp add: normalized_set_def intersect_def unrestricted_def make_set_groups)

lemma intersect_none: "intersect a none = none"
  by (simp add: intersect_def none_def groups_empty_make)

lemma equalGroups_iff: "length ls = length rs \<Longrightarrow> equalGroups ls rs \<longleftrightarrow> ls = rs"
  by (induction ls rs rule: equalGroups.induct) (auto simp: group_cmp.cmp_zero)

lemma equals_iff: "equals l r \<longleftrightarrow> l = r"
  by (auto simp: equals_def equalGroups_iff)

text \<open>The contract of an authority, and what any chain of attenuations satisfies under it.\<close>

locale authority =
  fixes permits :: "'s \<Rightarrow> 'c \<Rightarrow> bool" and meet :: "'s \<Rightarrow> 's \<Rightarrow> 's"
    and any_of :: "'p list \<Rightarrow> 's" and selects :: "'p \<Rightarrow> 'c \<Rightarrow> bool"
  assumes permits_meet: "permits (meet l r) c \<longleftrightarrow> permits l c \<and> permits r c"
    and permits_any_of: "permits (any_of ps) c \<longleftrightarrow> (\<exists>p \<in> set ps. selects p c)"
begin

definition narrow :: "'s \<Rightarrow> 'p list list \<Rightarrow> 's" where
  "narrow s pss = foldl (\<lambda>ceiling group. meet ceiling (any_of group)) s pss"

lemma permits_narrow: "permits (narrow s pss) c \<longleftrightarrow> permits s c \<and> (\<forall>ps \<in> set pss. \<exists>p \<in> set ps. selects p c)"
  unfolding narrow_def by (induction pss arbitrary: s) (auto simp: permits_meet permits_any_of)

lemma narrow_monotone: "permits (narrow s pss) c \<Longrightarrow> permits s c"
  by (simp add: permits_narrow)

lemma narrow_append: "permits (narrow s (pss @ qss)) c \<Longrightarrow> permits (narrow s pss) c"
  by (simp add: permits_narrow)

end

interpretation auth: authority allows intersect fromPatterns matches
  by unfold_locales (simp_all add: allows_intersect allows_fromPatterns)

end
