(* ===== verification/Sha256.thy ===== *)
theory Sha256
  imports Text
begin

text \<open>
  The handwritten SHA-256 (\<open>packages/smithers/flows/crypto/src/internal/sha256.ts\<close>) and the digest
  entry points of \<open>crypto/src/Sha256.ts\<close>.  Typed arrays are lists updated by index, JavaScript's
  32-bit operators are operations on \<^typ>\<open>32 word\<close>: every sum in the source is reduced by
  \<open>>>> 0\<close> or by storing it into a \<open>Uint32Array\<close>, and stays far below \<open>2 ^ 53\<close> before that.
  The array program is proved equal to the specification of FIPS 180-4, written with the
  standard's message schedule, rounds and padding.
\<close>

section \<open>The implementation\<close>

definition rounds :: "32 word list" where
  "rounds =
     [0x428a2f98, 0x71374491, 0xb5c0fbcf, 0xe9b5dba5, 0x3956c25b, 0x59f111f1, 0x923f82a4, 0xab1c5ed5] @
     [0xd807aa98, 0x12835b01, 0x243185be, 0x550c7dc3, 0x72be5d74, 0x80deb1fe, 0x9bdc06a7, 0xc19bf174] @
     [0xe49b69c1, 0xefbe4786, 0x0fc19dc6, 0x240ca1cc, 0x2de92c6f, 0x4a7484aa, 0x5cb0a9dc, 0x76f988da] @
     [0x983e5152, 0xa831c66d, 0xb00327c8, 0xbf597fc7, 0xc6e00bf3, 0xd5a79147, 0x06ca6351, 0x14292967] @
     [0x27b70a85, 0x2e1b2138, 0x4d2c6dfc, 0x53380d13, 0x650a7354, 0x766a0abb, 0x81c2c92e, 0x92722c85] @
     [0xa2bfe8a1, 0xa81a664b, 0xc24b8b70, 0xc76c51a3, 0xd192e819, 0xd6990624, 0xf40e3585, 0x106aa070] @
     [0x19a4c116, 0x1e376c08, 0x2748774c, 0x34b0bcb5, 0x391c0cb3, 0x4ed8aa4a, 0x5b9cca4f, 0x682e6ff3] @
     [0x748f82ee, 0x78a5636f, 0x84c87814, 0x8cc70208, 0x90befffa, 0xa4506ceb, 0xbef9a3f7, 0xc67178f2]"

definition initial :: "32 word list" where
  "initial = [
     0x6a09e667, 0xbb67ae85, 0x3c6ef372, 0xa54ff53a, 0x510e527f, 0x9b05688c, 0x1f83d9ab, 0x5be0cd19]"

definition rotateRight :: "32 word \<Rightarrow> nat \<Rightarrow> 32 word" where
  "rotateRight value bits = drop_bit bits value OR push_bit (32 - bits) value"

text \<open>\<open>DataView.setUint32\<close> and \<open>getUint32\<close>, big-endian.\<close>

definition wordBytes :: "32 word \<Rightarrow> byte list" where
  "wordBytes w = [ucast (drop_bit 24 w), ucast (drop_bit 16 w), ucast (drop_bit 8 w), ucast w]"

definition setUint32 :: "byte list \<Rightarrow> nat \<Rightarrow> 32 word \<Rightarrow> byte list" where
  "setUint32 bytes offset w =
     bytes[offset := ucast (drop_bit 24 w), offset + 1 := ucast (drop_bit 16 w),
           offset + 2 := ucast (drop_bit 8 w), offset + 3 := ucast w]"

definition getUint32 :: "byte list \<Rightarrow> nat \<Rightarrow> 32 word" where
  "getUint32 bytes offset =
     push_bit 24 (ucast (bytes ! offset)) OR push_bit 16 (ucast (bytes ! (offset + 1)))
     OR push_bit 8 (ucast (bytes ! (offset + 2))) OR ucast (bytes ! (offset + 3))"

definition blockCount :: "byte list \<Rightarrow> nat" where
  "blockCount message = (length message + 8) div 64 + 1"

definition padMessage :: "byte list \<Rightarrow> byte list" where
  "padMessage message =
     (let size = blockCount message * 64;
          padded = replicate size 0;
          padded = message @ drop (length message) padded;
          padded = padded[length message := 0x80];
          padded = setUint32 padded (size - 8) (of_nat (length message div 0x20000000))
      in setUint32 padded (size - 4) (push_bit 3 (of_nat (length message))))"

definition loadSchedule :: "byte list \<Rightarrow> nat \<Rightarrow> 32 word list \<Rightarrow> 32 word list" where
  "loadSchedule view offset schedule =
     fold (\<lambda>index schedule. schedule[index := getUint32 view (offset + index * 4)]) [0..<16] schedule"

definition extendStep :: "nat \<Rightarrow> 32 word list \<Rightarrow> 32 word list" where
  "extendStep index schedule =
     (let previous = schedule ! (index - 15);
          recent = schedule ! (index - 2);
          sigma0 = rotateRight previous 7 XOR rotateRight previous 18 XOR drop_bit 3 previous;
          sigma1 = rotateRight recent 17 XOR rotateRight recent 19 XOR drop_bit 10 recent
      in schedule[index := schedule ! (index - 16) + sigma0 + schedule ! (index - 7) + sigma1])"

definition extendSchedule :: "32 word list \<Rightarrow> 32 word list" where
  "extendSchedule schedule = fold extendStep [16..<64] schedule"

type_synonym vars = "32 word \<times> 32 word \<times> 32 word \<times> 32 word \<times> 32 word \<times> 32 word \<times> 32 word \<times> 32 word"

definition roundStep :: "32 word list \<Rightarrow> nat \<Rightarrow> vars \<Rightarrow> vars" where
  "roundStep schedule index = (\<lambda>(a, b, c, d, e, f, g, h).
     let sigma1 = rotateRight e 6 XOR rotateRight e 11 XOR rotateRight e 25;
         choice = (e AND f) XOR (NOT e AND g);
         temporary1 = h + sigma1 + choice + rounds ! index + schedule ! index;
         sigma0 = rotateRight a 2 XOR rotateRight a 13 XOR rotateRight a 22;
         majority = (a AND b) XOR (a AND c) XOR (b AND c);
         temporary2 = sigma0 + majority
     in (temporary1 + temporary2, a, b, c, d + temporary1, e, f, g))"

definition hashVars :: "32 word list \<Rightarrow> vars" where
  "hashVars h = (h ! 0, h ! 1, h ! 2, h ! 3, h ! 4, h ! 5, h ! 6, h ! 7)"

definition addVars :: "32 word list \<Rightarrow> vars \<Rightarrow> 32 word list" where
  "addVars hash = (\<lambda>(a, b, c, d, e, f, g, h).
     hash[0 := hash ! 0 + a, 1 := hash ! 1 + b, 2 := hash ! 2 + c, 3 := hash ! 3 + d,
          4 := hash ! 4 + e, 5 := hash ! 5 + f, 6 := hash ! 6 + g, 7 := hash ! 7 + h])"

text \<open>One iteration of the block loop; the schedule array is reused from block to block.\<close>

definition blockStep :: "byte list \<Rightarrow> nat \<Rightarrow> 32 word list \<times> 32 word list \<Rightarrow> 32 word list \<times> 32 word list" where
  "blockStep view block = (\<lambda>(hash, schedule).
     let schedule = extendSchedule (loadSchedule view (block * 64) schedule)
     in (addVars hash (fold (roundStep schedule) [0..<64] (hashVars hash)), schedule))"

definition sha256 :: "byte list \<Rightarrow> byte list" where
  "sha256 message =
     (let view = padMessage message;
          (hash, schedule) = fold (blockStep view) [0..<blockCount message] (initial, replicate 64 0)
      in fold (\<lambda>word digest. setUint32 digest (word * 4) (hash ! word)) [0..<8] (replicate 32 0))"

section \<open>Digest representation and entry points\<close>

datatype sha256_error_code =
  Invalid_input | Invalid_text | Text_encoding_failed | Digest_failed | Invalid_digest

datatype hash_input = Text_input ustring | Byte_input "byte list" | Other_input

definition snapshotSync :: "hash_input \<Rightarrow> sha256_error_code + byte list" where
  "snapshotSync input =
     (case input of
        Text_input s \<Rightarrow> if \<not> isWellFormed s then Inl Invalid_text else Inr (utf8 s)
      | Byte_input bytes \<Rightarrow> Inr bytes
      | Other_input \<Rightarrow> Inl Invalid_input)"

definition encodeHex :: "byte list \<Rightarrow> ustring" where
  "encodeHex bytes =
     concat (map (\<lambda>b. [hexDigit (unat (drop_bit 4 b)), hexDigit (unat (b AND 0x0f))]) bytes)"

definition digestPattern :: "ustring \<Rightarrow> bool" where
  "digestPattern s = (length s = 64 \<and> (\<forall>u \<in> set s. u \<in> set (js ''0123456789abcdef'')))"

definition digestSync :: "hash_input \<Rightarrow> sha256_error_code + ustring" where
  "digestSync input =
     (case snapshotSync input of Inl e \<Rightarrow> Inl e | Inr bytes \<Rightarrow> Inr (encodeHex (sha256 bytes)))"

text \<open>
  The effectful \<open>digest\<close> asks an injected host.  What the host answers is a parameter: the call
  itself throws, the call does not return an effect, the effect fails or dies, it yields something
  that is no byte array, or it yields bytes.
\<close>

datatype host_answer = Host_throws | Host_not_effect | Host_fails | Host_not_bytes | Host_bytes "byte list"

definition digestBytes :: nat where
  "digestBytes = 32"

definition digest :: "(byte list \<Rightarrow> host_answer) \<Rightarrow> hash_input \<Rightarrow> sha256_error_code + ustring" where
  "digest host input =
     (case snapshotSync input of
        Inl e \<Rightarrow> Inl e
      | Inr bytes \<Rightarrow>
          (case host bytes of
             Host_throws \<Rightarrow> Inl Digest_failed
           | Host_not_effect \<Rightarrow> Inl Digest_failed
           | Host_fails \<Rightarrow> Inl Digest_failed
           | Host_not_bytes \<Rightarrow> Inl Invalid_digest
           | Host_bytes output \<Rightarrow>
               if length output \<noteq> digestBytes then Inl Invalid_digest else Inr (encodeHex output)))"

section \<open>FIPS 180-4\<close>

definition Ch :: "32 word \<Rightarrow> 32 word \<Rightarrow> 32 word \<Rightarrow> 32 word" where
  "Ch x y z = (x AND y) XOR (NOT x AND z)"

definition Maj :: "32 word \<Rightarrow> 32 word \<Rightarrow> 32 word \<Rightarrow> 32 word" where
  "Maj x y z = (x AND y) XOR (x AND z) XOR (y AND z)"

definition bigSigma0 :: "32 word \<Rightarrow> 32 word" where
  "bigSigma0 x = word_rotr 2 x XOR word_rotr 13 x XOR word_rotr 22 x"

definition bigSigma1 :: "32 word \<Rightarrow> 32 word" where
  "bigSigma1 x = word_rotr 6 x XOR word_rotr 11 x XOR word_rotr 25 x"

definition smallSigma0 :: "32 word \<Rightarrow> 32 word" where
  "smallSigma0 x = word_rotr 7 x XOR word_rotr 18 x XOR drop_bit 3 x"

definition smallSigma1 :: "32 word \<Rightarrow> 32 word" where
  "smallSigma1 x = word_rotr 17 x XOR word_rotr 19 x XOR drop_bit 10 x"

fun messageSchedule :: "32 word list \<Rightarrow> nat \<Rightarrow> 32 word" where
  "messageSchedule M t =
     (if t < 16 then M ! t
      else smallSigma1 (messageSchedule M (t - 2)) + messageSchedule M (t - 7)
           + smallSigma0 (messageSchedule M (t - 15)) + messageSchedule M (t - 16))"

declare messageSchedule.simps [simp del]

fun fipsRounds :: "(nat \<Rightarrow> 32 word) \<Rightarrow> nat \<Rightarrow> vars \<Rightarrow> vars" where
  "fipsRounds W 0 v = v"
| "fipsRounds W (Suc t) v =
     (let (a, b, c, d, e, f, g, h) = fipsRounds W t v;
          T1 = h + bigSigma1 e + Ch e f g + rounds ! t + W t;
          T2 = bigSigma0 a + Maj a b c
      in (T1 + T2, a, b, c, d + T1, e, f, g))"

definition fipsCompress :: "32 word list \<Rightarrow> 32 word list \<Rightarrow> 32 word list" where
  "fipsCompress H M =
     (let (a, b, c, d, e, f, g, h) =
            fipsRounds (messageSchedule M) 64 (H ! 0, H ! 1, H ! 2, H ! 3, H ! 4, H ! 5, H ! 6, H ! 7)
      in [a + H ! 0, b + H ! 1, c + H ! 2, d + H ! 3, e + H ! 4, f + H ! 5, g + H ! 6, h + H ! 7])"

definition bigEndian64 :: "nat \<Rightarrow> byte list" where
  "bigEndian64 n = map (\<lambda>i. of_nat (n div 256 ^ i)) [7, 6, 5, 4, 3, 2, 1, 0]"

definition fipsPad :: "byte list \<Rightarrow> byte list" where
  "fipsPad m = m @ [0x80] @ replicate (nat ((55 - int (length m)) mod 64)) 0 @ bigEndian64 (8 * length m)"

definition bigEndian32 :: "byte list \<Rightarrow> 32 word" where
  "bigEndian32 bs = ucast (bs ! 0) * 2 ^ 24 + ucast (bs ! 1) * 2 ^ 16 + ucast (bs ! 2) * 2 ^ 8 + ucast (bs ! 3)"

definition fipsBlock :: "byte list \<Rightarrow> nat \<Rightarrow> 32 word list" where
  "fipsBlock bs i = map (\<lambda>j. bigEndian32 (take 4 (drop (64 * i + 4 * j) bs))) [0..<16]"

definition fipsSha256 :: "byte list \<Rightarrow> byte list" where
  "fipsSha256 m =
     (let bs = fipsPad m
      in concat (map (\<lambda>w. map (\<lambda>i. of_nat (unat w div 256 ^ i)) [3, 2, 1, 0])
           (foldl fipsCompress initial (map (fipsBlock bs) [0..<length bs div 64]))))"

section \<open>Words\<close>

lemma rotateRight_rotr: "b \<le> 32 \<Longrightarrow> rotateRight v b = word_rotr b v"
proof (rule bit_word_eqI)
  fix n assume b: "b \<le> 32" and "n < LENGTH(32)"
  then have n: "n < 32" by simp
  show "bit (rotateRight v b) n = bit (word_rotr b v) n"
  proof (cases "n + b < 32")
    case True
    with n b show ?thesis by (auto simp: rotateRight_def bit_simps bit_word_rotr_iff add.commute)
  next
    case False
    then have m: "(n + b) mod 32 = n - (32 - b)" using n b by (simp add: mod_if)
    have "\<not> bit v (b + n)" using False bit_imp_le_length[of v "b + n"] by auto
    with n b False m show ?thesis by (auto simp: rotateRight_def bit_simps bit_word_rotr_iff add.commute)
  qed
qed

lemma wordBytes_of_nat:
  "wordBytes (of_nat n) = [of_nat (n div 2 ^ 24), of_nat (n div 2 ^ 16), of_nat (n div 2 ^ 8), of_nat n]"
  unfolding wordBytes_def drop_bit_eq_div[symmetric]
  by (auto intro!: bit_word_eqI simp: bit_simps)

lemma wordBytes_unat: "wordBytes w = map (\<lambda>i. of_nat (unat w div 256 ^ i)) [3, 2, 1, 0]"
  using wordBytes_of_nat[of "unat w"] by simp

lemma getUint32_bigEndian:
  "getUint32 bs off = bigEndian32 [bs ! off, bs ! (off + 1), bs ! (off + 2), bs ! (off + 3)]"
proof -
  define A B C D :: "32 word" where
    "A = push_bit 24 (ucast (bs ! off))" and "B = push_bit 16 (ucast (bs ! (off + 1)))"
    and "C = push_bit 8 (ucast (bs ! (off + 2)))" and "D = ucast (bs ! (off + 3))"
  note defs = A_def B_def C_def D_def
  have byte: "\<not> bit (b :: byte) n" if "8 \<le> n" for b n using bit_imp_le_length[of b n] that by auto
  have "C AND D = 0" by (rule bit_word_eqI) (auto simp: defs bit_simps byte)
  moreover have "B AND (C OR D) = 0" by (rule bit_word_eqI) (auto simp: defs bit_simps byte)
  moreover have "A AND (B OR C OR D) = 0" by (rule bit_word_eqI) (auto simp: defs bit_simps byte)
  ultimately have "A OR B OR C OR D = A + (B + (C + D))" by (simp add: disjunctive_add_eq_or)
  then show ?thesis
    by (simp add: getUint32_def bigEndian32_def defs push_bit_eq_mult add.assoc)
qed

section \<open>Padding\<close>

lemma setUint32_append:
  "length xs = off \<Longrightarrow> setUint32 (xs @ a # b # c # d # ys) off w = xs @ wordBytes w @ ys"
  by (simp add: setUint32_def wordBytes_def list_update_append)

lemma bigEndian64_words:
  "bigEndian64 (8 * n) = wordBytes (of_nat (n div 0x20000000)) @ wordBytes (push_bit 3 (of_nat n))"
proof -
  have p: "push_bit 3 (of_nat n) = (of_nat (8 * n) :: 32 word)"
    by (simp add: push_bit_eq_mult mult.commute)
  have d: "8 * n div (8 * k) = n div k" for k by simp
  show ?thesis
    unfolding p wordBytes_of_nat bigEndian64_def
    using d[of 9007199254740992] d[of 35184372088832] d[of 137438953472] d[of 536870912]
    by (simp add: div_mult2_eq[symmetric])
qed

lemma pad_size:
  fixes n :: nat
  shows "((n + 8) div 64 + 1) * 64 = n + 9 + nat ((55 - int n) mod 64)"
proof -
  define q r where "q = (n + 8) div 64" and "r = (n + 8) mod 64"
  have n: "n + 8 = 64 * q + r" "r < 64" by (simp_all add: q_def r_def)
  then have "55 - int n = (63 - int r) + 64 * (- int q)" by linarith
  then have "(55 - int n) mod 64 = (63 - int r) mod 64" by (metis mod_mult_self2)
  also have "\<dots> = 63 - int r" using n(2) by (intro mod_pos_pos_trivial) auto
  finally have "nat ((55 - int n) mod 64) = 63 - r" by simp
  moreover have "(q + 1) * 64 = n + 9 + (63 - r)" using n by (simp add: algebra_simps)
  ultimately show ?thesis unfolding q_def by simp
qed

lemma padMessage_fips: "padMessage m = fipsPad m"
proof -
  let ?n = "length m" and ?size = "blockCount m * 64"
  define k where "k = nat ((55 - int ?n) mod 64)"
  have size: "?size = ?n + 9 + k"
    using pad_size[of ?n] unfolding blockCount_def k_def by simp
  have "(m @ drop ?n (replicate ?size 0))[?n := 0x80] = m @ 0x80 # replicate k 0 @ replicate 8 0"
  proof -
    have "drop ?n (replicate ?size (0::byte)) = 0 # replicate (k + 8) 0"
      using size by (simp add: drop_replicate flip: replicate_Suc)
    then show ?thesis by (simp add: list_update_append replicate_add)
  qed
  moreover have "replicate 8 (0::byte) = [0, 0, 0, 0, 0, 0, 0, 0]" by (simp add: numeral_eq_Suc)
  ultimately have "padMessage m =
      setUint32 (setUint32 ((m @ 0x80 # replicate k 0) @ [0, 0, 0, 0, 0, 0, 0, 0]) (?n + 1 + k)
        (of_nat (?n div 0x20000000))) (?n + 1 + k + 4) (push_bit 3 (of_nat ?n))"
    using size by (simp add: padMessage_def Let_def)
  also have "\<dots> = (m @ 0x80 # replicate k 0) @ bigEndian64 (8 * ?n)"
    by (simp add: setUint32_append bigEndian64_words wordBytes_def setUint32_def list_update_append)
  finally show ?thesis by (simp add: fipsPad_def k_def)
qed

section \<open>Message schedule and rounds\<close>

lemma fold_update:
  "n \<le> length s \<Longrightarrow> fold (\<lambda>i s. s[i := f i]) [0..<n] s = map f [0..<n] @ drop n s"
proof (induction n)
  case 0
  then show ?case by simp
next
  case (Suc n)
  then have "drop n s = s ! n # drop (Suc n) s" by (simp add: Cons_nth_drop_Suc)
  with Suc show ?case by (simp add: list_update_append)
qed

lemma fipsBlock_getUint32:
  assumes "64 * (i + 1) \<le> length bs"
  shows "fipsBlock bs i = map (\<lambda>j. getUint32 bs (i * 64 + j * 4)) [0..<16]"
  unfolding fipsBlock_def
proof (rule map_cong[OF refl])
  fix j assume "j \<in> set [0..<16]"
  with assms have "i * 64 + j * 4 + 3 < length bs" by simp
  then show "bigEndian32 (take 4 (drop (64 * i + 4 * j) bs)) = getUint32 bs (i * 64 + j * 4)"
    by (simp add: getUint32_bigEndian bigEndian32_def mult.commute)
qed

lemma extendStep_schedule:
  assumes "16 \<le> i"
  shows "extendStep i (map (messageSchedule M) [0..<i] @ x # xs) = map (messageSchedule M) [0..<Suc i] @ xs"
proof -
  have nth: "(map (messageSchedule M) [0..<i] @ x # xs) ! j = messageSchedule M j" if "j < i" for j
    using that by (simp add: nth_append)
  show ?thesis
    using assms
    by (simp add: extendStep_def Let_def nth rotateRight_rotr list_update_append
        messageSchedule.simps[of M i] smallSigma0_def smallSigma1_def)
qed

lemma extendSchedule_spec:
  assumes "length rest = 48"
  shows "extendSchedule (map (messageSchedule M) [0..<16] @ rest) = map (messageSchedule M) [0..<64]"
proof -
  have "fold extendStep [16..<n] (map (messageSchedule M) [0..<16] @ rest)
      = map (messageSchedule M) [0..<n] @ drop (n - 16) rest" if "16 \<le> n" "n \<le> 64" for n
    using that
  proof (induction n rule: dec_induct)
    case base
    then show ?case by simp
  next
    case (step n)
    then have "n - 16 < length rest" "Suc (n - 16) = Suc n - 16" using assms by auto
    then have "drop (n - 16) rest = rest ! (n - 16) # drop (Suc n - 16) rest"
      by (metis Cons_nth_drop_Suc)
    with step show ?case by (simp add: extendStep_schedule)
  qed
  from this[of 64] show ?thesis using assms by (simp add: extendSchedule_def)
qed

lemma loadSchedule_spec:
  assumes "length s = 64" "64 * (i + 1) \<le> length bs"
  shows "extendSchedule (loadSchedule bs (i * 64) s) = map (messageSchedule (fipsBlock bs i)) [0..<64]"
proof -
  have "map (messageSchedule M) [0..<16] = M" if "length M = 16" for M
    using that by (auto intro!: nth_equalityI simp: messageSchedule.simps)
  then have "loadSchedule bs (i * 64) s = map (messageSchedule (fipsBlock bs i)) [0..<16] @ drop 16 s"
    using assms fold_update[of 16 s "\<lambda>j. getUint32 bs (i * 64 + j * 4)"]
    by (simp add: loadSchedule_def fipsBlock_getUint32)
  with assms(1) show ?thesis by (simp add: extendSchedule_spec)
qed

lemma rounds_fips:
  assumes "n \<le> 64"
  shows "fold (roundStep (map W [0..<64])) [0..<n] v = fipsRounds W n v"
  using assms
proof (induction n)
  case 0
  then show ?case by simp
next
  case (Suc n)
  then show ?case
    by (simp add: roundStep_def rotateRight_rotr bigSigma0_def bigSigma1_def Ch_def Maj_def Let_def
        split: prod.splits)
qed

lemma addVars_compress:
  assumes "length H = 8"
  shows "addVars H (fipsRounds (messageSchedule M) 64 (hashVars H)) = fipsCompress H M"
proof -
  obtain h0 h1 h2 h3 h4 h5 h6 h7 where "H = [h0, h1, h2, h3, h4, h5, h6, h7]"
    using assms by (auto simp: numeral_eq_Suc length_Suc_conv)
  moreover obtain a b c d e f g h where
    "fipsRounds (messageSchedule M) 64 (h0, h1, h2, h3, h4, h5, h6, h7) = (a, b, c, d, e, f, g, h)"
    by (metis prod_cases3)
  ultimately show ?thesis by (simp add: addVars_def fipsCompress_def hashVars_def add.commute)
qed

lemma fipsCompress_length [simp]: "length (fipsCompress H M) = 8"
  by (simp add: fipsCompress_def Let_def split: prod.splits)

lemma blockStep_fips:
  assumes "length H = 8" "length s = 64" "64 * (i + 1) \<le> length bs"
  shows "blockStep bs i (H, s) = (fipsCompress H (fipsBlock bs i), map (messageSchedule (fipsBlock bs i)) [0..<64])"
  using assms by (simp add: blockStep_def Let_def loadSchedule_spec rounds_fips addVars_compress)

lemma blocks_fips:
  assumes "64 * n \<le> length bs"
  shows "\<exists>s. length s = 64 \<and> fold (blockStep bs) [0..<n] (initial, replicate 64 0)
           = (foldl fipsCompress initial (map (fipsBlock bs) [0..<n]), s)
         \<and> length (foldl fipsCompress initial (map (fipsBlock bs) [0..<n])) = 8"
  using assms
proof (induction n)
  case 0
  then show ?case by (simp add: initial_def)
next
  case (Suc n)
  then show ?case by (auto simp: blockStep_fips)
qed

section \<open>The digest\<close>

lemma storeDigest:
  assumes "length hash = 8"
  shows "fold (\<lambda>word digest. setUint32 digest (word * 4) (hash ! word)) [0..<8] (replicate 32 0)
       = concat (map wordBytes hash)"
proof -
  have "fold (\<lambda>word digest. setUint32 digest (word * 4) (hash ! word)) [0..<n] (replicate 32 0)
      = concat (map wordBytes (take n hash)) @ replicate (32 - n * 4) 0" if "n \<le> 8" for n
    using that
  proof (induction n)
    case 0
    then show ?case by simp
  next
    case (Suc n)
    have len: "length (concat (map wordBytes (take n hash))) = n * 4"
      using Suc.prems assms by (simp add: length_concat comp_def wordBytes_def sum_list_triv)
    have "32 - n * 4 = Suc (Suc (Suc (Suc (32 - Suc n * 4))))" using Suc.prems by simp
    then have "replicate (32 - n * 4) (0::byte) = 0 # 0 # 0 # 0 # replicate (32 - Suc n * 4) 0" by simp
    moreover have "take (Suc n) hash = take n hash @ [hash ! n]"
      using Suc.prems assms by (simp add: take_Suc_conv_app_nth)
    ultimately show ?case using Suc len by (simp add: setUint32_append)
  qed
  from this[of 8] assms show ?thesis by simp
qed

lemma padMessage_length: "length (padMessage m) = 64 * blockCount m"
  by (simp add: padMessage_def setUint32_def Let_def blockCount_def)

lemma sha256_is_fips: "sha256 m = fipsSha256 m"
proof -
  obtain s where s: "fold (blockStep (padMessage m)) [0..<blockCount m] (initial, replicate 64 0)
        = (foldl fipsCompress initial (map (fipsBlock (padMessage m)) [0..<blockCount m]), s)"
    "length (foldl fipsCompress initial (map (fipsBlock (padMessage m)) [0..<blockCount m])) = 8"
    using blocks_fips[of "blockCount m" "padMessage m"] by (auto simp: padMessage_length)
  have blocks: "length (fipsPad m) div 64 = blockCount m"
    using padMessage_length[of m] by (simp add: padMessage_fips)
  have "fipsSha256 m = concat (map wordBytes
      (foldl fipsCompress initial (map (fipsBlock (padMessage m)) [0..<blockCount m])))"
    unfolding fipsSha256_def Let_def blocks by (simp only: padMessage_fips wordBytes_unat[abs_def])
  with s storeDigest[OF s(2)] show ?thesis by (simp add: sha256_def Let_def)
qed

lemma fipsSha256_length: "length (fipsSha256 m) = 32"
proof -
  have "length (foldl fipsCompress initial Bs) = 8" for Bs
    by (induction Bs rule: rev_induct) (simp_all add: initial_def)
  then show ?thesis by (simp add: fipsSha256_def Let_def length_concat comp_def sum_list_triv)
qed

lemma sha256_length: "length (sha256 m) = 32"
  by (simp add: sha256_is_fips fipsSha256_length)

section \<open>Hexadecimal digests\<close>

lemma hexDigit_mem: "n < 16 \<Longrightarrow> hexDigit n \<in> set (js ''0123456789abcdef'')"
  unfolding hexDigit_def by (rule nth_mem) simp

lemma nibbles: "unat (drop_bit 4 (b :: byte)) < 16" "unat (b AND 0x0f) < 16"
  "b = push_bit 4 (drop_bit 4 b) OR (b AND 0x0f)"
proof -
  have b: "unat b < 256" using unsigned_less[of b, where 'a = nat] by simp
  show "unat (drop_bit 4 b) < 16" using b by (simp add: drop_bit_eq_div unat_div)
  have "(0x0f :: byte) = mask 4" by (simp add: mask_eq_exp_minus_1)
  then have m: "b AND 0x0f = take_bit 4 b" by (simp add: take_bit_eq_mask)
  then show "unat (b AND 0x0f) < 16" by (simp add: take_bit_eq_mod unat_mod)
  show "b = push_bit 4 (drop_bit 4 b) OR (b AND 0x0f)"
    unfolding m by (rule bit_word_eqI) (auto simp: bit_simps)
qed

lemma encodeHex_inject: "encodeHex xs = encodeHex ys \<Longrightarrow> xs = ys"
proof (induction xs arbitrary: ys)
  case Nil
  then show ?case by (cases ys) (auto simp: encodeHex_def)
next
  case (Cons x xs)
  then obtain y ys' where ys: "ys = y # ys'" by (cases ys) (auto simp: encodeHex_def)
  with Cons.prems have hd: "hexDigit (unat (drop_bit 4 x)) = hexDigit (unat (drop_bit 4 y))"
    "hexDigit (unat (x AND 0x0f)) = hexDigit (unat (y AND 0x0f))" and tl: "encodeHex xs = encodeHex ys'"
    by (simp_all add: encodeHex_def)
  have "drop_bit 4 x = drop_bit 4 y" "x AND 0x0f = y AND 0x0f"
    using hexDigit_inject[OF nibbles(1) nibbles(1) hd(1)] hexDigit_inject[OF nibbles(2) nibbles(2) hd(2)]
    by (simp_all add: word_unat_eq_iff)
  then have "x = y" by (metis nibbles(3))
  with Cons.IH[OF tl] ys show ?case by simp
qed

lemma encodeHex_pattern: "length bytes = 32 \<Longrightarrow> digestPattern (encodeHex bytes)"
  using nibbles hexDigit_mem
  by (auto simp: digestPattern_def encodeHex_def length_concat comp_def sum_list_triv)

text \<open>What the consumers of a digest rely on.\<close>

locale digest_source =
  fixes dig :: "'i \<Rightarrow> 'e + ustring"
  assumes dig_pattern: "dig i = Inr d \<Longrightarrow> digestPattern d"
begin

lemma dig_length: "dig i = Inr d \<Longrightarrow> length d = 64"
  using dig_pattern by (auto simp: digestPattern_def)

lemma dig_units: "dig i = Inr d \<Longrightarrow> u \<in> set d \<Longrightarrow> 0x30 \<le> u \<and> u \<le> 0x66"
  using dig_pattern by (fastforce simp: digestPattern_def js_lits)

end

interpretation sync: digest_source digestSync
  by unfold_locales (auto simp: digestSync_def sha256_length intro!: encodeHex_pattern split: sum.splits)

interpretation hosted: digest_source "digest host"
  by unfold_locales
     (auto simp: digest_def digestBytes_def intro!: encodeHex_pattern split: sum.splits host_answer.splits if_splits)

lemma digestSync_text: "isWellFormed s \<Longrightarrow> digestSync (Text_input s) = Inr (encodeHex (sha256 (utf8 s)))"
  by (simp add: digestSync_def snapshotSync_def)

end
