(* ===== verification/Grant_Validation.thy ===== *)
theory Grant_Validation
  imports Permission Capability_Set Sha256
begin

text \<open>
  What the grant store validates before it touches its state
  (\<open>packages/smithers/flows/kernel/src/GrantStore.ts\<close>) and the durable grant events it writes
  (\<open>kernel/src/GrantEvent.ts\<close>): limits, immutable snapshots, request metadata, envelope identities
  and the patterns a grant or an envelope may install.
\<close>

section \<open>Events\<close>

datatype envelope_scope = Run_scope | Remembered_scope

datatype grant_event =
    OnceGrant (ev_request: ustring) (ev_run: ustring) (ev_plan: "ustring option") (ev_capability: capability)
      (ev_pattern: capability_pattern) (ev_tier: effect_tier)
  | RememberedGrant (ev_request: ustring) (ev_run: ustring) (ev_plan: "ustring option") (ev_capability: capability)
      (ev_pattern: capability_pattern) (ev_tier: effect_tier)
  | RunGrant (ev_request: ustring) (ev_run: ustring) (ev_plan_digest: ustring) (ev_capability: capability)
      (ev_pattern: capability_pattern) (ev_ceiling: "capability_pattern list list") (ev_tier: effect_tier)
  | DeniedGrant (ev_request: ustring) (ev_run: ustring) (ev_plan: "ustring option") (ev_capability: capability)
      (ev_pattern: capability_pattern) (ev_tier: effect_tier)
  | EnvelopeGrant (ev_run: ustring) (ev_plan_digest: ustring) (ev_patterns: "capability_pattern list")
      (ev_scope: envelope_scope)

section \<open>Limits and failures\<close>

definition maximumRules :: nat where "maximumRules = 1024"
definition maximumEnvelopePatterns :: nat where "maximumEnvelopePatterns = 256"
definition maximumPendingRequests :: nat where "maximumPendingRequests = 1024"
definition maximumMetadataDepth :: nat where "maximumMetadataDepth = 16"
definition maximumMetadataMembers :: nat where "maximumMetadataMembers = 1024"
definition maximumMetadataBytes :: nat where "maximumMetadataBytes = 64 * 1024"
definition maximumEventBytes :: nat where "maximumEventBytes = 256 * 1024"
definition maximumIdentityLength :: nat where "maximumIdentityLength = 4096"

definition invalid :: "string \<Rightarrow> permission_error" where
  "invalid message = GrantStoreError Invalid_resolution (Some (js message))"

section \<open>Snapshots\<close>

definition snapshotCapability :: "capability \<Rightarrow> capability option" where
  "snapshotCapability c = make_capability (cap_action c) (cap_resource c)"

definition snapshotPattern :: "capability_pattern \<Rightarrow> capability_pattern option" where
  "snapshotPattern p = make_pattern (pat_action p) (pat_resource p)"

definition snapshotRule :: "rule \<Rightarrow> rule option" where
  "snapshotRule r =
     map_option (\<lambda>p. \<lparr>r_effect = r_effect r, r_pattern = p\<rparr>) (snapshotPattern (r_pattern r))"

text \<open>
  \<open>metadataSnapshot\<close>: the recursive \<open>visit\<close> threads the member counter and the set of active
  objects.  The assignment \<open>snapshot[key] = ...\<close> with the key \<open>__proto__\<close> does not create an own
  property, it runs the prototype setter: a primitive is ignored, null leaves a plain record, and a
  snapshot of an object becomes the prototype.  The model keeps such a prototype as a member with the
  key \<open>__proto__\<close>, which no own property can have (\<open>assignMember\<close>); \<open>ownJson\<close> drops it, and a
  record that has one is \<open>exotic\<close>: its prototype is neither \<open>Object.prototype\<close> nor null.
  The prototype is frozen, so assigning a key it has throws a TypeError, which \<open>attemptSnapshot\<close>
  turns into \<open>permission request is invalid\<close>.
\<close>

definition protoKey :: ustring where
  "protoKey = js ''__proto__''"

fun isContainer :: "json \<Rightarrow> bool" where
  "isContainer (JArray _) = True"
| "isContainer (JObject _) = True"
| "isContainer _ = False"

definition assignMember :: "ustring \<Rightarrow> json \<Rightarrow> (ustring \<times> json) list \<Rightarrow> (ustring \<times> json) list" where
  "assignMember key j kvs = (if key = protoKey \<and> \<not> isContainer j then kvs else (key, j) # kvs)"

text \<open>Integer keys precede every other key of a record, so of an array only \<open>length\<close> can collide.\<close>

fun inheritedKeys :: "json \<Rightarrow> ustring list" where
  "inheritedKeys (JArray _) = [js ''length'']"
| "inheritedKeys (JObject kvs) =
     filter (\<lambda>k. k \<noteq> protoKey) (map fst kvs) @
     concat (map (\<lambda>(k, v). if k = protoKey then inheritedKeys v else []) kvs)"
| "inheritedKeys _ = []"

fun ownJson :: "json \<Rightarrow> json" where
  "ownJson (JArray xs) = JArray (map ownJson xs)"
| "ownJson (JObject kvs) = JObject (map (\<lambda>(k, v). (k, ownJson v)) (filter (\<lambda>(k, v). k \<noteq> protoKey) kvs))"
| "ownJson j = j"

fun exotic :: "json \<Rightarrow> bool" where
  "exotic (JArray xs) = list_ex exotic xs"
| "exotic (JObject kvs) = list_ex (\<lambda>(k, v). k = protoKey \<or> exotic v) kvs"
| "exotic _ = False"

function (sequential)
  visit :: "js_heap \<Rightarrow> nat list \<Rightarrow> nat \<Rightarrow> js_value \<Rightarrow> nat \<Rightarrow> permission_error + (json \<times> nat)"
and visitElements :: "js_heap \<Rightarrow> nat list \<Rightarrow> nat \<Rightarrow> js_property option list \<Rightarrow> nat
    \<Rightarrow> permission_error + (json list \<times> nat)"
and visitMembers :: "js_heap \<Rightarrow> nat list \<Rightarrow> ustring list \<Rightarrow> nat \<Rightarrow> (ustring \<times> bool \<times> js_property) list \<Rightarrow> nat
    \<Rightarrow> permission_error + ((ustring \<times> json) list \<times> nat)"
where
  "visit heap active members value depth =
     (if depth > maximumMetadataDepth then Inl (invalid ''metadata exceeds depth 16'')
      else case value of
        Null \<Rightarrow> Inr (JNull, members)
      | Boolean b \<Rightarrow> Inr (JBool b, members)
      | Number n \<Rightarrow> if \<not> isFiniteNumber n then Inl (invalid ''metadata contains a non-finite number'')
                     else Inr (JNumber n, members)
      | Str s \<Rightarrow> if \<not> isWellFormed s then Inl (invalid ''metadata contains ill-formed text'')
                 else if length s > maximumMetadataBytes then Inl (invalid ''metadata exceeds 65536 bytes'')
                 else Inr (JString s, members)
      | Undefined \<Rightarrow> Inl (invalid ''metadata must be JSON data'')
      | Opaque \<Rightarrow> Inl (invalid ''metadata must be JSON data'')
      | Ref a \<Rightarrow>
          if a \<in> set active then Inl (invalid ''metadata must not contain cycles'')
          else (case heap a of
             ArrayObj elements \<Rightarrow>
               (case visitElements heap (a # active) members elements (Suc depth) of
                  Inl e \<Rightarrow> Inl e | Inr (xs, m) \<Rightarrow> Inr (JArray xs, m))
           | RecordObj plain props \<Rightarrow>
               if \<not> plain then Inl (invalid ''metadata objects must be plain records'')
               else (case visitMembers heap (a # active) [] members props (Suc depth) of
                  Inl e \<Rightarrow> Inl e | Inr (kvs, m) \<Rightarrow> Inr (JObject kvs, m))))"
| "visitElements heap active members [] depth = Inr ([], members)"
| "visitElements heap active members (element # rest) depth =
     (if members + 1 > maximumMetadataMembers then Inl (invalid ''metadata exceeds 1024 members'')
      else case element of
        Some (Data v) \<Rightarrow>
          (case visit heap active (members + 1) v depth of
             Inl e \<Rightarrow> Inl e
           | Inr (j, m) \<Rightarrow>
               (case visitElements heap active m rest depth of
                  Inl e \<Rightarrow> Inl e | Inr (xs, m') \<Rightarrow> Inr (j # xs, m')))
      | _ \<Rightarrow> Inl (invalid ''metadata arrays must be dense data''))"
| "visitMembers heap active frozen members [] depth = Inr ([], members)"
| "visitMembers heap active frozen members ((key, enumerable, property) # rest) depth =
     (if \<not> enumerable then visitMembers heap active frozen members rest depth
      else if members + 1 > maximumMetadataMembers then Inl (invalid ''metadata exceeds 1024 members'')
      else if \<not> isWellFormed key \<or> property = Accessor
           then Inl (invalid ''metadata members must be well-formed data properties'')
      else if property = Data Undefined then visitMembers heap active frozen (members + 1) rest depth
      else case property of
        Data v \<Rightarrow>
          (case visit heap active (members + 1) v depth of
             Inl e \<Rightarrow> Inl e
           | Inr (j, m) \<Rightarrow>
               if key \<in> set frozen then Inl (invalid ''permission request is invalid'')
               else (case visitMembers heap active (if key = protoKey then inheritedKeys j else frozen) m rest depth of
                  Inl e \<Rightarrow> Inl e
                | Inr (kvs, m') \<Rightarrow> Inr (assignMember key j kvs, m')))
      | Accessor \<Rightarrow> Inl (invalid ''metadata members must be well-formed data properties''))"
  by pat_completeness auto

termination
  by (relation "measures [\<lambda>x. case x of
         Inl (h, a, m, v, d) \<Rightarrow> Suc maximumMetadataDepth - d
       | Inr (Inl (h, a, m, es, d)) \<Rightarrow> Suc maximumMetadataDepth - d
       | Inr (Inr (h, a, f, m, ps, d)) \<Rightarrow> Suc maximumMetadataDepth - d,
       \<lambda>x. case x of
         Inl (h, a, m, v, d) \<Rightarrow> 0
       | Inr (Inl (h, a, m, es, d)) \<Rightarrow> Suc (length es)
       | Inr (Inr (h, a, f, m, ps, d)) \<Rightarrow> Suc (length ps)]") auto

declare visit.simps [simp del]

definition metadataSnapshot :: "(js_number \<Rightarrow> ustring) \<Rightarrow> js_heap \<Rightarrow> js_value \<Rightarrow> permission_error + json" where
  "metadataSnapshot numText heap input =
     (case visit heap [] 0 input 0 of
        Inl e \<Rightarrow> Inl e
      | Inr (snapshot, _) \<Rightarrow>
          (case snapshot of
             JObject kvs \<Rightarrow>
               if length (utf8 (stringify numText (ownJson snapshot))) > maximumMetadataBytes
               then Inl (invalid ''metadata exceeds 65536 bytes'') else Inr snapshot
           | _ \<Rightarrow> Inl (invalid ''metadata must be a record'')))"

definition validIdentity :: "ustring option \<Rightarrow> bool" where
  "validIdentity value =
     (case value of None \<Rightarrow> True
      | Some v \<Rightarrow> length v > 0 \<and> length v \<le> maximumIdentityLength \<and> isWellFormed v \<and> 0 \<notin> set v)"

section \<open>Envelopes\<close>

definition exactPattern :: "capability \<Rightarrow> capability_pattern" where
  "exactPattern c = \<lparr>pat_action = Exactly (cap_action c), pat_resource = cap_resource c\<rparr>"

datatype resolution = Once | Run | Remembered | Deny_request

definition isResolution :: "ustring \<Rightarrow> resolution option" where
  "isResolution value =
     (if value = js ''once'' then Some Once
      else if value = js ''run'' then Some Run
      else if value = js ''remembered'' then Some Remembered
      else if value = js ''deny'' then Some Deny_request
      else None)"

definition isEnvelopeScope :: "ustring \<Rightarrow> envelope_scope option" where
  "isEnvelopeScope value =
     (if value = js ''run'' then Some Run_scope
      else if value = js ''remembered'' then Some Remembered_scope else None)"

definition identity :: "capability_pattern \<Rightarrow> ustring" where
  "identity p = (case format_pattern p of Some s \<Rightarrow> s | None \<Rightarrow> [])"

text \<open>
  \<open>byIdentity\<close> is a JavaScript \<open>Map\<close>; the first pattern of an identity stays.  A snapshot that
  throws makes the whole call throw (\<open>None\<close>).
\<close>

fun collectIdentities ::
  "(ustring \<times> capability_pattern) list \<Rightarrow> capability_pattern list \<Rightarrow> (ustring \<times> capability_pattern) list option" where
  "collectIdentities byIdentity [] = Some byIdentity"
| "collectIdentities byIdentity (input # rest) =
     (case snapshotPattern input of
        None \<Rightarrow> None
      | Some p \<Rightarrow>
          collectIdentities
            (if map_of byIdentity (identity p) = None then jsmap_set byIdentity (identity p) p else byIdentity)
            rest)"

definition canonicalEnvelopePatterns :: "capability_pattern list \<Rightarrow> capability_pattern list option" where
  "canonicalEnvelopePatterns patterns =
     map_option (\<lambda>byIdentity. map (\<lambda>k. the (map_of byIdentity k)) (js_sort js_compare (map fst byIdentity)))
       (collectIdentities [] patterns)"

fun scope_text :: "envelope_scope \<Rightarrow> ustring" where
  "scope_text Run_scope = js ''run''"
| "scope_text Remembered_scope = js ''remembered''"

definition envelopeEncoding :: "ustring \<Rightarrow> envelope_scope \<Rightarrow> capability_pattern list \<Rightarrow> ustring option" where
  "envelopeEncoding planDigest scope patterns =
     map_option (\<lambda>canonical. stringify (\<lambda>_. [])
         (JObject [(js ''planDigest'', JString planDigest), (js ''scope'', JString (scope_text scope)),
                   (js ''patterns'', JArray (map (\<lambda>p. JString (identity p)) canonical))]))
       (canonicalEnvelopePatterns patterns)"

definition envelopeSignature :: "ustring \<Rightarrow> envelope_scope \<Rightarrow> capability_pattern list \<Rightarrow> ustring option" where
  "envelopeSignature planDigest scope patterns =
     (case envelopeEncoding planDigest scope patterns of
        None \<Rightarrow> None
      | Some text \<Rightarrow> (case digestSync (Text_input text) of
                        Inl _ \<Rightarrow> None | Inr d \<Rightarrow> Some (js ''sha256:'' @ d)))"

text \<open>\<open>decodeLegacy\<close> is the schema decoder of the legacy full-JSON identity.\<close>

definition normalizeEnvelopeSignature ::
  "(ustring \<Rightarrow> (ustring \<times> envelope_scope \<times> ustring list) option) \<Rightarrow> ustring \<Rightarrow> ustring" where
  "normalizeEnvelopeSignature decodeLegacy value =
     (if \<not> startsWith value (js ''{'') then value
      else if length value > maximumEventBytes \<or> length (utf8 value) > maximumEventBytes then value
      else case decodeLegacy value of
        None \<Rightarrow> value
      | Some (planDigest, scope, patterns) \<Rightarrow>
          if \<not> validIdentity (Some planDigest) then value
          else (case mapM parsePattern patterns of
             None \<Rightarrow> value
           | Some parsed \<Rightarrow>
               if envelopeEncoding planDigest scope parsed \<noteq> Some value then value
               else (case envelopeSignature planDigest scope parsed of None \<Rightarrow> value | Some s \<Rightarrow> s)))"

section \<open>Grant patterns\<close>

definition backslash :: code_unit where "backslash = 0x5c"

text \<open>\<open>workspaceRoot.replace(/[\\\\/]+$/, "")\<close>.\<close>

definition stripTrailing :: "ustring \<Rightarrow> ustring" where
  "stripTrailing root = rev (dropWhile (\<lambda>u. u = slash \<or> u = backslash) (rev root))"

text \<open>The constructor throws (\<open>None\<close>) when the root leaves no room for the suffix.\<close>

definition workspacePattern :: "ustring \<Rightarrow> capability_pattern option" where
  "workspacePattern workspaceRoot = make_pattern (Exactly FsWrite) (stripTrailing workspaceRoot @ js ''/**'')"

definition isValidGrantPattern :: "capability_pattern \<Rightarrow> capability \<Rightarrow> effect_tier \<Rightarrow> ustring \<Rightarrow> bool option" where
  "isValidGrantPattern p c t workspaceRoot =
     (if pat_action p \<noteq> Exactly (cap_action c) \<or> \<not> matches p c then Some False
      else if hasResourceWildcard (pat_resource p) \<and> pat_resource p = cap_resource c then Some False
      else if tierOf c workspaceRoot \<noteq> t then Some False
      else if cap_action c \<noteq> FsWrite then Some True
      else if t = Irreversible then Some (\<not> hasResourceWildcard (pat_resource p))
      else map_option (\<lambda>w. pat_resource p = workspaceRoot \<or> subsumes w p) (workspacePattern workspaceRoot))"

definition isValidEnvelopePattern :: "capability_pattern \<Rightarrow> ustring \<Rightarrow> bool option" where
  "isValidEnvelopePattern p workspaceRoot =
     (if star \<in> set (pattern_action_text (pat_action p)) then Some False
      else if pat_action p \<noteq> Exactly FsWrite \<or> \<not> hasResourceWildcard (pat_resource p) then Some True
      else map_option (\<lambda>w. subsumes w p) (workspacePattern workspaceRoot))"

section \<open>Snapshots are copies\<close>

lemma snapshotPattern_Some [simp]: "snapshotPattern p = Some q \<longleftrightarrow> q = p \<and> valid_pattern p"
  by (cases p) (auto simp: snapshotPattern_def make_pattern_def Let_def)

lemma snapshotPattern_valid: "valid_pattern p \<Longrightarrow> snapshotPattern p = Some p"
  by simp

lemma snapshotCapability_Some [simp]: "snapshotCapability c = Some d \<longleftrightarrow> d = c \<and> valid_capability c"
  by (cases c) (auto simp: snapshotCapability_def make_capability_def Let_def)

lemma snapshotRule_Some [simp]: "snapshotRule r = Some q \<longleftrightarrow> q = r \<and> valid_pattern (r_pattern r)"
  by (auto simp: snapshotRule_def)

lemma mapM_snapshotRule: "mapM snapshotRule rs = Some qs \<Longrightarrow> qs = rs \<and> (\<forall>r \<in> set rs. valid_pattern (r_pattern r))"
  by (induction rs arbitrary: qs) (auto split: option.splits simp: snapshotRule_Some)

section \<open>Envelope identities\<close>

lemma parse_identity: "valid_pattern p \<Longrightarrow> parsePattern (identity p) = Some p"
  using parsePattern_format_pattern[of p] unfolding identity_def
  by (metis bind.bind_lunit bind_eq_None_conv option.case_eq_if option.collapse option.distinct(1))

lemma identity_inject:
  assumes "valid_pattern p" "valid_pattern q" "identity p = identity q"
  shows "p = q"
  using parse_identity[OF assms(1)] parse_identity[OF assms(2)] unfolding assms(3) by (rule option.inject[THEN iffD1, OF trans[OF sym]])

definition identity_map :: "(ustring \<times> capability_pattern) list \<Rightarrow> bool" where
  "identity_map m = (distinct (map fst m) \<and> (\<forall>(k, p) \<in> set m. k = identity p \<and> valid_pattern p))"

lemma collectIdentities_spec:
  assumes "identity_map m" "collectIdentities m ps = Some n"
  shows "identity_map n \<and> snd ` set n = snd ` set m \<union> set ps \<and> (\<forall>p \<in> set ps. valid_pattern p)"
  using assms
proof (induction ps arbitrary: m)
  case (Cons p ps)
  then have v: "valid_pattern p" by (auto split: option.splits)
  let ?m = "if map_of m (identity p) = None then jsmap_set m (identity p) p else m"
  have m: "identity_map ?m \<and> snd ` set ?m = insert p (snd ` set m)"
  proof (cases "map_of m (identity p)")
    case None
    then have "identity p \<notin> set (map fst m)" by (simp add: map_of_eq_None_iff)
    with None v Cons.prems(1) show ?thesis by (auto simp: jsmap_set_append identity_map_def)
  next
    case (Some q)
    then have q: "(identity p, q) \<in> set m" by (rule map_of_SomeD)
    with Cons.prems(1) v have "q = p" by (auto simp: identity_map_def dest: identity_inject)
    with Some q Cons.prems(1) show ?thesis by force
  qed
  moreover have "collectIdentities ?m ps = Some n" using Cons.prems(2) snapshotPattern_valid[OF v] by (simp cong: if_cong)
  ultimately show ?case using Cons.IH[of ?m] v by auto
qed simp

lemma collectIdentities_valid: "(\<And>p. p \<in> set ps \<Longrightarrow> valid_pattern p) \<Longrightarrow> \<exists>n. collectIdentities m ps = Some n"
  by (induction ps arbitrary: m) (auto simp: snapshotPattern_valid simp del: snapshotPattern_Some)

lemma canonical_spec:
  assumes "canonicalEnvelopePatterns ps = Some qs"
  shows "set qs = set ps" "\<forall>p \<in> set ps. valid_pattern p" "map identity qs = js_sort js_compare (map identity qs)"
    "distinct (map identity qs)"
proof -
  obtain n where n: "collectIdentities [] ps = Some n"
    and qs: "qs = map (\<lambda>k. the (map_of n k)) (js_sort js_compare (map fst n))"
    using assms by (auto simp: canonicalEnvelopePatterns_def)
  have im: "identity_map n" and sn: "snd ` set n = set ps" and v: "\<forall>p \<in> set ps. valid_pattern p"
    using collectIdentities_spec[OF _ n] by (auto simp: identity_map_def)
  have lk: "map_of n k = Some p \<and> identity p = k" if "(k, p) \<in> set n" for k p
    using that im by (auto simp: identity_map_def)
  have ids: "identity (the (map_of n k)) = k" if "k \<in> fst ` set n" for k using that lk by force
  then have mi: "map identity qs = js_sort js_compare (map fst n)"
    unfolding qs map_map by (intro map_idI) auto
  show "set qs = set ps"
  proof
    show "set qs \<subseteq> set ps" using lk sn by (force simp: qs)
    show "set ps \<subseteq> set qs" unfolding sn[symmetric] qs using lk by (force simp: image_iff)
  qed
  show "\<forall>p \<in> set ps. valid_pattern p" by (fact v)
  show "distinct (map identity qs)" using im by (simp add: mi identity_map_def)
  show "map identity qs = js_sort js_compare (map identity qs)"
    unfolding mi by (rule str_cmp.js_sort_canonical) (use im in \<open>simp_all add: identity_map_def\<close>)
qed


lemma canonical_exists:
  "(\<forall>p \<in> set ps. valid_pattern p) \<Longrightarrow> \<exists>qs. canonicalEnvelopePatterns ps = Some qs"
  using collectIdentities_valid[of ps "[]"] by (auto simp: canonicalEnvelopePatterns_def)

lemma canonical_unique:
  assumes "canonicalEnvelopePatterns ps = Some qs" "canonicalEnvelopePatterns ps' = Some qs'"
    and "identity ` set ps = identity ` set ps'"
  shows "qs = qs'"
proof -
  note c = canonical_spec[OF assms(1)] and c' = canonical_spec[OF assms(2)]
  have "js_sort js_compare (map identity qs) = js_sort js_compare (map identity qs')"
    using c(1,4) c'(1,4) assms(3) by (intro str_cmp.js_sort_canonical) auto
  then have "map identity qs = map identity qs'" using c(3) c'(3) by simp
  moreover have "inj_on identity (set qs \<union> set qs')"
    using c c' by (auto simp: inj_on_def intro: identity_inject)
  ultimately show ?thesis by (simp add: inj_on_map_eq_map)
qed

lemma canonical_cong: "set ps = set ps' \<Longrightarrow> canonicalEnvelopePatterns ps = canonicalEnvelopePatterns ps'"
proof (cases "\<forall>p \<in> set ps. valid_pattern p")
  case True
  moreover assume "set ps = set ps'"
  ultimately show ?thesis using canonical_exists[of ps] canonical_exists[of ps'] canonical_unique by auto
next
  case False
  moreover assume "set ps = set ps'"
  ultimately have "canonicalEnvelopePatterns ps = None" "canonicalEnvelopePatterns ps' = None"
    using canonical_spec(2) by fastforce+
  then show ?thesis by simp
qed

lemma canonical_Nil [simp]: "canonicalEnvelopePatterns ps = Some [] \<longleftrightarrow> ps = []"
  using canonical_spec(1)[of ps "[]"] by (auto simp: canonicalEnvelopePatterns_def)

lemma canonical_idem: "canonicalEnvelopePatterns ps = Some qs \<Longrightarrow> canonicalEnvelopePatterns qs = Some qs"
  using canonical_cong[of qs ps] canonical_spec(1)[of ps qs] by simp

lemma canonical_length: "canonicalEnvelopePatterns ps = Some qs \<Longrightarrow> length qs \<le> length ps"
  using canonical_spec(1,4)[of ps qs] by (metis card_length distinct_card distinct_map)

section \<open>The envelope signature\<close>

lemma stringify_list_prefix:
  assumes "js_join (js '','') (map quoteJson xs) @ js '']'' @ r = js_join (js '','') (map quoteJson ys) @ js '']'' @ t"
  shows "xs = ys \<and> r = t"
  using assms
proof (induction xs arbitrary: ys)
  case Nil
  then show ?case by (cases ys) (auto simp: js_join_Cons js_lits quoteJson_def split: if_splits)
next
  case (Cons x xs)
  then obtain y ys' where ys: "ys = y # ys'" 
    by (cases ys) (auto simp: js_join_Cons js_lits quoteJson_def split: if_splits)
  define tail where "tail zs = (if zs = [] then [] else js '','' @ js_join (js '','') (map quoteJson zs))" for zs
  have t: "js_join (js '','') (map quoteJson (z # zs)) @ u = quoteJson z @ tail zs @ u" for z zs u
    by (simp add: js_join_Cons tail_def)
  have "x = y \<and> tail xs @ js '']'' @ r = tail ys' @ js '']'' @ t"
    using Cons.prems unfolding ys t by (rule quoteJson_prefix)
  moreover from this have "xs = [] \<longleftrightarrow> ys' = []"
    by (auto simp: tail_def js_lits split: if_splits)
  ultimately show ?case using Cons.IH[of ys'] ys by (cases "xs = []") (auto simp: tail_def)
qed

lemma envelopeEncoding_text:
  "envelopeEncoding d sc ps = map_option (\<lambda>qs.
     (js [CHR 0x7b] @ quoteJson (js ''planDigest'') @ js '':'') @ quoteJson d @
     (js '','' @ quoteJson (js ''scope'') @ js '':'') @ quoteJson (scope_text sc) @
     (js '','' @ quoteJson (js ''patterns'') @ js '':['') @
     js_join (js '','') (map quoteJson (map identity qs)) @ js '']'' @ js [CHR 0x7d]) (canonicalEnvelopePatterns ps)"
  by (simp add: envelopeEncoding_def js_lits comp_def)

lemma envelopeEncoding_inject:
  assumes "envelopeEncoding d sc ps = Some t" "envelopeEncoding d' sc' ps' = Some t"
  shows "d = d' \<and> sc = sc' \<and> set ps = set ps'"
proof -
  obtain qs where qs: "canonicalEnvelopePatterns ps = Some qs"
    using assms(1) by (auto simp: envelopeEncoding_def)
  obtain qs' where qs': "canonicalEnvelopePatterns ps' = Some qs'"
    using assms(2) by (auto simp: envelopeEncoding_def)
  have "d = d' \<and> scope_text sc = scope_text sc' \<and> map identity qs = map identity qs'"
    using assms unfolding envelopeEncoding_text qs qs' option.map option.inject
    by (metis quoteJson_prefix same_append_eq stringify_list_prefix)
  moreover have "scope_text sc = scope_text sc' \<Longrightarrow> sc = sc'"
    by (cases sc; cases sc') (auto simp: js_lits)
  moreover have "inj_on identity (set qs \<union> set qs')"
    using canonical_spec(1,2)[OF qs] canonical_spec(1,2)[OF qs'] by (auto simp: inj_on_def intro: identity_inject)
  ultimately show ?thesis
    using canonical_spec(1)[OF qs] canonical_spec(1)[OF qs'] by (metis inj_on_map_eq_map)
qed

lemma wellFormed_join: "(\<And>x. x \<in> set xs \<Longrightarrow> isWellFormed x) \<Longrightarrow> isWellFormed sep \<Longrightarrow> isWellFormed (js_join sep xs)"
  by (induction xs) (auto simp: js_join_Cons wellFormed_append)

lemma envelopeEncoding_wellFormed: "envelopeEncoding d sc ps = Some t \<Longrightarrow> isWellFormed t"
proof -
  have w: "isWellFormed (js_join (js '','') (map quoteJson xs))" for xs
    by (rule wellFormed_join) (auto simp: quoteJson_wellFormed js_lits isHigh_def isLow_def)
  have l: "isWellFormed (js [CHR 0x7b])" "isWellFormed (js '':'')" "isWellFormed (js '','')" "isWellFormed (js '':['')"
    "isWellFormed (js '']'')" "isWellFormed (js [CHR 0x7d])"
    by (auto simp: js_lits isHigh_def isLow_def)
  show "envelopeEncoding d sc ps = Some t \<Longrightarrow> ?thesis"
    unfolding envelopeEncoding_text by (auto simp del: append_assoc map_map simp: wellFormed_append quoteJson_wellFormed w l)
qed

lemma envelopeSignature_Some:
  assumes "\<forall>p \<in> set ps. valid_pattern p"
  obtains t where "envelopeEncoding d sc ps = Some t"
    "envelopeSignature d sc ps = Some (js ''sha256:'' @ encodeHex (sha256 (utf8 t)))"
proof -
  obtain t where t: "envelopeEncoding d sc ps = Some t"
    using canonical_exists[OF assms] by (auto simp: envelopeEncoding_def)
  then show thesis
    using that[OF t] envelopeEncoding_wellFormed[OF t]
    by (simp add: envelopeSignature_def digestSync_def snapshotSync_def)
qed

lemma envelopeSignature_None: "envelopeSignature d sc ps = None \<longleftrightarrow> (\<exists>p \<in> set ps. \<not> valid_pattern p)"
proof
  assume "envelopeSignature d sc ps = None"
  then show "\<exists>p \<in> set ps. \<not> valid_pattern p" by (metis envelopeSignature_Some option.distinct(1))
next
  assume "\<exists>p \<in> set ps. \<not> valid_pattern p"
  then have "canonicalEnvelopePatterns ps = None"
    using canonical_spec(2)[of ps] by (cases "canonicalEnvelopePatterns ps") auto
  then show "envelopeSignature d sc ps = None" by (simp add: envelopeSignature_def envelopeEncoding_def)
qed

lemma envelopeSignature_cong:
  "set ps = set ps' \<Longrightarrow> envelopeSignature d sc ps = envelopeSignature d sc ps'"
  using canonical_cong[of ps ps'] by (simp add: envelopeSignature_def envelopeEncoding_def)

text \<open>A signature is a valid identity and is not taken for a legacy JSON identity.\<close>

lemma envelopeSignature_identity:
  assumes "envelopeSignature d sc ps = Some s"
  shows "validIdentity (Some s)" "normalizeEnvelopeSignature decodeLegacy s = s"
proof -
  obtain t where s: "s = js ''sha256:'' @ encodeHex (sha256 (utf8 t))"
    using assms envelopeSignature_None[of d sc ps] envelopeSignature_Some[of ps d sc] by (metis option.distinct(1) option.inject)
  have hex: "digestPattern (encodeHex (sha256 (utf8 t)))" by (simp add: encodeHex_pattern sha256_length)
  then have "\<forall>u \<in> set s. \<not> isHigh u \<and> \<not> isLow u \<and> u \<noteq> 0"
    unfolding s digestPattern_def by (auto simp: js_lits isHigh_def isLow_def)
  moreover have "length s = 71" using hex by (simp add: s digestPattern_def)
  ultimately show "validIdentity (Some s)"
    by (auto simp: validIdentity_def maximumIdentityLength_def intro: wellFormed_plain)
  show "normalizeEnvelopeSignature decodeLegacy s = s"
    by (simp add: normalizeEnvelopeSignature_def s startsWith_def js_lits)
qed

section \<open>Metadata snapshots\<close>

lemma json_depth_list: "json_depth (JArray xs) \<le> n \<longleftrightarrow> (\<forall>x \<in> set xs. Suc (json_depth x) \<le> n)"
  by (induction xs) auto

lemma json_depth_members: "json_depth (JObject kvs) \<le> n \<longleftrightarrow> (\<forall>kv \<in> set kvs. Suc (json_depth (snd kv)) \<le> n)"
  by (induction kvs) auto

definition visited :: "nat \<Rightarrow> nat \<Rightarrow> json \<Rightarrow> nat \<Rightarrow> bool" where
  "visited members depth j m = (json_clean j \<and> depth + json_depth j \<le> maximumMetadataDepth
     \<and> members + json_members j \<le> m \<and> (m \<le> maximumMetadataMembers \<or> m = members))"

definition visited_all :: "nat \<Rightarrow> nat \<Rightarrow> json list \<Rightarrow> nat \<Rightarrow> bool" where
  "visited_all members depth xs m = ((\<forall>x \<in> set xs. json_clean x \<and> depth + json_depth x \<le> maximumMetadataDepth)
     \<and> members + sum_list (map (\<lambda>x. Suc (json_members x)) xs) \<le> m \<and> (m \<le> maximumMetadataMembers \<or> m = members))"

lemma visited_array:
  "visited_all members (Suc depth) xs m \<Longrightarrow> depth \<le> maximumMetadataDepth \<Longrightarrow> visited members depth (JArray xs) m"
proof -
  assume v: "visited_all members (Suc depth) xs m" and d: "depth \<le> maximumMetadataDepth"
  then have "json_depth (JArray xs) \<le> maximumMetadataDepth - depth"
    unfolding json_depth_list visited_all_def by auto
  with v d show ?thesis by (simp add: visited_def visited_all_def list_all_iff comp_def del: json_depth.simps)
qed

lemma json_members_object: "json_members (JObject kvs) = sum_list (map (\<lambda>x. Suc (json_members x)) (map snd kvs))"
  by (induction kvs) auto

lemma visited_object:
  assumes "visited_all members (Suc depth) (map snd kvs) m" "depth \<le> maximumMetadataDepth"
    and "\<forall>k \<in> set (map fst kvs). isWellFormed k"
  shows "visited members depth (JObject kvs) m"
proof -
  have "json_depth (JObject kvs) \<le> maximumMetadataDepth - depth"
    unfolding json_depth_members using assms(1) unfolding visited_all_def by auto
  with assms show ?thesis
    unfolding visited_def visited_all_def json_members_object
    by (auto simp: list_all_iff simp del: json_depth.simps)
qed

lemma visited_Cons:
  "visited (Suc members) depth j m \<Longrightarrow> visited_all m depth xs m' \<Longrightarrow> Suc members \<le> maximumMetadataMembers \<Longrightarrow>
   visited_all members depth (j # xs) m'"
  by (auto simp: visited_def visited_all_def)

lemma visited_skip:
  "visited (Suc members) depth j m \<Longrightarrow> visited_all m depth xs m' \<Longrightarrow> Suc members \<le> maximumMetadataMembers \<Longrightarrow>
   visited_all members depth xs m'"
  by (auto simp: visited_def visited_all_def)

lemma visit_sound:
  "visit heap active members value depth = Inr (j, m) \<Longrightarrow> visited members depth j m"
  "visitElements heap active members es depth = Inr (xs, m) \<Longrightarrow> visited_all members depth xs m"
  "visitMembers heap active frozen members ps depth = Inr (kvs, m) \<Longrightarrow>
     visited_all members depth (map snd kvs) m \<and> (\<forall>k \<in> set (map fst kvs). isWellFormed k)"
proof (induction heap active members "value" depth and heap active members es depth and heap active frozen members ps depth
    arbitrary: j m and xs m and kvs m rule: visit_visitElements_visitMembers.induct)
  case (1 heap active members "value" depth)
  show ?case
  proof (cases "value")
    case (Ref a)
    with "1.prems" have g: "\<not> maximumMetadataDepth < depth" "a \<notin> set active" by (auto simp: visit.simps split: if_splits)
    show ?thesis
    proof (cases "heap a")
      case (ArrayObj es)
      then show ?thesis using "1.prems" "1.IH"(1)[OF g(1) Ref g(2) ArrayObj] g Ref
        by (auto simp: visit.simps split: sum.splits intro!: visited_array)
    next
      case (RecordObj plain props)
      then have p: "plain" using "1.prems" g Ref by (auto simp: visit.simps split: if_splits)
      with RecordObj show ?thesis using "1.prems" "1.IH"(2)[OF g(1) Ref g(2) RecordObj] g Ref
        by (auto simp: visit.simps split: sum.splits if_splits intro!: visited_object)
    qed
  qed (use "1.prems" in \<open>auto simp: visit.simps visited_def split: if_splits\<close>)
next
  case (2 heap active members depth)
  then show ?case by (simp add: visited_all_def)
next
  case (3 heap active members element rest depth)
  then obtain v j' m' xs' where
    g: "\<not> maximumMetadataMembers < members + 1" and e: "element = Some (Data v)"
    and j: "visit heap active (members + 1) v depth = Inr (j', m')"
    and r: "visitElements heap active m' rest depth = Inr (xs', m)" and xs: "xs = j' # xs'"
    by (auto split: if_splits option.splits js_property.splits sum.splits)
  show ?case unfolding xs
    using "3.IH"(1)[OF g e refl j] "3.IH"(2)[OF g e refl j refl r] g by (auto intro: visited_Cons)
next
  case (4 heap active frozen members depth)
  then show ?case by (simp add: visited_all_def)
next
  case (5 heap active frozen members key enumerable property rest depth)
  show ?case
  proof (cases "\<not> enumerable \<or> property = Data Undefined")
    case True
    with 5 show ?thesis by (auto split: if_splits simp: visited_all_def)
  next
    case False
    then obtain v where v: "property = Data v" "v \<noteq> Undefined" "enumerable"
      using "5.prems" by (cases property) (auto split: if_splits)
    with "5.prems" obtain j' m' kvs' where
      j: "visit heap active (members + 1) v depth = Inr (j', m')" and
      r: "visitMembers heap active (if key = protoKey then inheritedKeys j' else frozen) m' rest depth = Inr (kvs', m)" and
      g: "\<not> maximumMetadataMembers < members + 1" "isWellFormed key" "kvs = assignMember key j' kvs'" "key \<notin> set frozen"
      by (auto split: if_splits sum.splits prod.splits)
    from g v have c: "\<not> \<not> enumerable" "\<not> maximumMetadataMembers < members + 1" 
      "\<not> (\<not> isWellFormed key \<or> property = Accessor)" "property \<noteq> Data Undefined" by auto
    have "visited (members + 1) depth j' m'" using "5.IH"(3)[OF c v(1) j] .
    moreover have "visited_all m' depth (map snd kvs') m \<and> (\<forall>k \<in> set (map fst kvs'). isWellFormed k)"
      using "5.IH"(4)[OF c v(1) j refl g(4) r] .
    ultimately show ?thesis using g by (auto simp: assignMember_def intro: visited_Cons visited_skip)
  qed
qed

lemma metadataSnapshot_sound:
  assumes "metadataSnapshot numText heap input = Inr j"
  shows "json_clean j" "json_depth j \<le> maximumMetadataDepth" "json_members j \<le> maximumMetadataMembers"
    "length (utf8 (stringify numText (ownJson j))) \<le> maximumMetadataBytes" "\<exists>kvs. j = JObject kvs"
proof -
  obtain m where v: "visit heap [] 0 input 0 = Inr (j, m)"
    and o: "length (utf8 (stringify numText (ownJson j))) \<le> maximumMetadataBytes" "\<exists>kvs. j = JObject kvs"
    using assms by (auto simp: metadataSnapshot_def split: sum.splits json.splits if_splits)
  have "visited 0 0 j m" using v by (rule visit_sound(1))
  then show "json_clean j" "json_depth j \<le> maximumMetadataDepth" "json_members j \<le> maximumMetadataMembers"
    by (auto simp: visited_def)
  show "length (utf8 (stringify numText (ownJson j))) \<le> maximumMetadataBytes" "\<exists>kvs. j = JObject kvs"
    using o by auto
qed

text \<open>
  A value of the heap that is the tree \<open>j\<close>: dense arrays, plain records with enumerable
  well-formed own data properties, no key \<open>__proto__\<close>.
\<close>

inductive represents :: "js_heap \<Rightarrow> js_value \<Rightarrow> json \<Rightarrow> bool" for heap where
  null: "represents heap Null JNull"
| bool: "represents heap (Boolean b) (JBool b)"
| number: "isFiniteNumber n \<Longrightarrow> represents heap (Number n) (JNumber n)"
| string: "isWellFormed s \<Longrightarrow> length s \<le> maximumMetadataBytes \<Longrightarrow> represents heap (Str s) (JString s)"
| array: "heap a = ArrayObj (map (\<lambda>v. Some (Data v)) vs) \<Longrightarrow> list_all2 (represents heap) vs xs \<Longrightarrow>
    represents heap (Ref a) (JArray xs)"
| object: "heap a = RecordObj True (map (\<lambda>(k, v). (k, True, Data v)) kvs) \<Longrightarrow>
    list_all2 (\<lambda>kv kx. fst kv = fst kx \<and> isWellFormed (fst kv) \<and> fst kv \<noteq> protoKey \<and> represents heap (snd kv) (snd kx)) kvs kxs \<Longrightarrow>
    represents heap (Ref a) (JObject kxs)"

lemma represents_fun: "represents heap v j \<Longrightarrow> represents heap v j' \<Longrightarrow> j = j'"
proof (induction arbitrary: j' rule: represents.induct)
  case (array a vs xs)
  note IH = array.IH
  have "inj (\<lambda>v. Some (Data v))" by (simp add: inj_def)
  from array.prems show ?case
  proof (cases rule: represents.cases)
    case (array vs' xs')
    then have "vs = vs'" using \<open>heap a = ArrayObj (map (\<lambda>v. Some (Data v)) vs)\<close> by (simp add: inj_map_eq_map[OF \<open>inj (\<lambda>v. Some (Data v))\<close>])
    with array IH show ?thesis by (auto simp: list_all2_conv_all_nth intro!: nth_equalityI)
  qed (use array.hyps in simp)
next
  case (object a kvs kxs)
  note IH = object.IH and heap = object.hyps(1)
  have inj: "inj (\<lambda>(k, v). (k, True, Data v) :: ustring \<times> bool \<times> js_property)" by (auto simp: inj_def)
  from object.prems show ?case
  proof (cases rule: represents.cases)
    case (object kvs' kxs')
    then have "kvs = kvs'" using heap by (simp add: inj_map_eq_map[OF inj])
    with object IH show ?thesis by (auto simp: list_all2_conv_all_nth prod_eq_iff intro!: nth_equalityI)
  qed (use object.hyps in simp)
qed (auto elim: represents.cases)

definition fresh_for :: "js_heap \<Rightarrow> nat list \<Rightarrow> json \<Rightarrow> bool" where
  "fresh_for heap active j = (\<forall>b \<in> set active. \<forall>j'. represents heap (Ref b) j' \<longrightarrow> size j < size j')"

lemma fresh_element:
  assumes "fresh_for heap active j" "represents heap (Ref a) j" "size x < size j"
  shows "fresh_for heap (a # active) x"
  unfolding fresh_for_def
proof (intro ballI allI impI)
  fix b j' assume b: "b \<in> set (a # active)" and j': "represents heap (Ref b) j'"
  show "size x < size j'"
  proof (cases "b = a")
    case True
    with j' assms(2,3) show ?thesis using represents_fun[of heap "Ref a" j j'] by simp
  next
    case False
    with b j' assms(1,3) show ?thesis unfolding fresh_for_def by fastforce
  qed
qed

lemma not_active: "fresh_for heap active j \<Longrightarrow> represents heap (Ref a) j \<Longrightarrow> a \<notin> set active"
  unfolding fresh_for_def by blast

lemma visitElements_exact:
  assumes "list_all2 (\<lambda>v x. \<forall>members. members + json_members x \<le> maximumMetadataMembers \<longrightarrow>
       visit heap active members v depth = Inr (x, members + json_members x)) vs xs"
    and "members + json_members (JArray xs) \<le> maximumMetadataMembers"
  shows "visitElements heap active members (map (\<lambda>v. Some (Data v)) vs) depth = Inr (xs, members + json_members (JArray xs))"
  using assms by (induction vs xs arbitrary: members rule: list_all2_induct) auto

lemma visitMembers_exact:
  assumes "list_all2 (\<lambda>kv kx. fst kv = fst kx \<and> isWellFormed (fst kv) \<and> fst kv \<noteq> protoKey \<and> snd kv \<noteq> Undefined \<and>
       (\<forall>members. members + json_members (snd kx) \<le> maximumMetadataMembers \<longrightarrow>
       visit heap active members (snd kv) depth = Inr (snd kx, members + json_members (snd kx)))) kvs kxs"
    and "members + json_members (JObject kxs) \<le> maximumMetadataMembers"
  shows "visitMembers heap active [] members (map (\<lambda>(k, v). (k, True, Data v)) kvs) depth
     = Inr (kxs, members + json_members (JObject kxs))"
  using assms
proof (induction kvs kxs arbitrary: members rule: list_all2_induct)
  case (Cons kv kvs kx kxs)
  obtain k v x where "kv = (k, v)" "kx = (k, x)" using Cons.hyps(1) by (cases kv; cases kx) auto
  with Cons show ?case by (auto simp: assignMember_def)
qed simp

lemma represents_not_Undefined: "represents heap v j \<Longrightarrow> v \<noteq> Undefined"
  by (auto elim: represents.cases)

lemma size_array_element: "x \<in> set xs \<Longrightarrow> size x < size (JArray xs)"
  by (induction xs) auto

lemma size_object_member: "kx \<in> set kxs \<Longrightarrow> size (snd kx) < size (JObject kxs)"
  by (induction kxs) (auto simp: prod.size_gen)

lemma visit_exact:
  assumes "represents heap v j" "fresh_for heap active j" "depth + json_depth j \<le> maximumMetadataDepth"
    and "members + json_members j \<le> maximumMetadataMembers"
  shows "visit heap active members v depth = Inr (j, members + json_members j)"
  using assms
proof (induction arbitrary: active depth members rule: represents.induct)
  case (array a vs xs)
  then have r: "represents heap (Ref a) (JArray xs)"
    by (auto intro!: represents.array elim: list_all2_mono)
  have "\<forall>x \<in> set xs. Suc (json_depth x) \<le> maximumMetadataDepth - depth"
    using array.prems(2) unfolding json_depth_list[symmetric] by simp
  then have d: "\<forall>x \<in> set xs. Suc depth + json_depth x \<le> maximumMetadataDepth" by auto
  have "visitElements heap (a # active) members (map (\<lambda>v. Some (Data v)) vs) (Suc depth)
      = Inr (xs, members + json_members (JArray xs))"
  proof (rule visitElements_exact[OF _ array.prems(3)])
    show "list_all2 (\<lambda>v x. \<forall>members. members + json_members x \<le> maximumMetadataMembers \<longrightarrow>
       visit heap (a # active) members v (Suc depth) = Inr (x, members + json_members x)) vs xs"
      using array.IH
      by (rule list.rel_mono_strong) (use fresh_element[OF array.prems(1) r size_array_element] d in blast)
  qed
  then show ?case using array.hyps array.prems(2) not_active[OF array.prems(1) r] by (simp add: visit.simps)
next
  case (object a kvs kxs)
  then have r: "represents heap (Ref a) (JObject kxs)"
    by (auto intro!: represents.object elim: list_all2_mono)
  have "\<forall>kx \<in> set kxs. Suc (json_depth (snd kx)) \<le> maximumMetadataDepth - depth"
    using object.prems(2) unfolding json_depth_members[symmetric] by simp
  then have d: "\<forall>kx \<in> set kxs. Suc depth + json_depth (snd kx) \<le> maximumMetadataDepth" by auto
  have "visitMembers heap (a # active) [] members (map (\<lambda>(k, v). (k, True, Data v)) kvs) (Suc depth)
      = Inr (kxs, members + json_members (JObject kxs))"
  proof (rule visitMembers_exact[OF _ object.prems(3)])
    show "list_all2 (\<lambda>kv kx. fst kv = fst kx \<and> isWellFormed (fst kv) \<and> fst kv \<noteq> protoKey \<and> snd kv \<noteq> Undefined \<and>
       (\<forall>members. members + json_members (snd kx) \<le> maximumMetadataMembers \<longrightarrow>
       visit heap (a # active) members (snd kv) (Suc depth) = Inr (snd kx, members + json_members (snd kx)))) kvs kxs"
      using object.IH
      by (rule list.rel_mono_strong)
        (use fresh_element[OF object.prems(1) r size_object_member] d represents_not_Undefined in blast)
  qed
  then show ?case using object.hyps object.prems(2) not_active[OF object.prems(1) r] by (simp add: visit.simps)
qed (auto simp: visit.simps)

lemma ownJson_id: "\<not> exotic j \<Longrightarrow> ownJson j = j"
proof (induction j)
  case (JObject kvs)
  have "filter (\<lambda>(k, v). k \<noteq> protoKey) kvs = kvs"
    using JObject.prems by (auto simp: list_ex_iff intro!: filter_True)
  moreover have "map (\<lambda>(k, v). (k, ownJson v)) kvs = kvs"
    using JObject.prems JObject.IH by (intro map_idI) (fastforce simp: list_ex_iff)
  ultimately show ?case by simp
qed (auto simp: list_ex_iff intro: map_idI)

lemma represents_not_exotic: "represents heap v j \<Longrightarrow> \<not> exotic j"
  by (induction rule: represents.induct)
     (auto simp: list_ex_iff list_all2_conv_all_nth in_set_conv_nth; metis fst_conv snd_conv)+

lemma metadataSnapshot_exact:
  assumes "represents heap v (JObject kvs)" "json_depth (JObject kvs) \<le> maximumMetadataDepth"
    "json_members (JObject kvs) \<le> maximumMetadataMembers"
    "length (utf8 (stringify numText (JObject kvs))) \<le> maximumMetadataBytes"
  shows "metadataSnapshot numText heap v = Inr (JObject kvs)"
proof -
  have "fresh_for heap [] (JObject kvs)" by (simp add: fresh_for_def)
  then have "visit heap [] 0 v 0 = Inr (JObject kvs, 0 + json_members (JObject kvs))"
    using assms by (intro visit_exact) (simp_all del: json_depth.simps json_members.simps)
  moreover have "ownJson (JObject kvs) = JObject kvs"
    using represents_not_exotic[OF assms(1)] by (rule ownJson_id)
  ultimately show ?thesis using assms(4) by (simp add: metadataSnapshot_def del: ownJson.simps stringify.simps)
qed

section \<open>Grant patterns keep the action and the tier\<close>

lemma matches_valid_no_wildcard:
  "matches p c \<Longrightarrow> \<not> hasResourceWildcard (pat_resource p) \<Longrightarrow> valid_capability c \<Longrightarrow> valid_pattern p \<Longrightarrow>
   cap_resource c = pat_resource p"
  by (simp add: matches_def matchesResource_no_wildcard valid_capability_def valid_pattern_def)

lemma glob_literal_head:
  "\<not> hasResourceWildcard q \<Longrightarrow> glob (q @ p) r \<Longrightarrow> \<exists>x. r = q @ x \<and> glob p x"
proof (induction q arbitrary: r)
  case (Cons c q)
  then obtain y r' where "r = y # r'" by (cases r) (auto simp: hasResourceWildcard_def)
  with Cons show ?case by (auto simp: hasResourceWildcard_def)
qed simp

lemma workspacePattern_covers:
  assumes "workspacePattern root = Some w" "matches w c" "\<not> hasResourceWildcard root"
  shows "\<exists>x. cap_resource c = stripTrailing root @ slash # x"
proof -
  have w: "w = \<lparr>pat_action = Exactly FsWrite, pat_resource = (stripTrailing root @ [slash]) @ [star, star]\<rparr>"
    using assms(1) by (auto simp: workspacePattern_def make_pattern_def Let_def recursive_units split: if_splits)
  have "set (stripTrailing root) \<subseteq> set root"
    unfolding stripTrailing_def using set_dropWhileD by fastforce
  moreover have "slash \<noteq> question" by (simp add: slash_def question_def js_lits)
  ultimately have lit: "\<not> hasResourceWildcard (stripTrailing root @ [slash])"
    using assms(3) recursive_units(5) by (auto simp: hasResourceWildcard_def)
  have "\<not> endsWith (y @ [star, star]) (js '' *'')" for y
    by (auto simp: endsWith_def suffix_def recursive_units star_def js_lits)
  then have "glob ((stripTrailing root @ [slash]) @ [star, star]) (cap_resource c)"
    using assms(2) unfolding w matches_def matchesResource_iff capability_pattern.simps by blast
  then show ?thesis using glob_literal_head[OF lit] by fastforce
qed

lemma lexicalSegments_skip:
  "\<forall>x \<in> set xs. x = [] \<Longrightarrow> lexicalSegments a acc xs = acc"
  by (induction xs) auto

lemma stripTrailing_split:
  assumes "backslash \<notin> set root"
  obtains n where "root = stripTrailing root @ replicate n slash"
proof -
  have "takeWhile (\<lambda>u. u = slash \<or> u = backslash) (rev root) @ dropWhile (\<lambda>u. u = slash \<or> u = backslash) (rev root) = rev root"
    by simp
  then have r: "root = stripTrailing root @ rev (takeWhile (\<lambda>u. u = slash \<or> u = backslash) (rev root))"
    unfolding stripTrailing_def rev_append[symmetric] by (simp only: rev_rev_ident)
  have "\<forall>u \<in> set (takeWhile (\<lambda>u. u = slash \<or> u = backslash) (rev root)). u = slash"
    using assms by (auto dest!: set_takeWhileD)
  then have "rev (takeWhile (\<lambda>u. u = slash \<or> u = backslash) (rev root)) = replicate (length (takeWhile (\<lambda>u. u = slash \<or> u = backslash) (rev root))) slash"
    by (intro replicate_eqI) auto
  with r show thesis by (intro that) simp
qed

lemma split_replicate: "x \<in> set (js_split c (replicate n c)) \<Longrightarrow> x = []"
  by (induction n arbitrary: x) auto

lemma split_trailing: "js_split slash (u @ replicate n slash) = js_split slash u @ (if n = 0 then [] else js_split slash (replicate (n - 1) slash))"
  by (cases n) (auto simp: js_split_append_sep)

lemma below_root_inside:
  assumes root: "isAbsolutePath root" "backslash \<notin> set root"
    and r: "r = stripTrailing root @ slash # x" "lexicalPath r = r"
  shows "isInsideWorkspace r root"
proof -
  obtain n where n: "root = stripTrailing root @ replicate n slash" using stripTrailing_split[OF root(2)] .
  obtain t where t: "root = slash # t" using root(1) by (auto simp: isAbsolutePath_def path_units elim: startsWithE)
  have "prefix (absSegs root) (absSegs r)"
  proof (cases "stripTrailing root")
    case Nil
    then have "root = replicate n slash" using n by simp
    then have "absSegs root = []"
      using split_replicate[of _ slash "n - 1"] by (auto simp: absSegs_def intro: lexicalSegments_skip)
    then show ?thesis by simp
  next
    case (Cons s u)
    then have s: "s = slash" using n t by simp
    have rr: "r = slash # (u @ slash # x)" using r(1) Cons s by simp
    have nr: "normal_segments True (absSegs r)" by (simp add: absSegs_def normal_of_split)
    have "js_join [slash] (absSegs r) = u @ slash # x"
      using r(2) unfolding rr lexicalPath_absolute by (simp add: absSegs_def)
    moreover from this have "absSegs r \<noteq> []" by auto
    ultimately have ar: "absSegs r = js_split slash u @ js_split slash x"
      using split_join_normal[OF nr] by (simp add: js_split_append_sep)
    then have p: "\<forall>y \<in> set (js_split slash u). proper y" using nr by (auto simp: normal_absolute)
    have "root = slash # (u @ replicate n slash)" using n Cons s by simp
    then have "absSegs root = lexicalSegments True [] (js_split slash u @ (if n = 0 then [] else js_split slash (replicate (n - 1) slash)))"
      by (simp add: absSegs_def split_trailing)
    also have "\<dots> = js_split slash u"
      using split_replicate[of _ slash "n - 1"]
      by (auto simp: lexicalSegments_append lexicalSegments_proper[OF p] intro: lexicalSegments_skip)
    finally show ?thesis using ar by simp
  qed
  moreover have "isAbsolutePath r"
    using r(1) n t by (cases "stripTrailing root") (auto simp: isAbsolutePath_def path_units startsWith_def)
  ultimately show ?thesis using isInsideWorkspace_iff[OF root(1)] by (simp add: resolvedSegs_def)
qed

lemma root_inside: "isAbsolutePath root \<Longrightarrow> isInsideWorkspace root root"
  by (simp add: isInsideWorkspace_iff resolvedSegs_def)

lemma tierOf_action: "cap_action c = cap_action d \<Longrightarrow> cap_action c \<noteq> FsWrite \<Longrightarrow> tierOf c root = tierOf d root"
  by (simp add: tierOf_def split: action.splits)

lemma tierOf_write: "cap_action c = FsWrite \<Longrightarrow> tierOf c root = (if isInsideWorkspace (cap_resource c) root then Compensable else Irreversible)"
  by (simp add: tierOf_def)

definition plainRoot :: "ustring \<Rightarrow> bool" where
  "plainRoot root = (isAbsolutePath root \<and> \<not> hasResourceWildcard root \<and> backslash \<notin> set root)"

lemma workspacePattern_valid: "workspacePattern root = Some w \<Longrightarrow> valid_pattern w"
  by (auto simp: workspacePattern_def make_pattern_def Let_def split: if_splits)

lemma subsumed_inside:
  assumes "plainRoot root" "workspacePattern root = Some w" "subsumes w p" "matches p c" "valid_capability c"
    and "lexicalPath (cap_resource c) = cap_resource c"
  shows "isInsideWorkspace (cap_resource c) root"
  using workspacePattern_covers[OF assms(2) subsumes_matches[OF assms(3,4) workspacePattern_valid[OF assms(2)] assms(5)]]
    below_root_inside[OF _ _ _ assms(6)] assms(1) by (auto simp: plainRoot_def)

lemma grant_pattern_tier:
  assumes "isValidGrantPattern p c t root = Some True" "matches p d"
    and "valid_pattern p" "valid_capability c" "valid_capability d" "plainRoot root"
    and "cap_action c = FsWrite \<longrightarrow> lexicalPath (cap_resource d) = cap_resource d"
  shows "cap_action d = cap_action c \<and> tierOf d root = t"
proof -
  have pa: "pat_action p = Exactly (cap_action c)" and m: "matches p c" and t: "tierOf c root = t"
    using assms(1) by (auto simp: isValidGrantPattern_def split: if_splits)
  have a: "cap_action d = cap_action c"
    using assms(2) pa by (auto simp: matches_def matchesAction_exact)
  have "tierOf d root = t"
  proof (cases "cap_action c = FsWrite")
    case False
    with a t show ?thesis using tierOf_action[of d c] by simp
  next
    case w: True
    have same: "tierOf d root = t" if "\<not> hasResourceWildcard (pat_resource p)"
      using matches_valid_no_wildcard[OF assms(2) that assms(5,3)] matches_valid_no_wildcard[OF m that assms(4,3)] a t
      by (simp add: w tierOf_write)
    show ?thesis
    proof (cases "hasResourceWildcard (pat_resource p)")
      case True
      then have ti: "t \<noteq> Irreversible" "t = Compensable"
        using assms(1) t w tierOf_write[OF w, of root] by (auto simp: isValidGrantPattern_def split: if_splits)
      then obtain q where "workspacePattern root = Some q" "pat_resource p = root \<or> subsumes q p"
        using assms(1) w by (auto simp: isValidGrantPattern_def split: if_splits)
      moreover have "pat_resource p \<noteq> root" using True assms(6) by (auto simp: plainRoot_def)
      ultimately have "isInsideWorkspace (cap_resource d) root"
        using subsumed_inside assms w by blast
      with ti a w show ?thesis by (simp add: tierOf_write)
    qed (rule same)
  qed
  with a show ?thesis by simp
qed

lemma envelope_pattern_tier:
  assumes "isValidEnvelopePattern p root = Some True" "matches p d" "hasResourceWildcard (pat_resource p)"
    and "valid_capability d" "plainRoot root" "lexicalPath (cap_resource d) = cap_resource d" "cap_action d = FsWrite"
  shows "tierOf d root = Compensable"
proof -
  have "pat_action p \<noteq> AnyAction \<and> (\<forall>a. pat_action p \<noteq> family a)"
  proof -
    have "star \<in> set (pattern_action_text AnyAction)" "\<And>a. star \<in> set (pattern_action_text (family a))"
      by (auto simp: star_def js_lits split: action.splits) (case_tac a; simp add: js_lits)
    then show ?thesis using assms(1) by (auto simp: isValidEnvelopePattern_def)
  qed
  then have "pat_action p = Exactly FsWrite"
    using assms(2,7) unfolding matches_def matchesAction_iff by metis
  then obtain w where "workspacePattern root = Some w" "subsumes w p"
    using assms(1,3) by (auto simp: isValidEnvelopePattern_def split: if_splits)
  then show ?thesis using subsumed_inside assms by (auto simp: tierOf_write)
qed

end
