(* ===== verification/Grant_Store.thy ===== *)
theory Grant_Store
  imports Grant_Validation
begin

text \<open>
  The in-memory grant store (\<open>packages/smithers/flows/kernel/src/GrantStore.ts\<close>, \<open>make\<close>).

  The mutable variables of the closure built by \<open>make\<close> are the fields of the record
  \<open>grant_store\<close>.  Every operation runs under the store's one-permit semaphore, so each is one atomic
  transition.  The Deferred of a parked request is named by its request id; \<open>settled\<close> holds
  what the Deferreds were completed with.  The persistence hook is the parameter \<open>persist\<close>; the
  events it accepted are collected in the field \<open>journal\<close>.  The size of the encoded event is
  the parameter \<open>eventBytes\<close>.  The capability ceiling of the calling fiber (\<open>yield* current\<close>) is an
  argument of the operations that read it.
\<close>

section \<open>State\<close>

text \<open>A typed failure of an operation, or a defect (an exception that is no failure of the operation).\<close>

datatype fault = Fail permission_error | Die

datatype waiter_outcome = Granted | Refused permission_error

record pending_entry =
  pe_requestId :: ustring
  pe_capability :: capability
  pe_tier :: effect_tier
  pe_meta :: json
  pe_ceiling :: capability_set

text \<open>\<open>rr_initial\<close>: the ceiling is the very object \<open>initialCeiling\<close> (\<open>ceiling === initialCeiling\<close>).\<close>

record run_rule =
  rr_rule :: rule
  rr_ceiling :: capability_set
  rr_initial :: bool

record grant_store =
  gs_attended :: bool
  gs_runId :: "ustring option"
  gs_planDigest :: "ustring option"
  gs_workspaceRoot :: ustring
  configuredRules :: "rule list"
  envelopeRules :: "rule list"
  runRules :: "run_rule list"
  rememberedRules :: "rule list"
  pending :: "(ustring \<times> pending_entry) list"
  grantedEnvelopes :: "ustring list"
  nextRequestId :: nat
  closed :: bool
  settled :: "(ustring \<times> waiter_outcome) list"
  journal :: "grant_event list"

section \<open>Construction\<close>

datatype rules_input = Flat_rules "rule list" | Nested_rules "rule list list"

definition tooMany :: "string \<Rightarrow> permission_error" where
  "tooMany what = invalid (what @ '' exceed 1024 entries'')"

fun countRulesets :: "nat \<Rightarrow> rule list list \<Rightarrow> bool" where
  "countRulesets count [] = True"
| "countRulesets count (rs # rest) =
     (if count + length rs > maximumRules then False else countRulesets (count + length rs) rest)"

definition orInvalid :: "string \<Rightarrow> 'a option \<Rightarrow> permission_error + 'a" where
  "orInvalid what x = (case x of None \<Rightarrow> Inl (invalid (what @ '' is invalid'')) | Some y \<Rightarrow> Inr y)"

definition normalizeRules :: "rules_input option \<Rightarrow> permission_error + (rule list \<times> rule list)" where
  "normalizeRules rules =
     (case rules of
        None \<Rightarrow> Inr ([], [])
      | Some (Flat_rules []) \<Rightarrow> Inr ([], [])
      | Some (Nested_rules []) \<Rightarrow> Inr ([], [])
      | Some (Nested_rules (first # others)) \<Rightarrow>
          if length (first # others) > maximumRules then Inl (tooMany ''rules'')
          else if \<not> countRulesets 0 (first # others) then Inl (tooMany ''rules'')
          else orInvalid ''rules''
            (case mapM snapshotRule first of
               None \<Rightarrow> None
             | Some configured \<Rightarrow>
                 map_option (\<lambda>remembered. (configured, remembered)) (mapM snapshotRule (concat others)))
      | Some (Flat_rules flat) \<Rightarrow>
          if length flat > maximumRules then Inl (tooMany ''rules'')
          else orInvalid ''rules'' (map_option (\<lambda>configured. (configured, [])) (mapM snapshotRule flat)))"

datatype run_rule_input = Bare_rule rule | Captured_rule rule "capability_pattern list list"

fun prepareRunRule :: "capability_set \<Rightarrow> run_rule_input \<Rightarrow> run_rule option" where
  "prepareRunRule initialCeiling (Bare_rule r) =
     map_option (\<lambda>r. \<lparr>rr_rule = r, rr_ceiling = initialCeiling, rr_initial = True\<rparr>) (snapshotRule r)"
| "prepareRunRule initialCeiling (Captured_rule r ceiling) =
     map_option (\<lambda>r. \<lparr>rr_rule = r,
         rr_ceiling = foldl (\<lambda>ceiling group. intersect ceiling (fromPatterns group)) initialCeiling ceiling,
         rr_initial = (ceiling = [])\<rparr>) (snapshotRule r)"

definition prepareRunRules :: "capability_set \<Rightarrow> run_rule_input list \<Rightarrow> permission_error + run_rule list" where
  "prepareRunRules initialCeiling inputs =
     (if length inputs > maximumRules then Inl (tooMany ''runRules'')
      else orInvalid ''runRules'' (mapM (prepareRunRule initialCeiling) inputs))"

record envelope_options =
  eo_planDigest :: ustring
  eo_patterns :: "capability_pattern list"
  eo_scope :: "ustring option"

record prepared_envelope =
  pv_planDigest :: ustring
  pv_scope :: envelope_scope
  pv_patterns :: "capability_pattern list"

definition indexed :: "string \<Rightarrow> nat \<Rightarrow> string \<Rightarrow> permission_error" where
  "indexed what index rest =
     GrantStoreError Invalid_resolution (Some (js (what @ ''['') @ decimal index @ js ('']'' @ rest)))"

definition prepareEnvelope ::
  "envelope_options \<Rightarrow> ustring option \<Rightarrow> ustring \<Rightarrow> permission_error + prepared_envelope" where
  "prepareEnvelope input expectedPlanDigest workspaceRoot =
     (if length (eo_patterns input) > maximumEnvelopePatterns then Inl (invalid ''patterns exceed 256 entries'')
      else case canonicalEnvelopePatterns (eo_patterns input) of
        None \<Rightarrow> Inl (invalid ''grant envelope is invalid'')
      | Some patterns \<Rightarrow>
          if patterns = []
          then Inr \<lparr>pv_planDigest = (case expectedPlanDigest of None \<Rightarrow> [] | Some d \<Rightarrow> d),
                    pv_scope = Run_scope, pv_patterns = patterns\<rparr>
          else case isEnvelopeScope (case eo_scope input of None \<Rightarrow> js ''run'' | Some s \<Rightarrow> s) of
            None \<Rightarrow> Inl (invalid ''scope must be run or remembered'')
          | Some scope \<Rightarrow>
              (case expectedPlanDigest of
                 None \<Rightarrow> Inl (invalid ''grant envelope requires a configured planDigest'')
               | Some expected \<Rightarrow>
                   if \<not> validIdentity (Some (eo_planDigest input))
                   then Inl (invalid ''planDigest is empty, malformed, or too long'')
                   else if eo_planDigest input \<noteq> expected then Inl (invalid ''planDigest mismatch'')
                   else (case findIndexM (\<lambda>p. map_option Not (isValidEnvelopePattern p workspaceRoot)) patterns of
                      None \<Rightarrow> Inl (invalid ''grant envelope is invalid'')
                    | Some (Some index) \<Rightarrow> Inl (indexed ''patterns'' index '' is outside the workspace envelope'')
                    | Some None \<Rightarrow> Inr \<lparr>pv_planDigest = eo_planDigest input, pv_scope = scope,
                                   pv_patterns = patterns\<rparr>)))"

section \<open>Persistence\<close>

type_synonym persist_hook = "grant_event \<Rightarrow> permission_error option"

definition persistEvent ::
  "persist_hook \<Rightarrow> (grant_event \<Rightarrow> nat) \<Rightarrow> grant_event \<Rightarrow> grant_store \<Rightarrow> permission_error + grant_store" where
  "persistEvent persist eventBytes event s =
     (if eventBytes event \<le> maximumEventBytes
      then (case persist event of None \<Rightarrow> Inr (s\<lparr>journal := journal s @ [event]\<rparr>) | Some e \<Rightarrow> Inl e)
      else Inl (invalid ''grant event exceeds 262144 bytes''))"

definition ruleCount :: "grant_store \<Rightarrow> nat" where
  "ruleCount s = length (configuredRules s) + length (envelopeRules s) + length (runRules s)
     + length (rememberedRules s)"

definition orEmpty :: "ustring option \<Rightarrow> ustring" where
  "orEmpty x = (case x of None \<Rightarrow> [] | Some v \<Rightarrow> v)"

text \<open>\<open>existing\<close>: the formatted patterns of the trailing allow rules.\<close>

fun trailingAllows :: "ustring list \<Rightarrow> rule list \<Rightarrow> ustring list" where
  "trailingAllows existing [] = existing"
| "trailingAllows existing (r # rest) =
     trailingAllows (if r_effect r = Allow then identity (r_pattern r) # existing else []) rest"

definition allowRule :: "capability_pattern \<Rightarrow> rule option" where
  "allowRule p = snapshotRule \<lparr>r_effect = Allow, r_pattern = p\<rparr>"

definition pushRules :: "envelope_scope \<Rightarrow> rule list \<Rightarrow> grant_store \<Rightarrow> grant_store" where
  "pushRules scope rules s =
     (case scope of
        Remembered_scope \<Rightarrow> s\<lparr>rememberedRules := rememberedRules s @ rules\<rparr>
      | Run_scope \<Rightarrow> s\<lparr>envelopeRules := envelopeRules s @ rules\<rparr>)"

definition envelopeIncoming :: "prepared_envelope \<Rightarrow> bool \<Rightarrow> grant_store \<Rightarrow> capability_pattern list" where
  "envelopeIncoming envelope durable s =
     (let replayed = (case pv_scope envelope of
                        Remembered_scope \<Rightarrow> rememberedRules s
                      | Run_scope \<Rightarrow> map rr_rule (filter rr_initial (runRules s)));
          existing = trailingAllows [] replayed
      in if durable then filter (\<lambda>p. identity p \<notin> set existing) (pv_patterns envelope)
         else pv_patterns envelope)"

definition admitEnvelope ::
  "persist_hook \<Rightarrow> (grant_event \<Rightarrow> nat) \<Rightarrow> prepared_envelope \<Rightarrow> bool \<Rightarrow> grant_store \<Rightarrow> fault + (bool \<times> grant_store)" where
  "admitEnvelope persist eventBytes envelope activateSeeded s =
     (if pv_patterns envelope = [] then Inr (False, s)
      else case envelopeSignature (pv_planDigest envelope) (pv_scope envelope) (pv_patterns envelope) of
        None \<Rightarrow> Inl Die
      | Some signature \<Rightarrow>
          (let durable = signature \<in> set (grantedEnvelopes s) in
           if durable \<and> \<not> activateSeeded then Inr (False, s)
           else let incoming = envelopeIncoming envelope durable s in
             if ruleCount s + length incoming > maximumRules then Inl (Fail (tooMany ''rules''))
             else if \<not> durable \<and> length (grantedEnvelopes s) \<ge> maximumRules
                  then Inl (Fail (tooMany ''grant envelopes''))
             else case (if durable then Inr s
                        else map_sum id (\<lambda>s'. s'\<lparr>grantedEnvelopes := grantedEnvelopes s' @ [signature]\<rparr>)
                          (persistEvent persist eventBytes
                            (EnvelopeGrant (orEmpty (gs_runId s)) (pv_planDigest envelope) (pv_patterns envelope)
                              (pv_scope envelope)) s)) of
               Inl e \<Rightarrow> Inl (Fail e)
             | Inr s' \<Rightarrow>
                 (case mapM allowRule incoming of
                    None \<Rightarrow> Inl Die
                  | Some rules \<Rightarrow> Inr (True, pushRules (pv_scope envelope) rules s'))))"

record make_options =
  mo_attended :: "bool option"
  mo_rules :: "rules_input option"
  mo_runRules :: "run_rule_input list"
  mo_envelope :: "envelope_options option"
  mo_signatures :: "ustring list"
  mo_runId :: "ustring option"
  mo_planDigest :: "ustring option"

definition envelopeSignatures ::
  "(ustring \<Rightarrow> (ustring \<times> envelope_scope \<times> ustring list) option) \<Rightarrow> ustring list \<Rightarrow> permission_error + ustring list" where
  "envelopeSignatures decodeLegacy values =
     (if length values > maximumRules then Inl (tooMany ''envelopeSignatures'')
      else let signatures = map (normalizeEnvelopeSignature decodeLegacy) values in
        case find_index (\<lambda>v. \<not> validIdentity (Some v)) signatures of
          Some index \<Rightarrow> Inl (indexed ''envelopeSignatures'' index '' is malformed or too long'')
        | None \<Rightarrow> Inr signatures)"

definition outsideEnvelope :: "ustring \<Rightarrow> rule \<Rightarrow> bool option" where
  "outsideEnvelope workspaceRoot r =
     (if r_effect r = Allow then map_option Not (isValidEnvelopePattern (r_pattern r) workspaceRoot) else Some False)"

text \<open>The closure's variables before the construction envelope; \<open>new Set(signatures)\<close> keeps the first of equal entries.\<close>

definition initialStore ::
  "make_options \<Rightarrow> ustring \<Rightarrow> rule list \<Rightarrow> run_rule list \<Rightarrow> rule list \<Rightarrow> ustring list \<Rightarrow> grant_store" where
  "initialStore options workspaceRoot configured initialRunRules remembered signatures =
     \<lparr>gs_attended = (case mo_attended options of None \<Rightarrow> True | Some b \<Rightarrow> b),
      gs_runId = mo_runId options, gs_planDigest = mo_planDigest options,
      gs_workspaceRoot = workspaceRoot, configuredRules = configured,
      envelopeRules = [], runRules = initialRunRules, rememberedRules = remembered,
      pending = [], grantedEnvelopes = distinctFirst signatures, nextRequestId = 1,
      closed = False, settled = [], journal = []\<rparr>"

definition prepareStore ::
  "(ustring \<Rightarrow> (ustring \<times> envelope_scope \<times> ustring list) option) \<Rightarrow> ustring \<Rightarrow> capability_set \<Rightarrow> make_options
    \<Rightarrow> fault + grant_store" where
  "prepareStore decodeLegacy workspaceRoot initialCeiling options =
     (if \<not> validIdentity (mo_runId options)
      then Inl (Fail (invalid ''runId is empty, malformed, or too long''))
      else if \<not> validIdentity (mo_planDigest options)
      then Inl (Fail (invalid ''planDigest is empty, malformed, or too long''))
      else case normalizeRules (mo_rules options) of
        Inl e \<Rightarrow> Inl (Fail e)
      | Inr (configured, remembered) \<Rightarrow>
        (case prepareRunRules initialCeiling (mo_runRules options) of
           Inl e \<Rightarrow> Inl (Fail e)
         | Inr initialRunRules \<Rightarrow>
           if length configured + length remembered + length initialRunRules > maximumRules
           then Inl (Fail (tooMany ''rules''))
           else (case envelopeSignatures decodeLegacy (mo_signatures options) of
              Inl e \<Rightarrow> Inl (Fail e)
            | Inr signatures \<Rightarrow>
              (case findIndexM (outsideEnvelope workspaceRoot) remembered of
                 None \<Rightarrow> Inl Die
               | Some (Some index) \<Rightarrow>
                   Inl (Fail (indexed ''rememberedRules'' index '' is outside the workspace envelope''))
               | Some None \<Rightarrow>
                 (case findIndexM (\<lambda>rr. outsideEnvelope workspaceRoot (rr_rule rr)) initialRunRules of
                    None \<Rightarrow> Inl Die
                  | Some (Some index) \<Rightarrow>
                      Inl (Fail (indexed ''runRules'' index '' is outside the workspace envelope''))
                  | Some None \<Rightarrow>
                      Inr (initialStore options workspaceRoot configured initialRunRules remembered signatures))))))"

definition make_store ::
  "(ustring \<Rightarrow> (ustring \<times> envelope_scope \<times> ustring list) option) \<Rightarrow> persist_hook \<Rightarrow> (grant_event \<Rightarrow> nat)
    \<Rightarrow> ustring \<Rightarrow> capability_set \<Rightarrow> make_options \<Rightarrow> fault + grant_store" where
  "make_store decodeLegacy persist eventBytes workspaceRoot initialCeiling options =
     (case prepareStore decodeLegacy workspaceRoot initialCeiling options of
        Inl e \<Rightarrow> Inl e
      | Inr s \<Rightarrow>
          (case mo_envelope options of
             None \<Rightarrow> Inr s
           | Some envelope \<Rightarrow>
               (case prepareEnvelope envelope (mo_planDigest options) workspaceRoot of
                  Inl e \<Rightarrow> Inl (Fail e)
                | Inr prepared \<Rightarrow> map_sum id snd (admitEnvelope persist eventBytes prepared True s))))"

section \<open>Requests\<close>

definition rulesets :: "grant_store \<Rightarrow> capability \<Rightarrow> rule list list" where
  "rulesets s c =
     [configuredRules s, envelopeRules s,
      map rr_rule (filter (\<lambda>rr. allows (rr_ceiling rr) c) (runRules s)),
      rememberedRules s]"

definition permissionDenied :: "capability \<Rightarrow> string \<Rightarrow> permission_error" where
  "permissionDenied c why = PermissionDenied c (js why)"

text \<open>Completing a Deferred that is already completed has no effect.\<close>

definition settle :: "ustring \<Rightarrow> waiter_outcome \<Rightarrow> grant_store \<Rightarrow> grant_store" where
  "settle requestId outcome s =
     (if map_of (settled s) requestId = None then s\<lparr>settled := settled s @ [(requestId, outcome)]\<rparr> else s)"

definition deletePending :: "ustring \<Rightarrow> grant_store \<Rightarrow> grant_store" where
  "deletePending requestId s = s\<lparr>pending := jsmap_delete (pending s) requestId\<rparr>"

definition requestIdText :: "nat \<Rightarrow> ustring" where
  "requestIdText n = js ''permission-'' @ decimal n"

definition allocateRequest ::
  "capability \<Rightarrow> effect_tier \<Rightarrow> json \<Rightarrow> capability_set \<Rightarrow> grant_store \<Rightarrow> permission_error + (ustring \<times> grant_store)" where
  "allocateRequest c t m ceiling s =
     (if length (pending s) \<ge> maximumPendingRequests then Inl (invalid ''pending requests exceed 1024 entries'')
      else let requestId = requestIdText (nextRequestId s);
               entry = \<lparr>pe_requestId = requestId, pe_capability = c, pe_tier = t, pe_meta = m, pe_ceiling = ceiling\<rparr>
           in Inr (requestId, s\<lparr>nextRequestId := nextRequestId s + 1,
                               pending := jsmap_set (pending s) requestId entry\<rparr>))"

definition closeEntry :: "grant_store \<Rightarrow> ustring \<times> pending_entry \<Rightarrow> grant_store" where
  "closeEntry s entry =
     settle (fst entry) (Refused (permissionDenied (pe_capability (snd entry)) ''grant store closed'')) s"

definition finalizer :: "grant_store \<Rightarrow> grant_store" where
  "finalizer s = foldl closeEntry (s\<lparr>closed := True, pending := []\<rparr>) (pending s)"

text \<open>
  The decision a \<open>check\<close> reaches under the semaphore.  A \<open>Waiting\<close> fiber then awaits its Deferred;
  when it resumes, or is interrupted, it deletes its pending entry (\<open>leave\<close>).  Building a
  \<open>PermissionRequired\<close> from metadata with an exotic record throws, which is a defect.
\<close>

datatype check_result = Passed | Failed permission_error | Waiting ustring | Died

definition snapshotRequest ::
  "(js_number \<Rightarrow> ustring) \<Rightarrow> js_heap \<Rightarrow> capability \<Rightarrow> js_value option \<Rightarrow> permission_error + (capability \<times> json)" where
  "snapshotRequest numText heap c m =
     (case snapshotCapability c of
        None \<Rightarrow> Inl (invalid ''permission request is invalid'')
      | Some c' \<Rightarrow>
          (case m of
             None \<Rightarrow> Inr (c', JObject [])
           | Some v \<Rightarrow> map_sum id (\<lambda>j. (c', j)) (metadataSnapshot numText heap v)))"

definition decide :: "capability_set \<Rightarrow> capability \<Rightarrow> json \<Rightarrow> grant_store \<Rightarrow> check_result \<times> grant_store" where
  "decide ceiling c m s =
     (if closed s then (Failed (GrantStoreError Store_closed None), s)
      else if \<not> allows ceiling c then (Failed (permissionDenied c ''outside capability ceiling''), s)
      else case evaluate (rulesets s c) c of
        Allow \<Rightarrow> (Passed, s)
      | Deny \<Rightarrow> (Failed (permissionDenied c ''denied by permission policy''), s)
      | Ask \<Rightarrow>
          (let t = tierOf c (gs_workspaceRoot s) in
           if \<not> gs_attended s
           then let s' = s\<lparr>nextRequestId := nextRequestId s + 1\<rparr> in
             if exotic m then (Died, s')
             else (Failed (PermissionRequired (requestIdText (nextRequestId s)) (gs_runId s) c t m), s')
           else case allocateRequest c t m ceiling s of
             Inl e \<Rightarrow> (Failed e, s)
           | Inr (requestId, s') \<Rightarrow> (Waiting requestId, s')))"

definition check ::
  "(js_number \<Rightarrow> ustring) \<Rightarrow> js_heap \<Rightarrow> capability_set \<Rightarrow> capability \<Rightarrow> js_value option \<Rightarrow> grant_store
    \<Rightarrow> check_result \<times> grant_store" where
  "check numText heap ceiling c m s =
     (case snapshotRequest numText heap c m of
        Inl e \<Rightarrow> (Failed e, s)
      | Inr (c', m') \<Rightarrow> decide ceiling c' m' s)"

definition leave :: "ustring \<Rightarrow> grant_store \<Rightarrow> grant_store" where
  "leave requestId s = deletePending requestId s"

section \<open>Replies\<close>

fun resolveEntries :: "(ustring \<times> pending_entry) list \<Rightarrow> grant_store \<Rightarrow> grant_store" where
  "resolveEntries [] s = s"
| "resolveEntries ((requestId, entry) # rest) s =
     resolveEntries rest
       (if \<not> allows (pe_ceiling entry) (pe_capability entry)
           \<or> evaluate (rulesets s (pe_capability entry)) (pe_capability entry) \<noteq> Allow then s
        else deletePending requestId (settle requestId Granted s))"

definition resolveCovered :: "grant_store \<Rightarrow> grant_store" where
  "resolveCovered s = resolveEntries (pending s) s"

definition replyPattern ::
  "resolution \<Rightarrow> capability_pattern option \<Rightarrow> pending_entry \<Rightarrow> permission_error + capability_pattern" where
  "replyPattern resolution supplied entry =
     (if resolution = Run \<or> resolution = Remembered
      then (case supplied of
              Some p \<Rightarrow> orInvalid ''grant pattern'' (snapshotPattern p)
            | None \<Rightarrow>
                (case patternFromCapability (pe_capability entry) of
                   None \<Rightarrow> Inl (invalid
                     ''the requested resource contains glob metacharacters; supply an explicit grant pattern or resolve once'')
                 | Some p \<Rightarrow> orInvalid ''grant pattern'' (snapshotPattern p)))
      else orInvalid ''grant pattern'' (snapshotPattern (exactPattern (pe_capability entry))))"

text \<open>
  \<open>snapshotRule(new Rule(...))\<close> of a pattern that has just been snapshot cannot throw; the branch is
  a defect of the model and \<open>reply_not_Die\<close> shows that it is not reached.
\<close>

definition replyRun ::
  "persist_hook \<Rightarrow> (grant_event \<Rightarrow> nat) \<Rightarrow> ustring \<Rightarrow> pending_entry \<Rightarrow> capability_pattern \<Rightarrow> grant_store
    \<Rightarrow> fault option \<times> grant_store" where
  "replyRun persist eventBytes requestId entry pattern s =
     (case gs_planDigest s of
        None \<Rightarrow> (Some (Fail (invalid ''run grants require a plan digest'')), s)
      | Some planDigest \<Rightarrow>
          if isValidGrantPattern pattern (pe_capability entry) (pe_tier entry) (gs_workspaceRoot s) = None
          then (Some Die, s)
          else if isValidGrantPattern pattern (pe_capability entry) (pe_tier entry) (gs_workspaceRoot s) = Some False
          then (Some (Fail (invalid ''grant pattern exceeds the requested authority'')), s)
          else if ruleCount s \<ge> maximumRules then (Some (Fail (tooMany ''rules'')), s)
          else case allowRule pattern of
            None \<Rightarrow> (Some Die, s)
          | Some rule \<Rightarrow>
              (case persistEvent persist eventBytes
                  (RunGrant requestId (orEmpty (gs_runId s)) planDigest (pe_capability entry) pattern
                    (groups (pe_ceiling entry)) (pe_tier entry)) s of
                 Inl e \<Rightarrow> (Some (Fail e), s)
               | Inr s' \<Rightarrow>
                   (None, resolveCovered (s'\<lparr>runRules := runRules s' @
                     [\<lparr>rr_rule = rule, rr_ceiling = pe_ceiling entry, rr_initial = False\<rparr>]\<rparr>))))"

definition replyRemembered ::
  "persist_hook \<Rightarrow> (grant_event \<Rightarrow> nat) \<Rightarrow> ustring \<Rightarrow> pending_entry \<Rightarrow> capability_pattern \<Rightarrow> grant_store
    \<Rightarrow> fault option \<times> grant_store" where
  "replyRemembered persist eventBytes requestId entry pattern s =
     (if isValidGrantPattern pattern (pe_capability entry) (pe_tier entry) (gs_workspaceRoot s) = None
      then (Some Die, s)
      else if isValidGrantPattern pattern (pe_capability entry) (pe_tier entry) (gs_workspaceRoot s) = Some False
      then (Some (Fail (invalid ''grant pattern exceeds the requested authority'')), s)
      else if ruleCount s \<ge> maximumRules then (Some (Fail (tooMany ''rules'')), s)
      else case allowRule pattern of
        None \<Rightarrow> (Some Die, s)
      | Some rule \<Rightarrow>
          (case persistEvent persist eventBytes
              (RememberedGrant requestId (orEmpty (gs_runId s)) (gs_planDigest s) (pe_capability entry) pattern
                (pe_tier entry)) s of
             Inl e \<Rightarrow> (Some (Fail e), s)
           | Inr s' \<Rightarrow> (None, resolveCovered (s'\<lparr>rememberedRules := rememberedRules s' @ [rule]\<rparr>))))"

definition reply ::
  "persist_hook \<Rightarrow> (grant_event \<Rightarrow> nat) \<Rightarrow> ustring \<Rightarrow> ustring \<Rightarrow> capability_pattern option \<Rightarrow> grant_store
    \<Rightarrow> fault option \<times> grant_store" where
  "reply persist eventBytes requestId resolutionText supplied s =
     (if closed s then (Some (Fail (GrantStoreError Store_closed None)), s)
      else case isResolution resolutionText of
        None \<Rightarrow> (Some (Fail (invalid ''unknown grant resolution'')), s)
      | Some resolution \<Rightarrow>
          (case map_of (pending s) requestId of
             None \<Rightarrow> (Some (Fail (GrantStoreError Request_not_found None)), s)
           | Some entry \<Rightarrow>
               (case replyPattern resolution supplied entry of
                  Inl e \<Rightarrow> (Some (Fail e), s)
                | Inr pattern \<Rightarrow>
                    (case resolution of
                       Once \<Rightarrow>
                         (case persistEvent persist eventBytes
                             (OnceGrant requestId (orEmpty (gs_runId s)) (gs_planDigest s) (pe_capability entry)
                               pattern (pe_tier entry)) s of
                            Inl e \<Rightarrow> (Some (Fail e), s)
                          | Inr s' \<Rightarrow> (None, deletePending requestId (settle requestId Granted s')))
                     | Run \<Rightarrow> replyRun persist eventBytes requestId entry pattern s
                     | Remembered \<Rightarrow> replyRemembered persist eventBytes requestId entry pattern s
                     | Deny_request \<Rightarrow>
                         (case persistEvent persist eventBytes
                             (DeniedGrant requestId (orEmpty (gs_runId s)) (gs_planDigest s) (pe_capability entry)
                               pattern (pe_tier entry)) s of
                            Inl e \<Rightarrow> (Some (Fail e), s)
                          | Inr s' \<Rightarrow>
                              (None, deletePending requestId
                                (settle requestId
                                  (Refused (permissionDenied (pe_capability entry) ''permission request denied'')) s')))))))"

text \<open>
  \<open>list\<close> snapshots each entry again.  The copy of a frozen JSON tree is the tree; an exotic record in
  it makes \<open>metadataSnapshot\<close> throw inside \<open>Effect.sync\<close>, a defect.
\<close>

definition list_requests :: "grant_store \<Rightarrow> fault + (ustring \<times> capability \<times> effect_tier \<times> json) list" where
  "list_requests s =
     (if list_ex (\<lambda>(requestId, entry). exotic (pe_meta entry)) (pending s) then Inl Die
      else Inr (map (\<lambda>(requestId, entry). (pe_requestId entry, pe_capability entry, pe_tier entry, pe_meta entry))
        (pending s)))"

definition grantEnvelope ::
  "persist_hook \<Rightarrow> (grant_event \<Rightarrow> nat) \<Rightarrow> envelope_options \<Rightarrow> grant_store \<Rightarrow> fault option \<times> grant_store" where
  "grantEnvelope persist eventBytes input s =
     (case prepareEnvelope input (gs_planDigest s) (gs_workspaceRoot s) of
        Inl e \<Rightarrow> (Some (Fail e), s)
      | Inr prepared \<Rightarrow>
          if pv_patterns prepared = [] then (None, s)
          else if closed s then (Some (Fail (GrantStoreError Store_closed None)), s)
          else case admitEnvelope persist eventBytes prepared False s of
            Inl e \<Rightarrow> (Some e, s)
          | Inr (admitted, s') \<Rightarrow> (None, if admitted then resolveCovered s' else s'))"

end
