(* ===== verification/Journal_Grant_Store.thy ===== *)
theory Journal_Grant_Store
  imports Grant_Store
begin

text \<open>
  The journal-backed grant store (\<open>packages/smithers/flows/kernel/src/JournalGrantStore.ts\<close>) and the page
  reads of the durable journal it replays (\<open>journal/src/SqlJournal.ts\<close>, \<open>readPage\<close>).

  The event table is a list of rows; a \<open>SELECT\<close> with \<open>ORDER BY seq LIMIT\<close> is a sorted, filtered and
  truncated copy of it.  The schema codec of grant events is the pair of parameters \<open>encode\<close> and
  \<open>decode\<close> on payloads of any type.  The replay loop follows pages for as long as the journal hands them
  out, so it runs on fuel; \<open>None\<close> means that the fuel ran out.
\<close>

section \<open>Paged reads\<close>

record 'p journal_entry =
  je_runId :: ustring
  je_seq :: nat
  je_sourceId :: ustring
  je_eventType :: ustring
  je_payload :: 'p

record 'p entries_page =
  pg_entries :: "'p journal_entry list"
  pg_hasMore :: bool

datatype journal_error = Compacted nat | Read_failed

definition selectRows :: "'p journal_entry list \<Rightarrow> ustring \<Rightarrow> nat option \<Rightarrow> 'p journal_entry list" where
  "selectRows table runId after =
     sort_key je_seq (filter (\<lambda>row. je_runId row = runId \<and> (case after of None \<Rightarrow> True | Some n \<Rightarrow> n < je_seq row)) table)"

text \<open>\<open>floor\<close> is the run's compaction floor; \<open>after ?? -1\<close> below \<open>floor - 1\<close> fails.\<close>

definition belowFloor :: "nat option \<Rightarrow> nat option \<Rightarrow> bool" where
  "belowFloor floor after =
     (case floor of None \<Rightarrow> False
      | Some f \<Rightarrow> (case after of None \<Rightarrow> -1 | Some n \<Rightarrow> int n) < int f - 1)"

definition readPage ::
  "'p journal_entry list \<Rightarrow> (ustring \<Rightarrow> nat option) \<Rightarrow> nat \<Rightarrow> ustring \<Rightarrow> nat option \<Rightarrow> journal_error + 'p entries_page" where
  "readPage table floor limit runId after =
     (let rows = take (limit + 1) (selectRows table runId after) in
      if belowFloor (floor runId) after then Inl (Compacted (the (floor runId)))
      else Inr \<lparr>pg_entries = take limit rows, pg_hasMore = (length rows > limit)\<rparr>)"

section \<open>Event types\<close>

fun eventType :: "grant_event \<Rightarrow> ustring" where
  "eventType (OnceGrant _ _ _ _ _ _) = js ''flows.kernel.grant.once.v1''"
| "eventType (RememberedGrant _ _ _ _ _ _) = js ''flows.kernel.grant.remembered.v1''"
| "eventType (RunGrant _ _ _ _ _ _ _) = js ''flows.kernel.grant.run.v2''"
| "eventType (DeniedGrant _ _ _ _ _ _) = js ''flows.kernel.grant.denied.v1''"
| "eventType (EnvelopeGrant _ _ _ _) = js ''flows.kernel.grant.envelope.v1''"

definition legacyRunType :: ustring where
  "legacyRunType = js ''flows.kernel.grant.run.v1''"

definition knownEventTypes :: "ustring list" where
  "knownEventTypes =
     [js ''flows.kernel.grant.once.v1'', legacyRunType, js ''flows.kernel.grant.run.v2'',
      js ''flows.kernel.grant.remembered.v1'', js ''flows.kernel.grant.denied.v1'',
      js ''flows.kernel.grant.envelope.v1'']"

definition journalFailed :: "string \<Rightarrow> permission_error" where
  "journalFailed message = GrantStoreError Journal_failed (Some (js message))"

definition invalidReplay :: "string \<Rightarrow> permission_error" where
  "invalidReplay message = GrantStoreError Invalid_resolution (Some (js message))"

definition invalidReplayAt :: "string \<Rightarrow> nat \<Rightarrow> permission_error" where
  "invalidReplayAt message seq = GrantStoreError Invalid_resolution (Some (js message @ decimal seq))"

fun validUnits :: "ustring \<Rightarrow> bool" where
  "validUnits [] = True"
| "validUnits (unit # rest) =
     (if unit = 0 then False
      else if isHigh unit then
        (case rest of [] \<Rightarrow> False | nxt # rest' \<Rightarrow> if \<not> isLow nxt then False else validUnits rest')
      else if isLow unit then False
      else validUnits rest)"

definition validId :: "ustring \<Rightarrow> bool" where
  "validId value = (if length value = 0 \<or> length value > maximumIdentityLength then False else validUnits value)"

definition decodeTrustedEntry ::
  "('p \<Rightarrow> grant_event option) \<Rightarrow> 'p journal_entry \<Rightarrow> ustring \<Rightarrow> permission_error + grant_event option" where
  "decodeTrustedEntry decode entry sourceId =
     (if je_sourceId entry \<noteq> sourceId \<or> je_eventType entry \<notin> set knownEventTypes then Inr None
      else if je_eventType entry = legacyRunType
      then Inl (invalidReplayAt ''legacy run grant has no captured ceiling at journal sequence '' (je_seq entry))
      else case decode (je_payload entry) of
        None \<Rightarrow> Inl (invalidReplayAt ''invalid grant payload at journal sequence '' (je_seq entry))
      | Some event \<Rightarrow>
          if eventType event \<noteq> je_eventType entry
          then Inl (invalidReplayAt ''grant envelope/payload type mismatch at journal sequence '' (je_seq entry))
          else Inr (Some event))"

section \<open>Replay\<close>

text \<open>
  What a replay has collected: the rules (in the form \<open>GrantStore.make\<close> takes run rules in), the keys seen,
  and the envelope signatures.  A key is the formatted pattern of a bare rule, or the pattern and ceiling
  of a captured one, which the source tags with the prefix \<open>run:\<close>.
\<close>

datatype replay_key = Pattern_key ustring | Run_key capability_pattern "capability_pattern list list"

record replayed =
  rp_rules :: "run_rule_input list"
  rp_seen :: "replay_key list"
  rp_signatures :: "ustring list"

definition nothingReplayed :: replayed where
  "nothingReplayed = \<lparr>rp_rules = [], rp_seen = [], rp_signatures = []\<rparr>"

definition appendReplayedRule :: "replayed \<Rightarrow> capability_pattern \<Rightarrow> replayed" where
  "appendReplayedRule st pattern =
     (let key = Pattern_key (identity pattern) in
      if key \<in> set (rp_seen st) then st
      else st\<lparr>rp_seen := rp_seen st @ [key],
              rp_rules := rp_rules st @ [Bare_rule \<lparr>r_effect = Allow, r_pattern = pattern\<rparr>]\<rparr>)"

definition addSignature :: "ustring \<Rightarrow> replayed \<Rightarrow> replayed" where
  "addSignature signature st =
     (if signature \<in> set (rp_signatures st) then st else st\<lparr>rp_signatures := rp_signatures st @ [signature]\<rparr>)"

text \<open>The common tail of both envelope branches; a pattern check or a signature that throws is a defect.\<close>

definition replayEnvelope ::
  "ustring \<Rightarrow> permission_error \<Rightarrow> ustring \<Rightarrow> envelope_scope \<Rightarrow> capability_pattern list \<Rightarrow> replayed \<Rightarrow> fault + replayed" where
  "replayEnvelope workspaceRoot unsafe planDigest scope patterns st =
     (case findIndexM (\<lambda>p. map_option Not (isValidEnvelopePattern p workspaceRoot)) patterns of
        None \<Rightarrow> Inl Die
      | Some (Some _) \<Rightarrow> Inl (Fail unsafe)
      | Some None \<Rightarrow>
          (case envelopeSignature planDigest scope patterns of
             None \<Rightarrow> Inl Die
           | Some signature \<Rightarrow> Inr (addSignature signature (foldl appendReplayedRule st patterns))))"

definition rememberedEntry ::
  "('p \<Rightarrow> grant_event option) \<Rightarrow> ustring \<Rightarrow> ustring \<Rightarrow> replayed \<Rightarrow> 'p journal_entry \<Rightarrow> fault + replayed" where
  "rememberedEntry decode sourceId workspaceRoot st entry =
     (case decodeTrustedEntry decode entry sourceId of
        Inl e \<Rightarrow> Inl (Fail e)
      | Inr None \<Rightarrow> Inr st
      | Inr (Some event) \<Rightarrow>
          (case event of
             RememberedGrant _ _ _ c p t \<Rightarrow>
               (case isValidGrantPattern p c t workspaceRoot of
                  None \<Rightarrow> Inl Die
                | Some False \<Rightarrow> Inl (Fail (invalidReplayAt ''unsafe remembered grant event: '' (je_seq entry)))
                | Some True \<Rightarrow> Inr (appendReplayedRule st p))
           | EnvelopeGrant _ d ps Remembered_scope \<Rightarrow>
               replayEnvelope workspaceRoot (invalidReplayAt ''unsafe remembered envelope event: '' (je_seq entry))
                 d Remembered_scope ps st
           | _ \<Rightarrow> Inl (Fail (invalidReplayAt ''run-scoped event found in policy journal: '' (je_seq entry)))))"

definition runEntry ::
  "('p \<Rightarrow> grant_event option) \<Rightarrow> ustring \<Rightarrow> ustring \<Rightarrow> ustring \<Rightarrow> ustring \<Rightarrow> replayed \<Rightarrow> 'p journal_entry
    \<Rightarrow> fault + replayed" where
  "runEntry decode runId sourceId planDigest workspaceRoot st entry =
     (case decodeTrustedEntry decode entry sourceId of
        Inl e \<Rightarrow> Inl (Fail e)
      | Inr None \<Rightarrow> Inr st
      | Inr (Some event) \<Rightarrow>
          if ev_run event \<noteq> runId
          then Inl (Fail (invalidReplayAt ''grant payload run mismatch at journal sequence '' (je_seq entry)))
          else (case event of
             OnceGrant _ _ _ _ _ _ \<Rightarrow> Inr st
           | DeniedGrant _ _ _ _ _ _ \<Rightarrow> Inr st
           | RunGrant _ _ d c p ceiling t \<Rightarrow>
               if d \<noteq> planDigest then Inr st
               else (case isValidGrantPattern p c t workspaceRoot of
                  None \<Rightarrow> Inl Die
                | Some False \<Rightarrow> Inl (Fail (invalidReplayAt ''unsafe run grant event: '' (je_seq entry)))
                | Some True \<Rightarrow>
                    if Run_key p ceiling \<in> set (rp_seen st) then Inr st
                    else Inr (st\<lparr>rp_seen := rp_seen st @ [Run_key p ceiling],
                                 rp_rules := rp_rules st @ [Captured_rule \<lparr>r_effect = Allow, r_pattern = p\<rparr> ceiling]\<rparr>))
           | EnvelopeGrant _ d ps Run_scope \<Rightarrow>
               if d \<noteq> planDigest then Inr st
               else replayEnvelope workspaceRoot (invalidReplayAt ''unsafe run envelope event: '' (je_seq entry))
                 d Run_scope ps st
           | _ \<Rightarrow> Inl (Fail (invalidReplayAt ''remembered event found in run journal: '' (je_seq entry)))))"

fun foldM :: "('s \<Rightarrow> 'x \<Rightarrow> 'e + 's) \<Rightarrow> 's \<Rightarrow> 'x list \<Rightarrow> 'e + 's" where
  "foldM f s [] = Inr s"
| "foldM f s (x # xs) = (case f s x of Inl e \<Rightarrow> Inl e | Inr s' \<Rightarrow> foldM f s' xs)"

text \<open>The \<open>do ... while\<close> loop both replays share.\<close>

fun replayLoop ::
  "(nat option \<Rightarrow> journal_error + 'p entries_page) \<Rightarrow> string \<Rightarrow> ('s \<Rightarrow> 'p journal_entry \<Rightarrow> fault + 's)
    \<Rightarrow> nat \<Rightarrow> nat option \<Rightarrow> 's \<Rightarrow> (fault + 's) option" where
  "replayLoop entries failure handle 0 after st = None"
| "replayLoop entries failure handle (Suc fuel) after st =
     (case entries after of
        Inl _ \<Rightarrow> Some (Inl (Fail (journalFailed failure)))
      | Inr page \<Rightarrow>
          (let lastSeq = (if pg_entries page = [] then None else Some (je_seq (last (pg_entries page)))) in
           if (case (lastSeq, after) of (Some l, Some a) \<Rightarrow> l \<le> a | _ \<Rightarrow> False)
           then Some (Inl (Fail (invalidReplayAt ''non-advancing journal page at sequence '' (the lastSeq))))
           else case foldM handle st (pg_entries page) of
             Inl e \<Rightarrow> Some (Inl e)
           | Inr st' \<Rightarrow>
               if \<not> pg_hasMore page \<or> lastSeq = None then Some (Inr st')
               else replayLoop entries failure handle fuel lastSeq st'))"

definition replayRememberedRules ::
  "nat \<Rightarrow> (ustring \<Rightarrow> nat option \<Rightarrow> journal_error + 'p entries_page) \<Rightarrow> ('p \<Rightarrow> grant_event option)
    \<Rightarrow> ustring \<Rightarrow> ustring \<Rightarrow> ustring \<Rightarrow> (fault + replayed) option" where
  "replayRememberedRules fuel entries decode policyRunId sourceId workspaceRoot =
     replayLoop (entries policyRunId) ''could not replay remembered grants''
       (rememberedEntry decode sourceId workspaceRoot) fuel None nothingReplayed"

definition replayRunRules ::
  "nat \<Rightarrow> (ustring \<Rightarrow> nat option \<Rightarrow> journal_error + 'p entries_page) \<Rightarrow> ('p \<Rightarrow> grant_event option)
    \<Rightarrow> ustring \<Rightarrow> ustring \<Rightarrow> ustring \<Rightarrow> ustring \<Rightarrow> (fault + replayed) option" where
  "replayRunRules fuel entries decode runId sourceId planDigest workspaceRoot =
     replayLoop (entries runId) ''could not replay run grants''
       (runEntry decode runId sourceId planDigest workspaceRoot) fuel None nothingReplayed"

section \<open>Construction\<close>

record journal_options =
  jo_runId :: ustring
  jo_policyRunId :: ustring
  jo_sourceId :: ustring
  jo_planDigest :: ustring
  jo_attended :: "bool option"
  jo_rules :: "rule list list"
  jo_envelope :: "(capability_pattern list \<times> envelope_scope option) option"

text \<open>
  The run an event is written to, and the hook handed to \<open>GrantStore.make\<close>: \<open>emit\<close> is the journal's
  durable append (run, source, event type, payload), false when it fails.
\<close>

definition targetRun :: "journal_options \<Rightarrow> grant_event \<Rightarrow> ustring" where
  "targetRun options event =
     (case event of
        RememberedGrant _ _ _ _ _ _ \<Rightarrow> jo_policyRunId options
      | EnvelopeGrant _ _ _ Remembered_scope \<Rightarrow> jo_policyRunId options
      | _ \<Rightarrow> jo_runId options)"

definition journalPersist ::
  "(ustring \<Rightarrow> ustring \<Rightarrow> ustring \<Rightarrow> 'p \<Rightarrow> bool) \<Rightarrow> (grant_event \<Rightarrow> 'p) \<Rightarrow> journal_options \<Rightarrow> persist_hook" where
  "journalPersist emit encode options event =
     (if emit (targetRun options event) (jo_sourceId options) (eventType event) (encode event) then None
      else Some (journalFailed ''could not persist grant event''))"

fun bareRule :: "run_rule_input \<Rightarrow> rule" where
  "bareRule (Bare_rule r) = r"
| "bareRule (Captured_rule r _) = r"

definition storeOptions :: "journal_options \<Rightarrow> replayed \<Rightarrow> replayed \<Rightarrow> make_options" where
  "storeOptions options policy run =
     \<lparr>mo_attended = jo_attended options,
      mo_rules = Some (Nested_rules
        ((if jo_rules options = [] then [[]] else jo_rules options) @ [map bareRule (rp_rules policy)])),
      mo_runRules = rp_rules run,
      mo_envelope = map_option (\<lambda>(patterns, scope). \<lparr>eo_planDigest = jo_planDigest options, eo_patterns = patterns,
          eo_scope = map_option scope_text scope\<rparr>) (jo_envelope options),
      mo_signatures = rp_signatures policy @ rp_signatures run,
      mo_runId = Some (jo_runId options), mo_planDigest = Some (jo_planDigest options)\<rparr>"

definition build ::
  "(ustring \<Rightarrow> (ustring \<times> envelope_scope \<times> ustring list) option) \<Rightarrow> persist_hook \<Rightarrow> (grant_event \<Rightarrow> nat)
    \<Rightarrow> ustring \<Rightarrow> capability_set \<Rightarrow> journal_options \<Rightarrow> replayed \<Rightarrow> replayed \<Rightarrow> fault + grant_store" where
  "build decodeLegacy persist eventBytes workspaceRoot initialCeiling options policy run =
     (let configuredCount = sum_list (map length (jo_rules options));
          rememberedCount = length (rp_rules policy);
          runCount = length (rp_rules run);
          total = configuredCount + rememberedCount + runCount
      in if total > maximumRules
      then Inl (Fail (GrantStoreError Invalid_resolution (Some
        (js ''policy run '' @ jo_policyRunId options @ js '' replayed '' @ decimal rememberedCount @
         js '' remembered rules; configured rules ('' @ decimal configuredCount @
         js '') and replayed run rules ('' @ decimal runCount @ js '') bring the total to '' @ decimal total @
         js '', which exceeds the 1024-rule ceiling, so compact the policy journal''))))
      else let policySignatureCount = length (rp_signatures policy);
               runSignatureCount = length (rp_signatures run);
               signatureTotal = policySignatureCount + runSignatureCount
           in if signatureTotal > maximumRules
           then Inl (Fail (GrantStoreError Invalid_resolution (Some
             (js ''policy run '' @ jo_policyRunId options @ js '' replayed '' @ decimal policySignatureCount @
              js '' remembered envelope signatures; replayed run envelope signatures ('' @ decimal runSignatureCount @
              js '') bring the total to '' @ decimal signatureTotal @
              js '', which exceeds the 1024-envelope-signature ceiling, so compact the policy journal''))))
           else make_store decodeLegacy persist eventBytes workspaceRoot initialCeiling (storeOptions options policy run))"

text \<open>
  \<open>make\<close>.  The journal may grow between the first replay, which reads it through \<open>entries\<close>, and the second
  one inside the per-journal critical section, which reads it through \<open>entriesLocked\<close>.
\<close>

definition journalMake ::
  "nat \<Rightarrow> (ustring \<Rightarrow> (ustring \<times> envelope_scope \<times> ustring list) option)
    \<Rightarrow> (ustring \<Rightarrow> nat option \<Rightarrow> journal_error + 'p entries_page) \<Rightarrow> (ustring \<Rightarrow> nat option \<Rightarrow> journal_error + 'p entries_page)
    \<Rightarrow> (ustring \<Rightarrow> ustring \<Rightarrow> ustring \<Rightarrow> 'p \<Rightarrow> bool) \<Rightarrow> (grant_event \<Rightarrow> 'p) \<Rightarrow> ('p \<Rightarrow> grant_event option) \<Rightarrow> (grant_event \<Rightarrow> nat)
    \<Rightarrow> ustring \<Rightarrow> capability_set \<Rightarrow> journal_options \<Rightarrow> (fault + grant_store) option" where
  "journalMake fuel decodeLegacy entries entriesLocked emit encode decode eventBytes workspaceRoot initialCeiling options =
     (if \<not> validId (jo_runId options)
      then Some (Inl (Fail (invalidReplay ''runId must be non-empty, bounded, well-formed text'')))
      else if \<not> validId (jo_policyRunId options)
      then Some (Inl (Fail (invalidReplay ''policyRunId must be non-empty, bounded, well-formed text'')))
      else if \<not> validId (jo_sourceId options)
      then Some (Inl (Fail (invalidReplay ''sourceId must be non-empty, bounded, well-formed text'')))
      else if \<not> validId (jo_planDigest options)
      then Some (Inl (Fail (invalidReplay ''planDigest must be non-empty, bounded, well-formed text'')))
      else if jo_runId options = jo_policyRunId options
      then Some (Inl (Fail (invalidReplay ''runId and policyRunId must be distinct'')))
      else let replayPolicy = (\<lambda>entries. replayRememberedRules fuel entries decode (jo_policyRunId options)
                 (jo_sourceId options) workspaceRoot);
               replayRun = (\<lambda>entries. replayRunRules fuel entries decode (jo_runId options) (jo_sourceId options)
                 (jo_planDigest options) workspaceRoot);
               finish = build decodeLegacy (journalPersist emit encode options) eventBytes workspaceRoot initialCeiling options
      in case replayPolicy entries of
        None \<Rightarrow> None
      | Some (Inl e) \<Rightarrow> Some (Inl e)
      | Some (Inr policy) \<Rightarrow>
        (case replayRun entries of
           None \<Rightarrow> None
         | Some (Inl e) \<Rightarrow> Some (Inl e)
         | Some (Inr run) \<Rightarrow>
           (case jo_envelope options of
              None \<Rightarrow> Some (finish policy run)
            | Some (patterns, scope) \<Rightarrow>
                if patterns = [] then Some (finish policy run)
                else let scope = (case scope of None \<Rightarrow> Run_scope | Some s \<Rightarrow> s) in
                  (case envelopeSignature (jo_planDigest options) scope patterns of
                     None \<Rightarrow> Some (Inl Die)
                   | Some signature \<Rightarrow>
                       if signature \<in> set (rp_signatures (if scope = Remembered_scope then policy else run))
                       then Some (finish policy run)
                       else if scope = Remembered_scope
                       then (case replayPolicy entriesLocked of
                               None \<Rightarrow> None | Some (Inl e) \<Rightarrow> Some (Inl e) | Some (Inr policy') \<Rightarrow> Some (finish policy' run))
                       else (case replayRun entriesLocked of
                               None \<Rightarrow> None | Some (Inl e) \<Rightarrow> Some (Inl e) | Some (Inr run') \<Rightarrow> Some (finish policy run'))))))"

end
