(* ===== verification/Grant_Store_Safety.thy ===== *)
theory Grant_Store_Safety
  imports Grant_Store
begin

text \<open>
  The grant store as a state machine: its transitions, the invariant every reachable store has, what
  releases a waiter, and that the rules in force are those its journal records.
\<close>

section \<open>Transitions\<close>

inductive store_step :: "grant_store \<Rightarrow> grant_store \<Rightarrow> bool" where
  check: "store_step s (snd (check numText heap ceiling c m s))"
| reply: "store_step s (snd (reply persist eventBytes requestId resolution supplied s))"
| envelope: "store_step s (snd (grantEnvelope persist eventBytes input s))"
| leave: "store_step s (leave requestId s)"
| close: "store_step s (finalizer s)"

abbreviation reaches :: "grant_store \<Rightarrow> grant_store \<Rightarrow> bool" where
  "reaches \<equiv> store_step\<^sup>*\<^sup>*"

section \<open>Elementary effects\<close>

lemma settle_simps [simp]:
  "pending (settle k r s) = pending s" "closed (settle k r s) = closed s" "journal (settle k r s) = journal s"
  "configuredRules (settle k r s) = configuredRules s" "envelopeRules (settle k r s) = envelopeRules s"
  "runRules (settle k r s) = runRules s" "rememberedRules (settle k r s) = rememberedRules s"
  "grantedEnvelopes (settle k r s) = grantedEnvelopes s" "nextRequestId (settle k r s) = nextRequestId s"
  "gs_workspaceRoot (settle k r s) = gs_workspaceRoot s" "gs_planDigest (settle k r s) = gs_planDigest s"
  "gs_runId (settle k r s) = gs_runId s" "gs_attended (settle k r s) = gs_attended s"
  by (simp_all add: settle_def)

lemma settle_lookup: "map_of (settled (settle k r s)) j =
  (if j = k \<and> map_of (settled s) k = None then Some r else map_of (settled s) j)"
  by (auto simp: settle_def map_add_Some_iff map_add_def split: option.splits)

lemma deletePending_simps [simp]:
  "pending (deletePending k s) = jsmap_delete (pending s) k" "closed (deletePending k s) = closed s"
  "journal (deletePending k s) = journal s" "settled (deletePending k s) = settled s"
  "configuredRules (deletePending k s) = configuredRules s" "envelopeRules (deletePending k s) = envelopeRules s"
  "runRules (deletePending k s) = runRules s" "rememberedRules (deletePending k s) = rememberedRules s"
  "grantedEnvelopes (deletePending k s) = grantedEnvelopes s" "nextRequestId (deletePending k s) = nextRequestId s"
  "gs_workspaceRoot (deletePending k s) = gs_workspaceRoot s" "gs_planDigest (deletePending k s) = gs_planDigest s"
  "gs_runId (deletePending k s) = gs_runId s" "gs_attended (deletePending k s) = gs_attended s"
  by (simp_all add: deletePending_def)

text \<open>What resolving, settling and leaving never touch.\<close>

definition same_authority :: "grant_store \<Rightarrow> grant_store \<Rightarrow> bool" where
  "same_authority s s' =
     (configuredRules s' = configuredRules s \<and> envelopeRules s' = envelopeRules s \<and> runRules s' = runRules s
      \<and> rememberedRules s' = rememberedRules s \<and> grantedEnvelopes s' = grantedEnvelopes s
      \<and> nextRequestId s' = nextRequestId s \<and> closed s' = closed s \<and> journal s' = journal s
      \<and> gs_workspaceRoot s' = gs_workspaceRoot s \<and> gs_planDigest s' = gs_planDigest s
      \<and> gs_runId s' = gs_runId s \<and> gs_attended s' = gs_attended s)"

lemma same_authority_refl [simp]: "same_authority s s"
  by (simp add: same_authority_def)

lemma same_authority_trans: "same_authority s t \<Longrightarrow> same_authority t u \<Longrightarrow> same_authority s u"
  by (simp add: same_authority_def)

lemma same_authority_rulesets: "same_authority s s' \<Longrightarrow> rulesets s' = rulesets s"
  by (simp add: same_authority_def rulesets_def fun_eq_iff)

lemma resolveEntries_authority [simp]: "same_authority s (resolveEntries es s)"
proof (induction es s rule: resolveEntries.induct)
  case (2 k e rest s)
  show ?case unfolding resolveEntries.simps by (rule same_authority_trans[OF _ 2]) (simp add: same_authority_def)
qed simp

lemma resolveCovered_authority [simp]: "same_authority s (resolveCovered s)"
  by (simp add: resolveCovered_def)

section \<open>What resolving covered requests does\<close>

definition covered :: "grant_store \<Rightarrow> pending_entry \<Rightarrow> bool" where
  "covered s e = (allows (pe_ceiling e) (pe_capability e)
     \<and> evaluate (rulesets s (pe_capability e)) (pe_capability e) = Allow)"

lemma covered_same: "same_authority s s' \<Longrightarrow> covered s' = covered s"
  by (simp add: covered_def same_authority_rulesets fun_eq_iff)

lemma resolveEntries_pending:
  "pending (resolveEntries es s) = filter (\<lambda>(k, e). k \<notin> fst ` {x \<in> set es. covered s (snd x)}) (pending s)"
proof (induction es s rule: resolveEntries.induct)
  case (2 k e rest s)
  let ?s = "if \<not> allows (pe_ceiling e) (pe_capability e)
           \<or> evaluate (rulesets s (pe_capability e)) (pe_capability e) \<noteq> Allow then s
        else deletePending k (settle k Granted s)"
  have c: "covered ?s = covered s" by (rule covered_same) (simp add: same_authority_def)
  show ?case
  proof (cases "covered s e")
    case True
    then have s: "?s = deletePending k (settle k Granted s)" by (simp add: covered_def)
    have "pending (resolveEntries rest ?s) =
        filter (\<lambda>(k, e). k \<notin> fst ` {x \<in> set rest. covered s (snd x)}) (jsmap_delete (pending s) k)"
      using 2 c s by simp
    with True show ?thesis
      by (simp add: s jsmap_delete_def) (rule filter_cong, auto simp: image_iff)
  next
    case False
    then have s: "?s = s" by (simp add: covered_def)
    with 2 c False show ?thesis by simp (rule filter_cong, auto simp: image_iff)
  qed
qed simp

lemma resolveEntries_settled:
  "map_of (settled (resolveEntries es s)) k =
     (if map_of (settled s) k = None \<and> (\<exists>e. (k, e) \<in> set es \<and> covered s e) then Some Granted
      else map_of (settled s) k)"
proof (induction es s rule: resolveEntries.induct)
  case (2 k' e rest s)
  let ?s = "if \<not> allows (pe_ceiling e) (pe_capability e)
           \<or> evaluate (rulesets s (pe_capability e)) (pe_capability e) \<noteq> Allow then s
        else deletePending k' (settle k' Granted s)"
  have c: "covered ?s = covered s" by (rule covered_same) (simp add: same_authority_def)
  show ?case
  proof (cases "covered s e")
    case True
    then have s: "?s = deletePending k' (settle k' Granted s)" by (simp add: covered_def)
    with 2 c True show ?thesis by (auto simp: settle_lookup)
  next
    case False
    then have "?s = s" by (simp add: covered_def)
    with 2 c False show ?thesis by auto
  qed
qed simp

lemma resolveCovered_pending:
  assumes "distinct (map fst (pending s))"
  shows "pending (resolveCovered s) = filter (\<lambda>(k, e). \<not> covered s e) (pending s)"
  unfolding resolveCovered_def resolveEntries_pending
proof (rule filter_cong)
  fix x assume x: "x \<in> set (pending s)"
  have "covered s (snd x)" if "fst x \<in> fst ` {y \<in> set (pending s). covered s (snd y)}"
  proof -
    from that obtain y where y: "y \<in> set (pending s)" "covered s (snd y)" "fst x = fst y" by auto
    then have "snd x = snd y" using x by (metis eq_key_imp_eq_value[OF assms] prod.collapse)
    with y show ?thesis by simp
  qed
  then have "(fst x \<in> fst ` {y \<in> set (pending s). covered s (snd y)}) = covered s (snd x)" using x by blast
  then show "(case x of (k, e) \<Rightarrow> k \<notin> fst ` {x \<in> set (pending s). covered s (snd x)})
      = (case x of (k, e) \<Rightarrow> \<not> covered s e)" by (cases x) simp
qed simp

lemma resolveCovered_settled:
  "map_of (settled (resolveCovered s)) k =
     (if map_of (settled s) k = None \<and> (\<exists>e. (k, e) \<in> set (pending s) \<and> covered s e) then Some Granted
      else map_of (settled s) k)"
  by (simp add: resolveCovered_def resolveEntries_settled)

section \<open>The outcomes of each operation\<close>

definition logged :: "grant_event \<Rightarrow> grant_store \<Rightarrow> grant_store" where
  "logged event s = s\<lparr>journal := journal s @ [event]\<rparr>"

lemma persistEvent_cases:
  obtains (failed) e where "persistEvent persist eventBytes event s = Inl e"
  | (logged) "persist event = None" "eventBytes event \<le> maximumEventBytes"
      "persistEvent persist eventBytes event s = Inr (logged event s)"
  by (cases "persist event"; cases "eventBytes event \<le> maximumEventBytes")
     (auto simp: persistEvent_def logged_def)

definition run_grant :: "pending_entry \<Rightarrow> capability_pattern \<Rightarrow> run_rule" where
  "run_grant e p = \<lparr>rr_rule = \<lparr>r_effect = Allow, r_pattern = p\<rparr>, rr_ceiling = pe_ceiling e, rr_initial = False\<rparr>"

definition once_event :: "ustring \<Rightarrow> pending_entry \<Rightarrow> grant_store \<Rightarrow> grant_event" where
  "once_event k e s = OnceGrant k (orEmpty (gs_runId s)) (gs_planDigest s) (pe_capability e)
     (exactPattern (pe_capability e)) (pe_tier e)"

definition deny_event :: "ustring \<Rightarrow> pending_entry \<Rightarrow> grant_store \<Rightarrow> grant_event" where
  "deny_event k e s = DeniedGrant k (orEmpty (gs_runId s)) (gs_planDigest s) (pe_capability e)
     (exactPattern (pe_capability e)) (pe_tier e)"

definition run_event :: "ustring \<Rightarrow> pending_entry \<Rightarrow> ustring \<Rightarrow> capability_pattern \<Rightarrow> grant_store \<Rightarrow> grant_event" where
  "run_event k e d p s = RunGrant k (orEmpty (gs_runId s)) d (pe_capability e) p (groups (pe_ceiling e)) (pe_tier e)"

definition remembered_event :: "ustring \<Rightarrow> pending_entry \<Rightarrow> capability_pattern \<Rightarrow> grant_store \<Rightarrow> grant_event" where
  "remembered_event k e p s = RememberedGrant k (orEmpty (gs_runId s)) (gs_planDigest s) (pe_capability e) p (pe_tier e)"

lemma allowRule_Some: "allowRule p = (if valid_pattern p then Some \<lparr>r_effect = Allow, r_pattern = p\<rparr> else None)"
  by (auto simp: allowRule_def snapshotRule_def snapshotPattern_valid simp del: snapshotPattern_Some)
     (auto simp: snapshotPattern_def make_pattern_def valid_pattern_def)

lemma replyPattern_Some:
  assumes "replyPattern resolution supplied e = Inr p"
  shows "valid_pattern p" "resolution = Once \<or> resolution = Deny_request \<Longrightarrow> p = exactPattern (pe_capability e)"
    "resolution = Run \<or> resolution = Remembered \<Longrightarrow> supplied = Some p \<or> (supplied = None \<and> patternFromCapability (pe_capability e) = Some p)"
  using assms
  by (auto simp: replyPattern_def orInvalid_def split: if_splits option.splits)

lemma replyRun_cases:
  assumes "valid_pattern p"
  obtains (refused) f where "replyRun persist eventBytes k e p s = (Some f, s)"
  | (granted) d where "gs_planDigest s = Some d" "ruleCount s < maximumRules"
      "isValidGrantPattern p (pe_capability e) (pe_tier e) (gs_workspaceRoot s) = Some True"
      "persist (run_event k e d p s) = None"
      "replyRun persist eventBytes k e p s =
         (None, resolveCovered ((logged (run_event k e d p s) s)\<lparr>runRules := runRules s @ [run_grant e p]\<rparr>))"
proof (cases "gs_planDigest s")
  case None
  then show thesis using refused by (simp add: replyRun_def)
next
  case (Some d)
  show thesis
  proof (cases "isValidGrantPattern p (pe_capability e) (pe_tier e) (gs_workspaceRoot s) = Some True \<and> ruleCount s < maximumRules")
    case False
    with Some have "\<exists>f. replyRun persist eventBytes k e p s = (Some f, s)" by (auto simp: replyRun_def)
    then show thesis using refused by blast
  next
    case True
    show thesis
    proof (cases rule: persistEvent_cases[of persist eventBytes "run_event k e d p s" s])
      case (failed x)
      then show thesis using refused assms Some True by (simp add: replyRun_def run_event_def allowRule_Some)
    next
      case logged
      with assms Some True granted[of d] show thesis
        by (simp add: replyRun_def allowRule_Some run_event_def run_grant_def logged_def)
    qed
  qed
qed

lemma replyRemembered_cases:
  assumes "valid_pattern p"
  obtains (refused) f where "replyRemembered persist eventBytes k e p s = (Some f, s)"
  | (granted) "ruleCount s < maximumRules"
      "isValidGrantPattern p (pe_capability e) (pe_tier e) (gs_workspaceRoot s) = Some True"
      "persist (remembered_event k e p s) = None"
      "replyRemembered persist eventBytes k e p s =
         (None, resolveCovered ((logged (remembered_event k e p s) s)
            \<lparr>rememberedRules := rememberedRules s @ [\<lparr>r_effect = Allow, r_pattern = p\<rparr>]\<rparr>))"
proof (cases "isValidGrantPattern p (pe_capability e) (pe_tier e) (gs_workspaceRoot s) = Some True \<and> ruleCount s < maximumRules")
  case False
  then have "\<exists>f. replyRemembered persist eventBytes k e p s = (Some f, s)" by (auto simp: replyRemembered_def)
  then show thesis using refused by blast
next
  case True
  show thesis
  proof (cases rule: persistEvent_cases[of persist eventBytes "remembered_event k e p s" s])
    case (failed x)
    then show thesis using refused assms True by (simp add: replyRemembered_def remembered_event_def allowRule_Some)
  next
    case logged
    with assms True granted show thesis
      by (simp add: replyRemembered_def allowRule_Some remembered_event_def logged_def)
  qed
qed

text \<open>A reply either fails and changes nothing, or has one of four effects.\<close>

lemma reply_cases:
  obtains (refused) f where "reply persist eventBytes k resolution supplied s = (Some f, s)"
  | (once) e where "\<not> closed s" "map_of (pending s) k = Some e" "isResolution resolution = Some Once"
      "persist (once_event k e s) = None"
      "reply persist eventBytes k resolution supplied s
         = (None, deletePending k (settle k Granted (logged (once_event k e s) s)))"
  | (run) e p d where "\<not> closed s" "map_of (pending s) k = Some e" "isResolution resolution = Some Run"
      "replyPattern Run supplied e = Inr p" "gs_planDigest s = Some d"
      "ruleCount s < maximumRules" "valid_pattern p"
      "isValidGrantPattern p (pe_capability e) (pe_tier e) (gs_workspaceRoot s) = Some True"
      "persist (run_event k e d p s) = None"
      "reply persist eventBytes k resolution supplied s
         = (None, resolveCovered ((logged (run_event k e d p s) s)\<lparr>runRules := runRules s @ [run_grant e p]\<rparr>))"
  | (remembered) e p where "\<not> closed s" "map_of (pending s) k = Some e" "isResolution resolution = Some Remembered"
      "replyPattern Remembered supplied e = Inr p" "ruleCount s < maximumRules" "valid_pattern p"
      "isValidGrantPattern p (pe_capability e) (pe_tier e) (gs_workspaceRoot s) = Some True"
      "persist (remembered_event k e p s) = None"
      "reply persist eventBytes k resolution supplied s
         = (None, resolveCovered ((logged (remembered_event k e p s) s)
              \<lparr>rememberedRules := rememberedRules s @ [\<lparr>r_effect = Allow, r_pattern = p\<rparr>]\<rparr>))"
  | (deny) e where "\<not> closed s" "map_of (pending s) k = Some e" "isResolution resolution = Some Deny_request"
      "persist (deny_event k e s) = None"
      "reply persist eventBytes k resolution supplied s
         = (None, deletePending k (settle k
             (Refused (permissionDenied (pe_capability e) ''permission request denied'')) (logged (deny_event k e s) s)))"
proof (cases "closed s \<or> isResolution resolution = None \<or> map_of (pending s) k = None")
  case True
  then have "\<exists>f. reply persist eventBytes k resolution supplied s = (Some f, s)"
    by (auto simp: reply_def split: option.splits)
  then show thesis using refused by blast
next
  case False
  then obtain res e where o: "\<not> closed s" "isResolution resolution = Some res" "map_of (pending s) k = Some e" by auto
  show thesis
  proof (cases "replyPattern res supplied e")
    case (Inl f)
    with o refused show thesis by (simp add: reply_def)
  next
    case (Inr p)
    note v = replyPattern_Some[OF Inr]
    show thesis
    proof (cases res)
      case Once
      with v have p: "p = exactPattern (pe_capability e)" by simp
      show thesis
        by (cases rule: persistEvent_cases[of persist eventBytes "once_event k e s" s])
           (use o Inr Once p refused once in \<open>auto simp: reply_def once_event_def\<close>)
    next
      case Deny_request
      with v have p: "p = exactPattern (pe_capability e)" by simp
      show thesis
        by (cases rule: persistEvent_cases[of persist eventBytes "deny_event k e s" s])
           (use o Inr Deny_request p refused deny in \<open>auto simp: reply_def deny_event_def\<close>)
    next
      case Run
      show thesis
        by (cases rule: replyRun_cases[OF v(1), of persist eventBytes k e s])
           (use o Inr Run v(1) refused run in \<open>auto simp: reply_def\<close>)
    next
      case Remembered
      show thesis
        by (cases rule: replyRemembered_cases[OF v(1), of persist eventBytes k e s])
           (use o Inr Remembered v(1) refused remembered in \<open>auto simp: reply_def\<close>)
    qed
  qed
qed

section \<open>Envelopes and checks\<close>

lemma prepareEnvelope_valid:
  assumes "prepareEnvelope input expected root = Inr pv"
  shows "\<forall>p \<in> set (pv_patterns pv). valid_pattern p" "canonicalEnvelopePatterns (pv_patterns pv) = Some (pv_patterns pv)"
    "pv_patterns pv \<noteq> [] \<Longrightarrow> expected = Some (pv_planDigest pv) \<and> set (pv_patterns pv) = set (eo_patterns input)
       \<and> (\<forall>p \<in> set (pv_patterns pv). isValidEnvelopePattern p root = Some True)"
    "length (pv_patterns pv) \<le> maximumEnvelopePatterns"
proof -
  obtain qs where l: "length (eo_patterns input) \<le> maximumEnvelopePatterns"
    and qs: "canonicalEnvelopePatterns (eo_patterns input) = Some qs" and pv: "pv_patterns pv = qs"
    using assms by (auto simp: prepareEnvelope_def split: if_splits option.splits)
  show "\<forall>p \<in> set (pv_patterns pv). valid_pattern p" using canonical_spec(1,2)[OF qs] pv by simp
  show "canonicalEnvelopePatterns (pv_patterns pv) = Some (pv_patterns pv)" using canonical_idem[OF qs] pv by simp
  show "length (pv_patterns pv) \<le> maximumEnvelopePatterns" using canonical_length[OF qs] pv l by simp
  show "expected = Some (pv_planDigest pv) \<and> set (pv_patterns pv) = set (eo_patterns input)
       \<and> (\<forall>p \<in> set (pv_patterns pv). isValidEnvelopePattern p root = Some True)" if "pv_patterns pv \<noteq> []"
    using assms that qs canonical_spec(1)[OF qs]
    by (auto simp: prepareEnvelope_def findIndexM_None split: if_splits option.splits)
qed

definition allow :: "capability_pattern \<Rightarrow> rule" where
  "allow p = \<lparr>r_effect = Allow, r_pattern = p\<rparr>"

lemma mapM_allowRule: "(\<forall>p \<in> set ps. valid_pattern p) \<Longrightarrow> mapM allowRule ps = Some (map allow ps)"
  by (rule mapM_id) (simp add: allowRule_Some allow_def)

definition envelope_event :: "prepared_envelope \<Rightarrow> grant_store \<Rightarrow> grant_event" where
  "envelope_event pv s = EnvelopeGrant (orEmpty (gs_runId s)) (pv_planDigest pv) (pv_patterns pv) (pv_scope pv)"

definition activated :: "prepared_envelope \<Rightarrow> ustring \<Rightarrow> grant_store \<Rightarrow> grant_store" where
  "activated pv signature s = pushRules (pv_scope pv) (map allow (pv_patterns pv))
     ((logged (envelope_event pv s) s)\<lparr>grantedEnvelopes := grantedEnvelopes s @ [signature]\<rparr>)"

lemma envelopeIncoming_fresh [simp]: "envelopeIncoming pv False s = pv_patterns pv"
  by (simp add: envelopeIncoming_def Let_def)

lemma admitEnvelope_fresh:
  assumes "envelopeSignature (pv_planDigest pv) (pv_scope pv) (pv_patterns pv) = Some signature"
    and "signature \<notin> set (grantedEnvelopes s)" "pv_patterns pv \<noteq> []" "\<forall>p \<in> set (pv_patterns pv). valid_pattern p"
  shows "(\<exists>e. admitEnvelope persist eventBytes pv seeded s = Inl (Fail e)) \<or>
     (ruleCount s + length (pv_patterns pv) \<le> maximumRules \<and> length (grantedEnvelopes s) < maximumRules
      \<and> persist (envelope_event pv s) = None
      \<and> admitEnvelope persist eventBytes pv seeded s = Inr (True, activated pv signature s))"
proof (cases rule: persistEvent_cases[of persist eventBytes "envelope_event pv s" s])
  case (failed e)
  then show ?thesis using assms
    by (auto simp: admitEnvelope_def Let_def envelope_event_def)
next
  case logged
  then show ?thesis using assms
    by (auto simp: admitEnvelope_def Let_def envelope_event_def mapM_allowRule activated_def)
       (auto simp: logged_def)
qed

lemma grantEnvelope_cases:
  obtains (refused) f where "grantEnvelope persist eventBytes input s = (Some (Fail f), s)"
  | (noop) "grantEnvelope persist eventBytes input s = (None, s)"
  | (granted) pv signature where "prepareEnvelope input (gs_planDigest s) (gs_workspaceRoot s) = Inr pv"
      "pv_patterns pv \<noteq> []" "\<not> closed s"
      "envelopeSignature (pv_planDigest pv) (pv_scope pv) (pv_patterns pv) = Some signature"
      "signature \<notin> set (grantedEnvelopes s)" "ruleCount s + length (pv_patterns pv) \<le> maximumRules"
      "length (grantedEnvelopes s) < maximumRules" "persist (envelope_event pv s) = None"
      "grantEnvelope persist eventBytes input s = (None, resolveCovered (activated pv signature s))"
proof (cases "prepareEnvelope input (gs_planDigest s) (gs_workspaceRoot s)")
  case (Inl e)
  then show thesis using refused by (simp add: grantEnvelope_def)
next
  case (Inr pv)
  note v = prepareEnvelope_valid[OF Inr]
  show thesis
  proof (cases "pv_patterns pv = [] \<or> closed s")
    case True
    then show thesis using Inr refused noop by (cases "pv_patterns pv = []") (simp_all add: grantEnvelope_def)
  next
    case False
    obtain signature where sig: "envelopeSignature (pv_planDigest pv) (pv_scope pv) (pv_patterns pv) = Some signature"
      using v(1) envelopeSignature_None[of "pv_planDigest pv" "pv_scope pv" "pv_patterns pv"]
      by (cases "envelopeSignature (pv_planDigest pv) (pv_scope pv) (pv_patterns pv)") auto
    show thesis
    proof (cases "signature \<in> set (grantedEnvelopes s)")
      case True
      then show thesis using noop Inr False sig by (simp add: grantEnvelope_def admitEnvelope_def)
    next
      case n: False
      from admitEnvelope_fresh[OF sig n _ v(1), of persist eventBytes False] False Inr n sig refused granted
      show thesis by (auto simp: grantEnvelope_def)
    qed
  qed
qed

lemma map_sum_Inr: "map_sum f g x = Inr y \<longleftrightarrow> (\<exists>z. x = Inr z \<and> y = g z)"
  by (cases x) auto

lemma snapshotRequest_Some:
  "snapshotRequest numText heap c m = Inr cm \<Longrightarrow> \<exists>j. cm = (c, j) \<and> valid_capability c
     \<and> (m = None \<and> j = JObject [] \<or> (\<exists>v. m = Some v \<and> metadataSnapshot numText heap v = Inr j))"
  by (auto simp: snapshotRequest_def map_sum_Inr split: option.splits)

lemma check_cases:
  obtains (same) r where "check numText heap ceiling c m s = (r, s)" "\<And>k. r \<noteq> Waiting k"
  | (unattended) r where "\<not> gs_attended s" "\<And>k. r \<noteq> Waiting k" "r \<noteq> Passed"
      "check numText heap ceiling c m s = (r, s\<lparr>nextRequestId := nextRequestId s + 1\<rparr>)"
  | (waiting) j where "\<not> closed s" "gs_attended s" "allows ceiling c" "valid_capability c"
      "evaluate (rulesets s c) c = Ask" "length (pending s) < maximumPendingRequests"
      "snapshotRequest numText heap c m = Inr (c, j)"
      "check numText heap ceiling c m s = (Waiting (requestIdText (nextRequestId s)),
         s\<lparr>nextRequestId := nextRequestId s + 1,
           pending := jsmap_set (pending s) (requestIdText (nextRequestId s))
             \<lparr>pe_requestId = requestIdText (nextRequestId s), pe_capability = c, pe_tier = tierOf c (gs_workspaceRoot s),
              pe_meta = j, pe_ceiling = ceiling\<rparr>\<rparr>)"
proof (cases "snapshotRequest numText heap c m")
  case (Inl e)
  then show thesis using same by (simp add: check_def)
next
  case (Inr cm)
  then obtain j where j: "cm = (c, j)" "valid_capability c"
    using snapshotRequest_Some by blast
  show thesis
  proof (cases "closed s \<or> \<not> allows ceiling c \<or> evaluate (rulesets s c) c \<noteq> Ask")
    case True
    then have "\<exists>r. check numText heap ceiling c m s = (r, s) \<and> (\<forall>k. r \<noteq> Waiting k)"
      using Inr j by (cases "evaluate (rulesets s c) c") (auto simp: check_def decide_def)
    then show thesis using same by blast
  next
    case ask: False
    show thesis
    proof (cases "gs_attended s")
      case False
      then have "\<exists>r. check numText heap ceiling c m s = (r, s\<lparr>nextRequestId := nextRequestId s + 1\<rparr>) \<and> (\<forall>k. r \<noteq> Waiting k) \<and> r \<noteq> Passed"
        using Inr j ask by (auto simp: check_def decide_def Let_def)
      then show thesis using unattended False by blast
    next
      case True
      show thesis
      proof (cases "length (pending s) < maximumPendingRequests")
        case False
        then have "\<exists>r. check numText heap ceiling c m s = (r, s) \<and> (\<forall>k. r \<noteq> Waiting k)"
          using Inr j ask True by (auto simp: check_def decide_def allocateRequest_def)
        then show thesis using same by blast
      next
        case l: True
        show thesis
          by (rule waiting) (use Inr j ask True l in \<open>auto simp: check_def decide_def allocateRequest_def Let_def\<close>)
      qed
    qed
  qed
qed

section \<open>Closing\<close>

lemma closeEntry_authority: "same_authority s (foldl closeEntry s es)"
proof (induction es arbitrary: s)
  case (Cons x es)
  have "same_authority s (closeEntry s x)" by (simp add: closeEntry_def same_authority_def)
  with Cons[of "closeEntry s x"] show ?case by (auto intro: same_authority_trans)
qed simp

lemma closeEntry_pending: "pending (foldl closeEntry s es) = pending s"
  by (induction es arbitrary: s) (simp_all add: closeEntry_def)

lemma closeEntry_settled:
  "map_of (settled (foldl closeEntry s es)) k = (case map_of (settled s) k of Some r \<Rightarrow> Some r
       | None \<Rightarrow> map_option (\<lambda>e. Refused (permissionDenied (pe_capability e) ''grant store closed'')) (map_of es k))"
  by (induction es arbitrary: s) (auto simp: closeEntry_def settle_lookup split: option.splits)

lemma finalizer_spec:
  "pending (finalizer s) = []" "closed (finalizer s)" "configuredRules (finalizer s) = configuredRules s"
  "envelopeRules (finalizer s) = envelopeRules s" "runRules (finalizer s) = runRules s"
  "rememberedRules (finalizer s) = rememberedRules s" "grantedEnvelopes (finalizer s) = grantedEnvelopes s"
  "nextRequestId (finalizer s) = nextRequestId s" "journal (finalizer s) = journal s"
  "gs_workspaceRoot (finalizer s) = gs_workspaceRoot s"
  "map_of (settled (finalizer s)) k = (case map_of (settled s) k of Some r \<Rightarrow> Some r
       | None \<Rightarrow> map_option (\<lambda>e. Refused (permissionDenied (pe_capability e) ''grant store closed'')) (map_of (pending s) k))"
  using closeEntry_authority[of "s\<lparr>closed := True, pending := []\<rparr>" "pending s"]
    closeEntry_pending[of "s\<lparr>closed := True, pending := []\<rparr>" "pending s"]
    closeEntry_settled[of "s\<lparr>closed := True, pending := []\<rparr>" "pending s"]
  by (simp_all add: finalizer_def same_authority_def)

section \<open>The invariant\<close>

definition issued :: "grant_store \<Rightarrow> ustring \<Rightarrow> bool" where
  "issued s k = (\<exists>n < nextRequestId s. k = requestIdText n)"

definition entry_inv :: "grant_store \<Rightarrow> ustring \<Rightarrow> pending_entry \<Rightarrow> bool" where
  "entry_inv s k e = (pe_requestId e = k \<and> issued s k \<and> valid_capability (pe_capability e)
     \<and> pe_tier e = tierOf (pe_capability e) (gs_workspaceRoot s) \<and> allows (pe_ceiling e) (pe_capability e)
     \<and> lastMatch Ask (configuredRules s) (pe_capability e) \<noteq> Deny)"

definition core_inv :: "grant_store \<Rightarrow> bool" where
  "core_inv s = (distinct (map fst (pending s)) \<and> length (pending s) \<le> maximumPendingRequests
     \<and> ruleCount s \<le> maximumRules \<and> distinct (grantedEnvelopes s) \<and> length (grantedEnvelopes s) \<le> maximumRules
     \<and> (closed s \<longrightarrow> pending s = []) \<and> (\<forall>(k, e) \<in> set (pending s). entry_inv s k e)
     \<and> (\<forall>k. map_of (settled s) k \<noteq> None \<longrightarrow> issued s k \<and> k \<notin> fst ` set (pending s)))"

text \<open>In addition, no request waits for what the rules in force already allow.\<close>

definition store_inv :: "grant_store \<Rightarrow> bool" where
  "store_inv s = (core_inv s \<and> (\<forall>(k, e) \<in> set (pending s). \<not> covered s e))"

lemma issued_same: "nextRequestId s' = nextRequestId s \<Longrightarrow> issued s' = issued s"
  by (simp add: issued_def fun_eq_iff)

lemma entry_inv_same:
  "nextRequestId s' = nextRequestId s \<Longrightarrow> gs_workspaceRoot s' = gs_workspaceRoot s \<Longrightarrow>
   configuredRules s' = configuredRules s \<Longrightarrow> entry_inv s' = entry_inv s"
  using issued_same[of s' s] by (simp add: entry_inv_def fun_eq_iff)

lemma core_shrink:
  assumes "core_inv s" "same_authority s s'" "pending s' = filter P (pending s)"
    and "\<And>k. map_of (settled s') k \<noteq> None \<Longrightarrow> map_of (settled s) k = None \<Longrightarrow>
       k \<in> fst ` set (pending s) \<and> k \<notin> fst ` set (pending s')"
  shows "core_inv s'"
proof -
  have i: "issued s' = issued s" "entry_inv s' = entry_inv s" "ruleCount s' = ruleCount s"
    using assms(2) issued_same[of s' s] entry_inv_same[of s' s] by (simp_all add: same_authority_def ruleCount_def)
  have sub: "set (pending s') \<subseteq> set (pending s)" using assms(3) by auto
  have st: "issued s k \<and> k \<notin> fst ` set (pending s')" if "map_of (settled s') k \<noteq> None" for k
  proof (cases "map_of (settled s) k")
    case None
    then have "k \<in> fst ` set (pending s) \<and> k \<notin> fst ` set (pending s')" using assms(4) that by blast
    with assms(1) show ?thesis by (force simp: core_inv_def entry_inv_def)
  next
    case (Some r)
    then have "issued s k \<and> k \<notin> fst ` set (pending s)" using assms(1) by (auto simp: core_inv_def)
    with sub show ?thesis by blast
  qed
  have "distinct (map fst (pending s'))"
    using assms(1,3) by (auto simp: core_inv_def distinct_map inj_on_def)
  then show ?thesis
    using assms(1,2) sub st unfolding core_inv_def i
    by (auto simp: same_authority_def assms(3) intro: le_trans[OF length_filter_le])
qed

lemma core_resolve:
  assumes "core_inv s"
  shows "store_inv (resolveCovered s)"
proof -
  have d: "distinct (map fst (pending s))" using assms by (simp add: core_inv_def)
  note p = resolveCovered_pending[OF d]
  have "core_inv (resolveCovered s)"
  proof (rule core_shrink[OF assms resolveCovered_authority p])
    fix k assume "map_of (settled (resolveCovered s)) k \<noteq> None" "map_of (settled s) k = None"
    then obtain e where e: "(k, e) \<in> set (pending s)" "covered s e"
      by (auto simp: resolveCovered_settled split: if_splits)
    moreover have "k \<notin> fst ` set (pending (resolveCovered s))"
    proof
      assume "k \<in> fst ` set (pending (resolveCovered s))"
      then obtain e' where "(k, e') \<in> set (pending s)" "\<not> covered s e'" by (auto simp: p)
      with e show False using eq_key_imp_eq_value[OF d] by blast
    qed
    ultimately show "k \<in> fst ` set (pending s) \<and> k \<notin> fst ` set (pending (resolveCovered s))" by force
  qed
  then show ?thesis using covered_same[OF resolveCovered_authority, of s] by (auto simp: store_inv_def p)
qed

lemma inv_drop:
  assumes "store_inv s" "same_authority s s'" "pending s' = jsmap_delete (pending s) k"
    and "\<And>j. map_of (settled s') j \<noteq> None \<Longrightarrow> map_of (settled s) j = None \<Longrightarrow> j = k \<and> k \<in> fst ` set (pending s)"
  shows "store_inv s'"
proof -
  have "core_inv s'"
  proof (rule core_shrink[OF _ assms(2)])
    show "core_inv s" using assms(1) by (simp add: store_inv_def)
    show "pending s' = filter (\<lambda>(j, e). j \<noteq> k) (pending s)" using assms(3) by (simp add: jsmap_delete_def)
    show "j \<in> fst ` set (pending s) \<and> j \<notin> fst ` set (pending s')"
      if "map_of (settled s') j \<noteq> None" "map_of (settled s) j = None" for j
      using assms(3) assms(4)[OF that] by (auto simp: jsmap_delete_def)
  qed
  then show ?thesis
    using assms(1,3) covered_same[OF assms(2)] by (auto simp: store_inv_def jsmap_delete_def)
qed

text \<open>Installing a rule, recording an event or an envelope touches neither requests nor waiters.\<close>

lemma core_extend:
  assumes "core_inv s" "pending s' = pending s" "settled s' = settled s" "closed s' = closed s"
    and "nextRequestId s' = nextRequestId s" "gs_workspaceRoot s' = gs_workspaceRoot s"
    and "configuredRules s' = configuredRules s" "ruleCount s' \<le> maximumRules"
    and "distinct (grantedEnvelopes s')" "length (grantedEnvelopes s') \<le> maximumRules"
  shows "core_inv s'"
  using assms issued_same[of s' s] entry_inv_same[of s' s] by (simp add: core_inv_def)

lemma logged_simps [simp]:
  "pending (logged ev s) = pending s" "settled (logged ev s) = settled s" "closed (logged ev s) = closed s"
  "nextRequestId (logged ev s) = nextRequestId s" "gs_workspaceRoot (logged ev s) = gs_workspaceRoot s"
  "configuredRules (logged ev s) = configuredRules s" "envelopeRules (logged ev s) = envelopeRules s"
  "runRules (logged ev s) = runRules s" "rememberedRules (logged ev s) = rememberedRules s"
  "grantedEnvelopes (logged ev s) = grantedEnvelopes s" "journal (logged ev s) = journal s @ [ev]"
  "gs_planDigest (logged ev s) = gs_planDigest s" "gs_runId (logged ev s) = gs_runId s"
  "gs_attended (logged ev s) = gs_attended s"
  by (simp_all add: logged_def)

lemma rulesets_logged [simp]: "rulesets (logged ev s) = rulesets s"
  by (simp add: rulesets_def fun_eq_iff)

lemma store_inv_logged: "store_inv s \<Longrightarrow> store_inv (logged ev s)"
proof -
  have "covered (logged ev s) = covered s" by (simp add: covered_def fun_eq_iff)
  moreover have "ruleCount (logged ev s) = ruleCount s" by (simp add: ruleCount_def)
  ultimately show "store_inv s \<Longrightarrow> ?thesis"
    using core_extend[of s "logged ev s"] by (simp add: store_inv_def core_inv_def)
qed

lemma inv_settle_drop:
  assumes "store_inv s" "map_of (pending s) k = Some e"
  shows "store_inv (deletePending k (settle k r (logged ev s)))"
proof (rule inv_drop[OF store_inv_logged[OF assms(1)]])
  show "same_authority (logged ev s) (deletePending k (settle k r (logged ev s)))"
    by (simp add: same_authority_def)
  show "pending (deletePending k (settle k r (logged ev s))) = jsmap_delete (pending (logged ev s)) k" by simp
  show "j = k \<and> k \<in> fst ` set (pending (logged ev s))"
    if "map_of (settled (deletePending k (settle k r (logged ev s)))) j \<noteq> None" "map_of (settled (logged ev s)) j = None" for j
    using that map_of_SomeD[OF assms(2)] by (force simp: settle_lookup split: if_splits)
qed

lemma reply_inv:
  assumes "store_inv s"
  shows "store_inv (snd (reply persist eventBytes k resolution supplied s))"
proof (cases rule: reply_cases[of persist eventBytes k resolution supplied s])
  case (run e p d)
  have "core_inv ((logged (run_event k e d p s) s)\<lparr>runRules := runRules s @ [run_grant e p]\<rparr>)"
    by (rule core_extend[of s]) (use assms run in \<open>simp_all add: store_inv_def core_inv_def ruleCount_def\<close>)
  with run show ?thesis by (simp add: core_resolve)
next
  case (remembered e p)
  have "core_inv ((logged (remembered_event k e p s) s)
      \<lparr>rememberedRules := rememberedRules s @ [\<lparr>r_effect = Allow, r_pattern = p\<rparr>]\<rparr>)"
    by (rule core_extend[of s]) (use assms remembered in \<open>simp_all add: store_inv_def core_inv_def ruleCount_def\<close>)
  with remembered show ?thesis by (simp add: core_resolve)
qed (use assms in \<open>auto intro: inv_settle_drop\<close>)

lemma pushRules_simps [simp]:
  "pending (pushRules sc rs s) = pending s" "settled (pushRules sc rs s) = settled s" "closed (pushRules sc rs s) = closed s"
  "nextRequestId (pushRules sc rs s) = nextRequestId s" "gs_workspaceRoot (pushRules sc rs s) = gs_workspaceRoot s"
  "configuredRules (pushRules sc rs s) = configuredRules s" "runRules (pushRules sc rs s) = runRules s"
  "grantedEnvelopes (pushRules sc rs s) = grantedEnvelopes s" "journal (pushRules sc rs s) = journal s"
  "ruleCount (pushRules sc rs s) = ruleCount s + length rs"
  "gs_planDigest (pushRules sc rs s) = gs_planDigest s" "gs_runId (pushRules sc rs s) = gs_runId s"
  by (auto simp: pushRules_def ruleCount_def split: envelope_scope.splits)

lemma ruleCount_simps [simp]:
  "ruleCount (logged ev s) = ruleCount s" "ruleCount (s\<lparr>grantedEnvelopes := g\<rparr>) = ruleCount s"
  by (simp_all add: ruleCount_def)

lemma activated_core:
  assumes "core_inv s" "signature \<notin> set (grantedEnvelopes s)" "ruleCount s + length (pv_patterns pv) \<le> maximumRules"
    "length (grantedEnvelopes s) < maximumRules"
  shows "core_inv (activated pv signature s)"
  by (rule core_extend[OF assms(1)])
     (use assms in \<open>simp_all add: activated_def core_inv_def\<close>)

lemma grantEnvelope_inv:
  assumes "store_inv s"
  shows "store_inv (snd (grantEnvelope persist eventBytes input s))"
proof (cases rule: grantEnvelope_cases[of persist eventBytes input s])
  case (granted pv signature)
  then have "core_inv (activated pv signature s)" using assms by (intro activated_core) (simp_all add: store_inv_def)
  with granted show ?thesis by (simp add: core_resolve)
qed (use assms in simp_all)

lemma requestIdText_inject: "requestIdText m = requestIdText n \<Longrightarrow> m = n"
  by (auto simp: requestIdText_def dest: decimal_inject)

lemma issued_Suc: "nextRequestId s' = nextRequestId s + 1 \<Longrightarrow> issued s k \<Longrightarrow> issued s' k"
  by (auto simp: issued_def intro: less_SucI)

lemma not_issued_next: "\<not> issued s (requestIdText (nextRequestId s))"
  by (auto simp: issued_def dest: requestIdText_inject)

lemma evaluate_Ask_configured: "evaluate (rulesets s c) c = Ask \<Longrightarrow> lastMatch Ask (configuredRules s) c \<noteq> Deny"
  by (auto simp: evaluate_def rulesets_def Let_def split: if_splits)

lemma check_inv:
  assumes "store_inv s"
  shows "store_inv (snd (check numText heap ceiling c m s))"
proof (cases rule: check_cases[of numText heap ceiling c m s])
  case (same r)
  with assms show ?thesis by simp
next
  case (unattended r)
  let ?s = "s\<lparr>nextRequestId := nextRequestId s + 1\<rparr>"
  have e: "entry_inv s k x \<Longrightarrow> entry_inv ?s k x" for k x by (auto simp: entry_inv_def issued_def intro: less_SucI)
  have i: "issued s k \<Longrightarrow> issued ?s k" for k by (rule issued_Suc) simp_all
  have "ruleCount ?s = ruleCount s" "covered ?s = covered s"
    by (simp_all add: ruleCount_def covered_def rulesets_def fun_eq_iff)
  then have "store_inv ?s" using assms e i unfolding store_inv_def core_inv_def by auto
  with unattended show ?thesis by simp
next
  case (waiting j)
  let ?k = "requestIdText (nextRequestId s)"
  let ?e = "\<lparr>pe_requestId = ?k, pe_capability = c, pe_tier = tierOf c (gs_workspaceRoot s), pe_meta = j, pe_ceiling = ceiling\<rparr>"
  let ?s = "s\<lparr>nextRequestId := nextRequestId s + 1, pending := jsmap_set (pending s) ?k ?e\<rparr>"
  have core: "core_inv s" and unc: "\<forall>(k, e) \<in> set (pending s). \<not> covered s e" using assms by (auto simp: store_inv_def)
  have n: "?k \<notin> fst ` set (pending s)"
    using core not_issued_next[of s] by (force simp: core_inv_def entry_inv_def)
  then have p: "pending ?s = pending s @ [(?k, ?e)]" by (simp add: jsmap_set_append)
  have e: "entry_inv s k x \<Longrightarrow> entry_inv ?s k x" for k x by (auto simp: entry_inv_def issued_def intro: less_SucI)
  have i: "issued s k \<Longrightarrow> issued ?s k" for k by (rule issued_Suc) simp_all
  have ne: "entry_inv ?s ?k ?e"
    using waiting evaluate_Ask_configured[of s c] by (auto simp: entry_inv_def issued_def)
  have same: "ruleCount ?s = ruleCount s" "covered ?s = covered s"
    by (simp_all add: ruleCount_def covered_def rulesets_def fun_eq_iff)
  have st: "map_of (settled s) ?k = None" using core not_issued_next[of s] by (auto simp: core_inv_def)
  have "core_inv ?s"
    using core waiting(1,6) n e i ne st unfolding core_inv_def same p by auto
  moreover have "\<forall>(k, e) \<in> set (pending ?s). \<not> covered ?s e"
    unfolding p same using unc waiting(5) by (auto simp: covered_def)
  ultimately show ?thesis using waiting by (simp add: store_inv_def)
qed

lemma leave_inv: "store_inv s \<Longrightarrow> store_inv (leave k s)"
  unfolding leave_def by (rule inv_drop[of s _ k]) (auto simp: same_authority_def)

lemma finalizer_inv:
  assumes "store_inv s"
  shows "store_inv (finalizer s)"
proof -
  have i: "issued (finalizer s) = issued s" "ruleCount (finalizer s) = ruleCount s"
    using issued_same[of "finalizer s" s] by (simp_all add: finalizer_spec ruleCount_def)
  have "issued s k" if st: "map_of (settled (finalizer s)) k \<noteq> None" for k
  proof (cases "map_of (settled s) k")
    case None
    then obtain e where "(k, e) \<in> set (pending s)"
      using st by (auto simp: finalizer_spec dest: map_of_SomeD)
    with assms show ?thesis by (auto simp: store_inv_def core_inv_def entry_inv_def)
  qed (use assms in \<open>auto simp: store_inv_def core_inv_def\<close>)
  then show ?thesis using assms unfolding store_inv_def core_inv_def i by (simp add: finalizer_spec)
qed

lemma step_inv: "store_step s s' \<Longrightarrow> store_inv s \<Longrightarrow> store_inv s'"
  by (cases rule: store_step.cases) (auto intro: check_inv reply_inv grantEnvelope_inv leave_inv finalizer_inv)

lemma reaches_inv: "reaches s s' \<Longrightarrow> store_inv s \<Longrightarrow> store_inv s'"
  by (induction rule: rtranclp_induct) (auto intro: step_inv)

section \<open>Construction\<close>

lemma admitEnvelope_cases:
  assumes "admitEnvelope persist eventBytes pv seeded s = Inr (b, s')" "\<forall>p \<in> set (pv_patterns pv). valid_pattern p"
  obtains (noop) "s' = s" "\<not> b"
  | (fresh) signature where "envelopeSignature (pv_planDigest pv) (pv_scope pv) (pv_patterns pv) = Some signature"
      "signature \<notin> set (grantedEnvelopes s)" "ruleCount s + length (pv_patterns pv) \<le> maximumRules"
      "length (grantedEnvelopes s) < maximumRules" "persist (envelope_event pv s) = None"
      "s' = activated pv signature s" "b"
  | (durable) signature where "envelopeSignature (pv_planDigest pv) (pv_scope pv) (pv_patterns pv) = Some signature"
      "signature \<in> set (grantedEnvelopes s)" "seeded" "b"
      "ruleCount s + length (envelopeIncoming pv True s) \<le> maximumRules"
      "s' = pushRules (pv_scope pv) (map allow (envelopeIncoming pv True s)) s"
proof (cases "pv_patterns pv = []")
  case True
  then show thesis using assms noop by (simp add: admitEnvelope_def)
next
  case False
  obtain signature where sig: "envelopeSignature (pv_planDigest pv) (pv_scope pv) (pv_patterns pv) = Some signature"
    using assms(2) envelopeSignature_None[of "pv_planDigest pv" "pv_scope pv" "pv_patterns pv"]
    by (cases "envelopeSignature (pv_planDigest pv) (pv_scope pv) (pv_patterns pv)") auto
  show thesis
  proof (cases "signature \<in> set (grantedEnvelopes s)")
    case d: True
    have "set (envelopeIncoming pv True s) \<subseteq> set (pv_patterns pv)" by (auto simp: envelopeIncoming_def Let_def)
    then have "mapM allowRule (envelopeIncoming pv True s) = Some (map allow (envelopeIncoming pv True s))"
      using assms(2) by (intro mapM_allowRule) auto
    note m = this
    show thesis
    proof (cases "seeded \<and> ruleCount s + length (envelopeIncoming pv True s) \<le> maximumRules")
      case True
      then have "admitEnvelope persist eventBytes pv seeded s
          = Inr (True, pushRules (pv_scope pv) (map allow (envelopeIncoming pv True s)) s)"
        using sig d False m by (simp add: admitEnvelope_def)
      with True assms(1) show thesis by (intro durable[OF sig d]) simp_all
    next
      case False
      then have "admitEnvelope persist eventBytes pv seeded s
          = (if seeded then Inl (Fail (tooMany ''rules'')) else Inr (False, s))"
        using sig d \<open>pv_patterns pv \<noteq> []\<close> by (cases seeded) (simp_all add: admitEnvelope_def Let_def not_le)
      with assms(1) show thesis by (intro noop) (simp_all split: if_splits)
    qed
  next
    case n: False
    show thesis using admitEnvelope_fresh[OF sig n False assms(2), of persist eventBytes seeded] assms(1)
      by (auto intro: fresh[OF sig n])
  qed
qed

lemma find_index_valid: "find_index (\<lambda>v. \<not> P v) xs = None \<longleftrightarrow> (\<forall>x \<in> set xs. P x)"
  by (simp add: find_index_None)

text \<open>The store before its construction envelope is admitted.\<close>

definition fresh_store :: "grant_store \<Rightarrow> bool" where
  "fresh_store s = (envelopeRules s = [] \<and> pending s = [] \<and> settled s = [] \<and> \<not> closed s \<and> journal s = []
     \<and> nextRequestId s = 1 \<and> ruleCount s \<le> maximumRules \<and> distinct (grantedEnvelopes s)
     \<and> length (grantedEnvelopes s) \<le> maximumRules)"

lemma fresh_store_inv: "fresh_store s \<Longrightarrow> core_inv s"
  by (simp add: fresh_store_def core_inv_def)

lemma prepareStore_Some:
  assumes "prepareStore decodeLegacy root ceiling options = Inr s"
  obtains configured remembered run signatures where
    "s = initialStore options root configured run remembered signatures"
    "validIdentity (mo_runId options)" "validIdentity (mo_planDigest options)"
    "normalizeRules (mo_rules options) = Inr (configured, remembered)"
    "prepareRunRules ceiling (mo_runRules options) = Inr run"
    "length configured + length remembered + length run \<le> maximumRules"
    "envelopeSignatures decodeLegacy (mo_signatures options) = Inr signatures"
    "\<forall>r \<in> set remembered. outsideEnvelope root r = Some False"
    "\<forall>rr \<in> set run. outsideEnvelope root (rr_rule rr) = Some False"
  using assms
  by (auto simp: prepareStore_def findIndexM_None not_less split: if_splits sum.splits option.splits)

lemma prepareStore_fresh:
  assumes "prepareStore decodeLegacy root ceiling options = Inr s"
  shows "fresh_store s" "gs_workspaceRoot s = root" "gs_planDigest s = mo_planDigest options"
proof -
  obtain configured remembered run signatures where
    s: "s = initialStore options root configured run remembered signatures"
    and l: "length configured + length remembered + length run \<le> maximumRules"
    and sg: "envelopeSignatures decodeLegacy (mo_signatures options) = Inr signatures"
    using prepareStore_Some[OF assms] by metis
  have "length signatures \<le> maximumRules"
    using sg by (auto simp: envelopeSignatures_def Let_def split: if_splits option.splits)
  then show "fresh_store s"
    using l le_trans[OF length_distinctFirst[of signatures]] by (simp add: s initialStore_def fresh_store_def ruleCount_def)
  show "gs_workspaceRoot s = root" "gs_planDigest s = mo_planDigest options" by (simp_all add: s initialStore_def)
qed

lemma make_store_cases:
  assumes "make_store decodeLegacy persist eventBytes root ceiling options = Inr s"
  obtains s0 where "fresh_store s0" "gs_workspaceRoot s0 = root" "gs_planDigest s0 = mo_planDigest options"
    "mo_envelope options = None \<and> s = s0 \<or>
     (\<exists>envelope pv b. mo_envelope options = Some envelope \<and> prepareEnvelope envelope (mo_planDigest options) root = Inr pv
        \<and> admitEnvelope persist eventBytes pv True s0 = Inr (b, s))"
proof -
  obtain s0 where s0: "prepareStore decodeLegacy root ceiling options = Inr s0"
    using assms by (auto simp: make_store_def split: sum.splits)
  have "fresh_store s0" "gs_workspaceRoot s0 = root" "gs_planDigest s0 = mo_planDigest options"
    using prepareStore_fresh[OF s0] by auto
  then show thesis
    by (rule that) (use assms s0 in \<open>auto simp: make_store_def map_sum_Inr split: option.splits sum.splits\<close>)
qed

lemma make_store_inv:
  assumes "make_store decodeLegacy persist eventBytes root ceiling options = Inr s"
  shows "store_inv s" "pending s = []" "\<not> closed s"
proof -
  obtain s0 where s0: "fresh_store s0" "gs_workspaceRoot s0 = root" "gs_planDigest s0 = mo_planDigest options"
    and s: "mo_envelope options = None \<and> s = s0 \<or>
     (\<exists>envelope pv b. mo_envelope options = Some envelope \<and> prepareEnvelope envelope (mo_planDigest options) root = Inr pv
        \<and> admitEnvelope persist eventBytes pv True s0 = Inr (b, s))"
    using make_store_cases[OF assms] .
  have c0: "core_inv s0" "pending s0 = []" "\<not> closed s0" using s0(1) fresh_store_inv by (auto simp: fresh_store_def)
  have "core_inv s \<and> pending s = [] \<and> \<not> closed s"
    using s
  proof (elim disjE conjE exE)
    fix envelope pv b assume "prepareEnvelope envelope (mo_planDigest options) root = Inr pv"
      and a: "admitEnvelope persist eventBytes pv True s0 = Inr (b, s)"
    then have v: "\<forall>p \<in> set (pv_patterns pv). valid_pattern p" using prepareEnvelope_valid(1) by blast
    show ?thesis using a v
    proof (cases rule: admitEnvelope_cases)
      case (fresh signature)
      then show ?thesis using activated_core[OF c0(1)] c0 by (auto simp: activated_def)
    next
      case (durable signature)
      have "core_inv s" by (rule core_extend[OF c0(1)]) (use durable c0 in \<open>simp_all add: core_inv_def\<close>)
      with durable c0 show ?thesis by simp
    qed (use c0 in simp)
  qed (use c0 in simp)
  then show "store_inv s" "pending s = []" "\<not> closed s" by (auto simp: store_inv_def)
qed

section \<open>The journal determines the authority\<close>

fun envelopeRulesOf :: "grant_event \<Rightarrow> rule list" where
  "envelopeRulesOf (EnvelopeGrant _ _ ps Run_scope) = map allow ps"
| "envelopeRulesOf _ = []"

fun rememberedRulesOf :: "grant_event \<Rightarrow> rule list" where
  "rememberedRulesOf (EnvelopeGrant _ _ ps Remembered_scope) = map allow ps"
| "rememberedRulesOf (RememberedGrant _ _ _ _ p _) = [allow p]"
| "rememberedRulesOf _ = []"

fun runRulesOf :: "grant_event \<Rightarrow> (rule \<times> capability_pattern list list) list" where
  "runRulesOf (RunGrant _ _ _ _ p ceiling _) = [(allow p, ceiling)]"
| "runRulesOf _ = []"

definition runKey :: "run_rule \<Rightarrow> rule \<times> capability_pattern list list" where
  "runKey rr = (rr_rule rr, groups (rr_ceiling rr))"

definition installs :: "grant_store \<Rightarrow> grant_event list \<Rightarrow> grant_store \<Rightarrow> bool" where
  "installs s events s' = (journal s' = journal s @ events \<and> configuredRules s' = configuredRules s
     \<and> envelopeRules s' = envelopeRules s @ concat (map envelopeRulesOf events)
     \<and> map runKey (runRules s') = map runKey (runRules s) @ concat (map runRulesOf events)
     \<and> rememberedRules s' = rememberedRules s @ concat (map rememberedRulesOf events))"

lemma installs_refl: "installs s [] s"
  by (simp add: installs_def)

lemma installs_trans: "installs s es t \<Longrightarrow> installs t fs u \<Longrightarrow> installs s (es @ fs) u"
  by (simp add: installs_def)

lemma installs_same: "installs s es t \<Longrightarrow> same_authority t u \<Longrightarrow> installs s es u"
  by (simp add: installs_def same_authority_def)

lemma reply_installs: "\<exists>events. installs s events (snd (reply persist eventBytes k resolution supplied s))"
proof (cases rule: reply_cases[of persist eventBytes k resolution supplied s])
  case (refused f)
  then show ?thesis using installs_refl by auto
next
  case (once e)
  then have "installs s [once_event k e s] (snd (reply persist eventBytes k resolution supplied s))"
    by (simp add: installs_def once_event_def)
  then show ?thesis ..
next
  case (run e p d)
  have "installs s [run_event k e d p s] ((logged (run_event k e d p s) s)\<lparr>runRules := runRules s @ [run_grant e p]\<rparr>)"
    by (simp add: installs_def run_event_def runKey_def run_grant_def allow_def)
  with run show ?thesis using installs_same[OF _ resolveCovered_authority] by fastforce
next
  case (remembered e p)
  have "installs s [remembered_event k e p s] ((logged (remembered_event k e p s) s)
      \<lparr>rememberedRules := rememberedRules s @ [\<lparr>r_effect = Allow, r_pattern = p\<rparr>]\<rparr>)"
    by (simp add: installs_def remembered_event_def allow_def)
  with remembered show ?thesis using installs_same[OF _ resolveCovered_authority] by fastforce
next
  case (deny e)
  then have "installs s [deny_event k e s] (snd (reply persist eventBytes k resolution supplied s))"
    by (simp add: installs_def deny_event_def)
  then show ?thesis ..
qed

lemma activated_installs: "installs s [envelope_event pv s] (activated pv signature s)"
  by (cases "pv_scope pv") (simp_all add: installs_def activated_def envelope_event_def pushRules_def)

lemma grantEnvelope_installs: "\<exists>events. installs s events (snd (grantEnvelope persist eventBytes input s))"
proof (cases rule: grantEnvelope_cases[of persist eventBytes input s])
  case (granted pv signature)
  then show ?thesis using installs_same[OF activated_installs resolveCovered_authority] by fastforce
qed (use installs_refl in auto)

lemma check_installs: "installs s [] (snd (check numText heap ceiling c m s))"
  by (cases rule: check_cases[of numText heap ceiling c m s]) (auto simp: installs_def)

lemma step_installs:
  assumes "store_step s s'"
  shows "\<exists>events. installs s events s'"
  using assms
proof (cases rule: store_step.cases)
  case (leave k)
  then have "installs s [] s'" by (simp add: installs_def leave_def)
  then show ?thesis ..
next
  case close
  then have "installs s [] s'" by (simp add: installs_def finalizer_spec)
  then show ?thesis ..
qed (use reply_installs grantEnvelope_installs check_installs in blast)+

lemma reaches_installs: "reaches s s' \<Longrightarrow> \<exists>events. installs s events s'"
proof (induction rule: rtranclp_induct)
  case base
  then show ?case using installs_refl by blast
next
  case (step t u)
  then show ?case using step_installs installs_trans by blast
qed

section \<open>What releases a waiter\<close>

lemma granted_justified_reply:
  assumes "map_of (settled (snd (reply persist eventBytes k resolution supplied s))) j = Some Granted"
    "map_of (settled s) j = None"
  shows "\<exists>e. (j, e) \<in> set (pending s) \<and>
     (j = k \<and> journal (snd (reply persist eventBytes k resolution supplied s)) = journal s @ [once_event j e s]
      \<or> covered (snd (reply persist eventBytes k resolution supplied s)) e)"
proof (cases rule: reply_cases[of persist eventBytes k resolution supplied s])
  case (run e p d)
  let ?t = "(logged (run_event k e d p s) s)\<lparr>runRules := runRules s @ [run_grant e p]\<rparr>"
  have "covered (resolveCovered ?t) = covered ?t" by (rule covered_same) simp
  with run assms show ?thesis by (auto simp: resolveCovered_settled split: if_splits)
next
  case (remembered e p)
  let ?t = "(logged (remembered_event k e p s) s)
      \<lparr>rememberedRules := rememberedRules s @ [\<lparr>r_effect = Allow, r_pattern = p\<rparr>]\<rparr>"
  have "covered (resolveCovered ?t) = covered ?t" by (rule covered_same) simp
  with remembered assms show ?thesis by (auto simp: resolveCovered_settled split: if_splits)
qed (use assms in \<open>auto simp: settle_lookup split: if_splits dest: map_of_SomeD\<close>)

lemma granted_justified_envelope:
  assumes "map_of (settled (snd (grantEnvelope persist eventBytes input s))) j = Some Granted"
    "map_of (settled s) j = None"
  shows "\<exists>e. (j, e) \<in> set (pending s) \<and> covered (snd (grantEnvelope persist eventBytes input s)) e"
proof (cases rule: grantEnvelope_cases[of persist eventBytes input s])
  case (granted pv signature)
  have "covered (resolveCovered (activated pv signature s)) = covered (activated pv signature s)"
    by (rule covered_same) simp
  with granted assms show ?thesis by (auto simp: resolveCovered_settled activated_def split: if_splits)
qed (use assms in simp_all)

lemma granted_justified_check:
  "settled (snd (check numText heap ceiling c m s)) = settled s"
  by (cases rule: check_cases[of numText heap ceiling c m s]) auto

lemma granted_justified_step:
  assumes "store_step s s'" "map_of (settled s') j = Some Granted" "map_of (settled s) j = None"
  shows "\<exists>e. (j, e) \<in> set (pending s) \<and> (journal s' = journal s @ [once_event j e s] \<or> covered s' e)"
  using assms
proof (cases rule: store_step.cases)
  case (reply persist eventBytes k resolution supplied)
  with assms granted_justified_reply show ?thesis by blast
next
  case (envelope persist eventBytes input)
  with assms granted_justified_envelope show ?thesis by blast
next
  case (close)
  with assms show ?thesis by (auto simp: finalizer_spec split: option.splits)
qed (use assms granted_justified_check in \<open>auto simp: leave_def\<close>)

end
