(* ===== verification/Grant_Outcomes.thy ===== *)
theory Grant_Outcomes
  imports Grant_Store_Safety
begin

text \<open>
  What the operations of the grant store achieve: which requests pass, what closing means, that a
  failed operation changes nothing, that a reply settles its request, and when an operation can die.
\<close>

section \<open>Decisions\<close>

lemma check_passed_iff:
  "fst (check numText heap ceiling c m s) = Passed \<longleftrightarrow>
     (\<exists>r. snapshotRequest numText heap c m = Inr r) \<and> \<not> closed s \<and> allows ceiling c \<and> evaluate (rulesets s c) c = Allow"
proof (cases "snapshotRequest numText heap c m")
  case (Inl e)
  then show ?thesis by (simp add: check_def)
next
  case (Inr r)
  then obtain j where "r = (c, j)" using snapshotRequest_Some by blast
  with Inr show ?thesis
    by (cases "evaluate (rulesets s c) c") (auto simp: check_def decide_def Let_def allocateRequest_def)
qed

lemma check_passed_unchanged: "fst (check numText heap ceiling c m s) = Passed \<Longrightarrow> snd (check numText heap ceiling c m s) = s"
  by (cases rule: check_cases[of numText heap ceiling c m s]) auto

lemma evaluate_configured_deny: "lastMatch Ask (configuredRules s) c = Deny \<Longrightarrow> evaluate (rulesets s c) c = Deny"
  by (simp add: evaluate_def rulesets_def Let_def)

lemma check_configured_deny:
  assumes "lastMatch Ask (configuredRules s) c = Deny"
  shows "fst (check numText heap ceiling c m s) \<noteq> Passed \<and> (\<forall>k. fst (check numText heap ceiling c m s) \<noteq> Waiting k)
     \<and> settled (snd (check numText heap ceiling c m s)) = settled s"
proof -
  note d = evaluate_configured_deny[OF assms]
  have "\<forall>k. fst (check numText heap ceiling c m s) \<noteq> Waiting k"
    by (cases rule: check_cases[of numText heap ceiling c m s]) (use d in auto)
  then show ?thesis using d check_passed_iff[of numText heap ceiling c m s] granted_justified_check by simp
qed

lemma reaches_configured: "reaches s s' \<Longrightarrow> configuredRules s' = configuredRules s"
  using reaches_installs by (auto simp: installs_def)

lemma denied_never_parked:
  assumes "store_inv s" "reaches s s'" "lastMatch Ask (configuredRules s) c = Deny"
  shows "\<forall>(k, e) \<in> set (pending s'). pe_capability e \<noteq> c"
  using reaches_inv[OF assms(2,1)] reaches_configured[OF assms(2)] assms(3)
  by (auto simp: store_inv_def core_inv_def entry_inv_def)

text \<open>Where an allow decision comes from.\<close>

lemma allow_source:
  assumes "evaluate (rulesets s c) c = Allow"
  shows "(\<exists>r \<in> set (configuredRules s) \<union> set (envelopeRules s) \<union> set (rememberedRules s). r_effect r = Allow \<and> matches (r_pattern r) c)
     \<or> (\<exists>rr \<in> set (runRules s). r_effect (rr_rule rr) = Allow \<and> matches (r_pattern (rr_rule rr)) c \<and> allows (rr_ceiling rr) c)"
proof -
  obtain r where "r \<in> set (concat (rulesets s c))" "r_effect r = Allow" "matches (r_pattern r) c"
    using lastMatch_allow_rule[OF evaluate_allow(3)[OF assms]] by blast
  then show ?thesis by (auto simp: rulesets_def)
qed

section \<open>Closing is final\<close>

lemma closed_step:
  assumes "store_step s s'" "closed s"
  shows "closed s'"
  using assms(1)
proof (cases rule: store_step.cases)
  case (reply persist eventBytes k resolution supplied)
  then show ?thesis using assms(2) by (cases rule: reply_cases[of persist eventBytes k resolution supplied s]) auto
next
  case (envelope persist eventBytes input)
  then show ?thesis using assms(2) by (cases rule: grantEnvelope_cases[of persist eventBytes input s]) auto
next
  case (check numText heap ceiling c m)
  then show ?thesis using assms(2) by (cases rule: check_cases[of numText heap ceiling c m s]) auto
qed (use assms(2) in \<open>auto simp: leave_def finalizer_spec\<close>)

lemma closed_reaches: "reaches s s' \<Longrightarrow> closed s \<Longrightarrow> closed s'"
  by (induction rule: rtranclp_induct) (auto intro: closed_step)

section \<open>Failures change nothing\<close>

lemma reply_failure: "reply persist eventBytes k resolution supplied s = (Some f, s') \<Longrightarrow> s' = s"
  by (cases rule: reply_cases[of persist eventBytes k resolution supplied s]) auto

lemma grantEnvelope_failure: "grantEnvelope persist eventBytes input s = (Some f, s') \<Longrightarrow> s' = s \<and> f \<noteq> Die"
  by (cases rule: grantEnvelope_cases[of persist eventBytes input s]) auto

lemma reply_success_persisted:
  assumes "reply persist eventBytes k resolution supplied s = (None, s')"
  shows "\<exists>event. persist event = None \<and> journal s' = journal s @ [event]"
proof (cases rule: reply_cases[of persist eventBytes k resolution supplied s])
  case (run e p d)
  then show ?thesis using assms resolveCovered_authority[unfolded same_authority_def] by auto
next
  case (remembered e p)
  then show ?thesis using assms resolveCovered_authority[unfolded same_authority_def] by auto
qed (use assms in auto)

section \<open>Replies settle requests\<close>

lemma isResolution_texts [simp]:
  "isResolution (js ''once'') = Some Once" "isResolution (js ''run'') = Some Run"
  "isResolution (js ''remembered'') = Some Remembered" "isResolution (js ''deny'') = Some Deny_request"
  by (simp_all add: isResolution_def js_lits)

lemma persistEvent_ok:
  "persist event = None \<Longrightarrow> eventBytes event \<le> maximumEventBytes \<Longrightarrow>
   persistEvent persist eventBytes event s = Inr (logged event s)"
  by (simp add: persistEvent_def logged_def)

lemma replyPattern_exact:
  "valid_capability (pe_capability e) \<Longrightarrow> res = Once \<or> res = Deny_request \<Longrightarrow>
   replyPattern res supplied e = Inr (exactPattern (pe_capability e))"
  by (auto simp: replyPattern_def orInvalid_def exactPattern_def valid_pattern_def valid_capability_def
      snapshotPattern_def make_pattern_def)

lemma pending_entry_inv:
  "store_inv s \<Longrightarrow> map_of (pending s) k = Some e \<Longrightarrow>
   entry_inv s k e \<and> \<not> closed s \<and> map_of (settled s) k = None \<and> \<not> covered s e"
  by (force simp: store_inv_def core_inv_def dest: map_of_SomeD)

lemma reply_once_settles:
  assumes "store_inv s" "map_of (pending s) k = Some e"
    and "persist (once_event k e s) = None" "eventBytes (once_event k e s) \<le> maximumEventBytes"
  shows "\<exists>s'. reply persist eventBytes k (js ''once'') supplied s = (None, s') \<and> map_of (settled s') k = Some Granted
     \<and> map_of (pending s') k = None"
  using pending_entry_inv[OF assms(1,2)] assms(2-) replyPattern_exact[of e Once]
    persistEvent_ok[of persist "once_event k e s" eventBytes s]
  by (simp add: reply_def entry_inv_def once_event_def settle_lookup)

lemma reply_deny_settles:
  assumes "store_inv s" "map_of (pending s) k = Some e"
    and "persist (deny_event k e s) = None" "eventBytes (deny_event k e s) \<le> maximumEventBytes"
  shows "\<exists>s'. reply persist eventBytes k (js ''deny'') supplied s = (None, s')
     \<and> map_of (settled s') k = Some (Refused (permissionDenied (pe_capability e) ''permission request denied''))
     \<and> map_of (pending s') k = None"
  using pending_entry_inv[OF assms(1,2)] assms(2-) replyPattern_exact[of e Deny_request]
    persistEvent_ok[of persist "deny_event k e s" eventBytes s]
  by (simp add: reply_def entry_inv_def deny_event_def settle_lookup)

section \<open>Every rule in force is decidable\<close>

definition allRules :: "grant_store \<Rightarrow> rule set" where
  "allRules s = set (configuredRules s) \<union> set (envelopeRules s) \<union> rr_rule ` set (runRules s) \<union> set (rememberedRules s)"

definition rules_valid :: "grant_store \<Rightarrow> bool" where
  "rules_valid s = (\<forall>r \<in> allRules s. valid_pattern (r_pattern r))"

lemma rulesets_allRules: "set (concat (rulesets s c)) \<subseteq> allRules s"
  by (auto simp: rulesets_def allRules_def)

lemma rules_valid_decidable: "rules_valid s \<Longrightarrow> valid_capability c \<Longrightarrow> decidable_rules (rulesets s c) c"
  using rulesets_allRules[of s c] by (intro valid_decidable) (auto simp: rules_valid_def)

lemma rules_valid_same: "same_authority s s' \<Longrightarrow> rules_valid s' = rules_valid s"
  by (simp add: rules_valid_def allRules_def same_authority_def)

lemma rules_valid_resolve [simp]: "rules_valid (resolveCovered s) = rules_valid s"
  by (rule rules_valid_same) simp

lemma allRules_simps [simp]:
  "allRules (resolveCovered s) = allRules s" "allRules (logged ev s) = allRules s"
  "allRules (settle k r s) = allRules s" "allRules (deletePending k s) = allRules s" "allRules (finalizer s) = allRules s"
  "allRules ((logged ev s)\<lparr>runRules := runRules s @ rrs\<rparr>) = allRules s \<union> rr_rule ` set rrs"
  "allRules ((logged ev s)\<lparr>rememberedRules := rememberedRules s @ rs\<rparr>) = allRules s \<union> set rs"
  "allRules (pushRules sc rs s) = allRules s \<union> set rs" "allRules (s\<lparr>grantedEnvelopes := g\<rparr>) = allRules s"
  using resolveCovered_authority[of s]
  by (auto simp: allRules_def same_authority_def finalizer_spec pushRules_def split: envelope_scope.splits)

lemma reply_rules_valid:
  assumes "rules_valid s"
  shows "rules_valid (snd (reply persist eventBytes k resolution supplied s))"
  by (cases rule: reply_cases[of persist eventBytes k resolution supplied s])
     (use assms in \<open>auto simp: rules_valid_def run_grant_def\<close>)

lemma activated_rules_valid:
  "rules_valid s \<Longrightarrow> \<forall>p \<in> set (pv_patterns pv). valid_pattern p \<Longrightarrow> rules_valid (activated pv signature s)"
  by (auto simp: rules_valid_def activated_def allow_def)

lemma grantEnvelope_rules_valid:
  assumes "rules_valid s"
  shows "rules_valid (snd (grantEnvelope persist eventBytes input s))"
proof (cases rule: grantEnvelope_cases[of persist eventBytes input s])
  case (granted pv signature)
  then show ?thesis using activated_rules_valid[OF assms prepareEnvelope_valid(1)[OF granted(1)]] by simp
qed (use assms in simp_all)

lemma step_rules_valid:
  assumes "store_step s s'" "rules_valid s"
  shows "rules_valid s'"
  using assms(1)
proof (cases rule: store_step.cases)
  case (check numText heap ceiling c m)
  then show ?thesis using assms(2)
    by (cases rule: check_cases[of numText heap ceiling c m s]) (auto simp: rules_valid_def allRules_def)
next
  case (reply persist eventBytes k resolution supplied)
  then show ?thesis using reply_rules_valid[OF assms(2)] by simp
next
  case (envelope persist eventBytes input)
  then show ?thesis using grantEnvelope_rules_valid[OF assms(2)] by simp
next
  case (leave k)
  then show ?thesis using assms(2) by (simp add: leave_def rules_valid_def)
next
  case close
  then show ?thesis using assms(2) by (simp add: rules_valid_def)
qed

lemma reaches_rules_valid: "reaches s s' \<Longrightarrow> rules_valid s \<Longrightarrow> rules_valid s'"
  by (induction rule: rtranclp_induct) (auto intro: step_rules_valid)

lemma normalizeRules_valid:
  assumes "normalizeRules rules = Inr (configured, remembered)"
  shows "\<forall>r \<in> set configured \<union> set remembered. valid_pattern (r_pattern r)"
proof -
  consider "configured = []" "remembered = []"
    | xs ys where "mapM snapshotRule xs = Some configured" "mapM snapshotRule ys = Some remembered"
    | xs where "mapM snapshotRule xs = Some configured" "remembered = []"
    using assms
    by (auto simp: normalizeRules_def orInvalid_def simp del: mapM.simps split: option.splits rules_input.splits list.splits if_splits)
  then show ?thesis by cases (auto dest: mapM_snapshotRule)
qed

lemma prepareRunRule_valid: "prepareRunRule ceiling input = Some rr \<Longrightarrow> valid_pattern (r_pattern (rr_rule rr))"
  by (cases input) auto

lemma prepareRunRules_valid:
  "prepareRunRules ceiling inputs = Inr rrs \<Longrightarrow> \<forall>rr \<in> set rrs. valid_pattern (r_pattern (rr_rule rr))"
  using prepareRunRule_valid mapM_in_set[of "prepareRunRule ceiling" inputs]
  by (fastforce simp: prepareRunRules_def orInvalid_def split: if_splits option.splits)

lemma prepareStore_rules_valid:
  assumes "prepareStore decodeLegacy root ceiling options = Inr s"
  shows "rules_valid s"
proof -
  obtain configured remembered run signatures where
    s: "s = initialStore options root configured run remembered signatures"
    and n: "normalizeRules (mo_rules options) = Inr (configured, remembered)"
    and r: "prepareRunRules ceiling (mo_runRules options) = Inr run"
    using prepareStore_Some[OF assms] by metis
  show ?thesis using normalizeRules_valid[OF n] prepareRunRules_valid[OF r]
    by (auto simp: s initialStore_def rules_valid_def allRules_def)
qed

lemma make_store_rules_valid:
  assumes "make_store decodeLegacy persist eventBytes root ceiling options = Inr s"
  shows "rules_valid s"
proof -
  obtain s0 where s0: "prepareStore decodeLegacy root ceiling options = Inr s0"
    using assms by (auto simp: make_store_def split: sum.splits)
  note v0 = prepareStore_rules_valid[OF s0]
  show ?thesis
  proof (cases "mo_envelope options")
    case None
    with assms s0 v0 show ?thesis by (simp add: make_store_def)
  next
    case (Some envelope)
    with assms s0 obtain pv b where pv: "prepareEnvelope envelope (mo_planDigest options) root = Inr pv"
      and a: "admitEnvelope persist eventBytes pv True s0 = Inr (b, s)"
      by (auto simp: make_store_def map_sum_Inr split: sum.splits)
    note v = prepareEnvelope_valid(1)[OF pv]
    from a v show ?thesis
    proof (cases rule: admitEnvelope_cases)
      case (durable signature)
      have "set (envelopeIncoming pv True s0) \<subseteq> set (pv_patterns pv)" by (auto simp: envelopeIncoming_def Let_def)
      with durable v v0 show ?thesis
        by (auto simp: rules_valid_def allow_def)
    qed (use v0 v activated_rules_valid in auto)
  qed
qed

section \<open>Run and remembered replies\<close>

lemma grant_pattern_matches:
  "isValidGrantPattern p c t root = Some True \<Longrightarrow> matches p c"
  by (auto simp: isValidGrantPattern_def split: if_splits)

lemma lastMatch_snoc_allow: "matches p c \<Longrightarrow> lastMatch e (rs @ [\<lparr>r_effect = Allow, r_pattern = p\<rparr>]) c = Allow"
  by (simp add: lastMatch_append)

lemma evaluate_rulesets:
  assumes "decidable_rules (rulesets s c) c" "lastMatch Ask (configuredRules s) c \<noteq> Deny"
  shows "evaluate (rulesets s c) c = lastMatch Ask (concat (rulesets s c)) c"
  using evaluate_decidable[OF assms(1)] assms(2) by (simp add: configured_rules_def rulesets_def)

lemma run_grant_evaluates:
  assumes "entry_inv s k e" "rules_valid s" "valid_pattern p" "matches p (pe_capability e)"
    and t: "t = (logged ev s)\<lparr>runRules := runRules s @ [run_grant e p]\<rparr>"
  shows "evaluate (rulesets t (pe_capability e)) (pe_capability e)
     = lastMatch Allow (rememberedRules s) (pe_capability e)"
proof -
  let ?c = "pe_capability e"
  have "rules_valid t" using assms(2,3) by (auto simp: t rules_valid_def run_grant_def)
  then have "decidable_rules (rulesets t ?c) ?c" using assms(1) by (intro rules_valid_decidable) (auto simp: entry_inv_def)
  then have "evaluate (rulesets t ?c) ?c = lastMatch Ask (concat (rulesets t ?c)) ?c"
    using assms(1) by (intro evaluate_rulesets) (auto simp: t entry_inv_def)
  also have "\<dots> = lastMatch Allow (rememberedRules s) ?c"
    using assms(1,4) by (simp add: t rulesets_def lastMatch_append run_grant_def entry_inv_def)
  finally show ?thesis .
qed

lemma map_of_filter_values:
  "distinct (map fst xs) \<Longrightarrow> map_of (filter (\<lambda>(k, v). P v) xs) k =
     (case map_of xs k of None \<Rightarrow> None | Some v \<Rightarrow> if P v then Some v else None)"
proof (induction xs)
  case (Cons x xs)
  have "map_of (filter Q xs) (fst x) = None" for Q using Cons.prems by (auto simp: map_of_eq_None_iff)
  with Cons show ?case by (cases x) (auto split: option.splits)
qed simp

lemma resolveCovered_lookup:
  assumes "distinct (map fst (pending t))" "map_of (pending t) k = Some e" "map_of (settled t) k = None"
  shows "map_of (pending (resolveCovered t)) k = (if covered t e then None else Some e)"
    "map_of (settled (resolveCovered t)) k = (if covered t e then Some Granted else None)"
proof -
  show "map_of (pending (resolveCovered t)) k = (if covered t e then None else Some e)"
    using assms by (simp add: resolveCovered_pending map_of_filter_values)
  have "(k, x) \<in> set (pending t) \<longleftrightarrow> x = e" for x
    using map_of_eq_Some_iff[OF assms(1), of k x] assms(2) by auto
  then show "map_of (settled (resolveCovered t)) k = (if covered t e then Some Granted else None)"
    using assms(3) by (simp add: resolveCovered_settled)
qed

lemma reply_run_outcome:
  assumes "store_inv s" "rules_valid s" "map_of (pending s) k = Some e"
    and "reply persist eventBytes k (js ''run'') supplied s = (None, s')"
  shows "if lastMatch Allow (rememberedRules s) (pe_capability e) = Allow
     then map_of (settled s') k = Some Granted \<and> map_of (pending s') k = None
     else map_of (settled s') k = None \<and> map_of (pending s') k = Some e"
proof (cases rule: reply_cases[of persist eventBytes k "js ''run''" supplied s])
  case (run e' p d)
  let ?t = "(logged (run_event k e d p s) s)\<lparr>runRules := runRules s @ [run_grant e p]\<rparr>"
  have e: "e' = e" using run assms(3) by simp
  have s': "s' = resolveCovered ?t" using run assms(4) e by simp
  note pe = pending_entry_inv[OF assms(1,3)]
  have "matches p (pe_capability e)" using run(8) e by (simp add: grant_pattern_matches)
  then have "evaluate (rulesets ?t (pe_capability e)) (pe_capability e) = lastMatch Allow (rememberedRules s) (pe_capability e)"
    using run_grant_evaluates[OF _ assms(2) run(7) _ refl] pe by blast
  then have cov: "covered ?t e \<longleftrightarrow> lastMatch Allow (rememberedRules s) (pe_capability e) = Allow"
    using pe by (simp add: covered_def entry_inv_def)
  have "distinct (map fst (pending ?t))" "map_of (pending ?t) k = Some e" "map_of (settled ?t) k = None"
    using assms(1,3) pe by (simp_all add: store_inv_def core_inv_def)
  then show ?thesis unfolding s' using resolveCovered_lookup[of ?t k e] by (simp add: cov)
qed (use assms in auto)

lemma reply_remembered_outcome:
  assumes "store_inv s" "rules_valid s" "map_of (pending s) k = Some e"
    and "reply persist eventBytes k (js ''remembered'') supplied s = (None, s')"
  shows "map_of (settled s') k = Some Granted \<and> map_of (pending s') k = None"
proof (cases rule: reply_cases[of persist eventBytes k "js ''remembered''" supplied s])
  case (remembered e' p)
  let ?t = "(logged (remembered_event k e p s) s)\<lparr>rememberedRules := rememberedRules s @ [\<lparr>r_effect = Allow, r_pattern = p\<rparr>]\<rparr>"
  let ?c = "pe_capability e"
  have e: "e' = e" using remembered assms(3) by simp
  have s': "s' = resolveCovered ?t" using remembered assms(4) e by simp
  note pe = pending_entry_inv[OF assms(1,3)]
  have "rules_valid ?t" using assms(2) remembered(6) by (auto simp: rules_valid_def)
  then have "decidable_rules (rulesets ?t ?c) ?c" using pe by (intro rules_valid_decidable) (auto simp: entry_inv_def)
  then have "evaluate (rulesets ?t ?c) ?c = lastMatch Ask (concat (rulesets ?t ?c)) ?c"
    using pe by (intro evaluate_rulesets) (auto simp: entry_inv_def)
  also have "\<dots> = Allow"
    using remembered(7) e grant_pattern_matches by (auto simp: rulesets_def lastMatch_append)
  finally have cov: "covered ?t e" using pe by (simp add: covered_def entry_inv_def)
  have "distinct (map fst (pending ?t))" "map_of (pending ?t) k = Some e" "map_of (settled ?t) k = None"
    using assms(1,3) pe by (simp_all add: store_inv_def core_inv_def)
  then show ?thesis unfolding s' using resolveCovered_lookup[of ?t k e] by (simp add: cov)
qed (use assms in auto)

section \<open>Defects\<close>

lemma isValidGrantPattern_total: "workspacePattern root \<noteq> None \<Longrightarrow> isValidGrantPattern p c t root \<noteq> None"
  by (auto simp: isValidGrantPattern_def)

lemma reply_not_Die:
  assumes "workspacePattern (gs_workspaceRoot s) \<noteq> None"
  shows "fst (reply persist eventBytes k resolution supplied s) \<noteq> Some Die"
proof -
  have "fst (replyRun persist eventBytes k e p s) \<noteq> Some Die" if "valid_pattern p" for e p
    using isValidGrantPattern_total[OF assms, of p "pe_capability e" "pe_tier e"] that
    by (auto simp: replyRun_def allowRule_Some split: option.splits sum.splits)
  moreover have "fst (replyRemembered persist eventBytes k e p s) \<noteq> Some Die" if "valid_pattern p" for e p
    using isValidGrantPattern_total[OF assms, of p "pe_capability e" "pe_tier e"] that
    by (auto simp: replyRemembered_def allowRule_Some split: option.splits sum.splits)
  ultimately show ?thesis
    by (auto simp: reply_def replyPattern_Some(1) split: option.splits sum.splits resolution.splits)
qed

lemma check_Died_iff:
  "fst (check numText heap ceiling c m s) = Died \<longleftrightarrow>
     (\<exists>j. snapshotRequest numText heap c m = Inr (c, j) \<and> exotic j) \<and> \<not> closed s \<and> allows ceiling c
       \<and> evaluate (rulesets s c) c = Ask \<and> \<not> gs_attended s"
proof (cases "snapshotRequest numText heap c m")
  case (Inl e)
  then show ?thesis by (simp add: check_def)
next
  case (Inr r)
  then obtain j where "r = (c, j)" using snapshotRequest_Some by blast
  with Inr show ?thesis
    by (cases "evaluate (rulesets s c) c") (auto simp: check_def decide_def Let_def allocateRequest_def)
qed

end
