(* ===== verification/Journal_Replay.thy ===== *)
theory Journal_Replay
  imports Journal_Grant_Store Grant_Outcomes
begin

text \<open>
  Replaying the journal: the paged loop visits every entry once and stops, and a store rebuilt from the
  events another store recorded has the same authority.
\<close>

section \<open>Identities\<close>

lemma validUnits_iff: "validUnits v \<longleftrightarrow> isWellFormed v \<and> 0 \<notin> set v"
proof (induction v rule: validUnits.induct)
  case (2 u rest)
  have z: "\<not> isHigh 0" "\<not> isLow 0" by (simp_all add: isHigh_def isLow_def)
  show ?case
  proof (cases rest)
    case Nil
    then show ?thesis using z by auto
  next
    case (Cons x xs)
    show ?thesis
    proof (cases "isHigh u")
      case True
      with z have "u \<noteq> 0" by auto
      with True Cons 2(1)[OF _ True Cons] z show ?thesis by (cases "isLow x") auto
    next
      case False
      with Cons 2(2) show ?thesis by auto
    qed
  qed
qed simp

lemma validId_iff: "validId v \<longleftrightarrow> validIdentity (Some v)"
  by (auto simp: validId_def validIdentity_def validUnits_iff)

section \<open>The paged loop\<close>

lemma foldM_append: "foldM f s (xs @ ys) = (case foldM f s xs of Inl e \<Rightarrow> Inl e | Inr s' \<Rightarrow> foldM f s' ys)"
  by (induction xs arbitrary: s) (auto split: sum.splits)

definition following :: "nat option \<Rightarrow> 'p journal_entry list \<Rightarrow> 'p journal_entry list" where
  "following after xs = filter (\<lambda>x. case after of None \<Rightarrow> True | Some n \<Rightarrow> n < je_seq x) xs"

lemma following_after:
  assumes "x \<in> set (following after xs)"
  shows "case after of None \<Rightarrow> True | Some n \<Rightarrow> n < je_seq x"
  using assms by (simp add: following_def)

lemma following_drop:
  assumes "sorted_wrt (\<lambda>x y. je_seq x < je_seq y) xs" "following after xs = ys" "take n ys \<noteq> []"
  shows "following (Some (je_seq (last (take n ys)))) xs = drop n ys"
proof -
  let ?l = "last (take n ys)"
  have s: "sorted_wrt (\<lambda>x y. je_seq x < je_seq y) ys"
    using assms(1,2) by (auto simp: following_def intro: sorted_wrt_filter)
  then have s': "sorted_wrt (\<lambda>x y. je_seq x < je_seq y) (take n ys @ drop n ys)" by simp
  have l: "?l \<in> set (take n ys)" using assms(3) by (rule last_in_set)
  have b: "take n ys = butlast (take n ys) @ [?l]" using assms(3) by simp
  have "sorted_wrt (\<lambda>x y. je_seq x < je_seq y) (take n ys)" using s' unfolding sorted_wrt_append by blast
  then have "sorted_wrt (\<lambda>x y. je_seq x < je_seq y) (butlast (take n ys) @ [?l])" using b by simp
  then have "\<forall>x \<in> set (butlast (take n ys)). je_seq x < je_seq ?l" unfolding sorted_wrt_append by simp
  moreover have "set (take n ys) = insert ?l (set (butlast (take n ys)))"
    using arg_cong[OF b, of set] by simp
  ultimately have le: "\<forall>x \<in> set (take n ys). je_seq x \<le> je_seq ?l" by auto
  have gt: "\<forall>x \<in> set (drop n ys). je_seq ?l < je_seq x"
    using s' l unfolding sorted_wrt_append by blast
  have "?l \<in> set ys" using l in_set_takeD by fast
  then have "case after of None \<Rightarrow> True | Some m \<Rightarrow> m < je_seq ?l" using assms(2) by (auto simp: following_def)
  then have "following (Some (je_seq ?l)) xs = following (Some (je_seq ?l)) (following after xs)"
    by (auto simp: following_def intro!: filter_cong split: option.splits)
  also have "\<dots> = following (Some (je_seq ?l)) (take n ys @ drop n ys)" using assms(2) by simp
  also have "\<dots> = following (Some (je_seq ?l)) (take n ys) @ following (Some (je_seq ?l)) (drop n ys)"
    unfolding following_def by (rule filter_append)
  also have "\<dots> = drop n ys" using le gt by (auto simp: following_def filter_empty_conv not_less)
  finally show ?thesis .
qed

locale journal_provider =
  fixes sound :: "'t \<Rightarrow> bool"
    and contents :: "'t \<Rightarrow> ustring \<Rightarrow> 'p journal_entry list"
    and read :: "'t \<Rightarrow> nat \<Rightarrow> ustring \<Rightarrow> nat option \<Rightarrow> journal_error + 'p entries_page"
  assumes contents_sorted: "sound t \<Longrightarrow> sorted_wrt (\<lambda>x y. je_seq x < je_seq y) (contents t run)"
    and read_page: "sound t \<Longrightarrow> read t limit run after =
      Inr \<lparr>pg_entries = take limit (following after (contents t run)),
           pg_hasMore = (length (following after (contents t run)) > limit)\<rparr>"
begin

lemma replay_from:
  assumes "sound t" "0 < limit" "length (following after (contents t run)) < fuel"
  shows "replayLoop (read t limit run) failure handle fuel after st =
    Some (foldM handle st (following after (contents t run)))"
  using assms(3)
proof (induction fuel arbitrary: after st)
  case (Suc fuel)
  let ?ys = "following after (contents t run)"
  let ?page = "take limit ?ys"
  have split: "foldM handle st ?ys = (case foldM handle st ?page of Inl e \<Rightarrow> Inl e | Inr s' \<Rightarrow> foldM handle s' (drop limit ?ys))"
    using foldM_append[of handle st ?page "drop limit ?ys"] by simp
  show ?case
  proof (cases "?ys = []")
    case True
    then show ?thesis using read_page[OF assms(1)] by simp
  next
    case False
    then have ne: "?page \<noteq> []" using assms(2) by simp
    have "last ?page \<in> set ?ys" using last_in_set[OF ne] in_set_takeD by fast
    then have adv: "case after of None \<Rightarrow> True | Some n \<Rightarrow> n < je_seq (last ?page)" by (rule following_after)
    have more: "following (Some (je_seq (last ?page))) (contents t run) = drop limit ?ys"
      using following_drop[OF contents_sorted[OF assms(1)] refl ne] .
    have "length (drop limit ?ys) < fuel" using Suc.prems False assms(2) by (cases "?ys") auto
    then have "replayLoop (read t limit run) failure handle fuel (Some (je_seq (last ?page))) st'
        = Some (foldM handle st' (drop limit ?ys))" for st'
      using Suc.IH[of "Some (je_seq (last ?page))" st'] unfolding more by simp
    then show ?thesis unfolding split using read_page[OF assms(1), of limit run after] ne adv
      by (auto simp: Let_def not_less split: sum.splits option.splits)
  qed
qed simp

lemma replay_all:
  assumes "sound t" "0 < limit" "length (contents t run) < fuel"
  shows "replayLoop (read t limit run) failure handle fuel None st = Some (foldM handle st (contents t run))"
proof -
  have "following None (contents t run) = contents t run" by (simp add: following_def)
  then show ?thesis using replay_from[of t limit None run fuel] assms by simp
qed

end

text \<open>The event table, with one row per run and sequence number and nothing compacted.\<close>

definition sound_table :: "'p journal_entry list \<Rightarrow> bool" where
  "sound_table table = distinct (map (\<lambda>row. (je_runId row, je_seq row)) table)"

lemma sorted_key_strict: "distinct (map f xs) \<Longrightarrow> sorted_wrt (\<lambda>x y. f x < f y) (sort_key f xs)" for f :: "'a \<Rightarrow> nat"
proof -
  assume d: "distinct (map f xs)"
  have "distinct (map f (sort_key f xs))" using d by (simp add: distinct_map)
  moreover have "sorted (map f (sort_key f xs))" by simp
  ultimately have "sorted_wrt (<) (map f (sort_key f xs))" by (simp add: strict_sorted_iff)
  then show ?thesis by (simp add: sorted_wrt_map)
qed

lemma following_select: "following after (selectRows table run None) = selectRows table run after"
proof -
  have "following after (sort_key je_seq xs) = sort_key je_seq (following after xs)" for xs :: "'a journal_entry list"
    unfolding following_def by (rule filter_sort)
  then show ?thesis by (simp add: selectRows_def following_def conj_commute)
qed

interpretation sql_journal: journal_provider sound_table "\<lambda>table run. selectRows table run None"
  "\<lambda>table. readPage table (\<lambda>run. None)"
proof
  fix t :: "'p journal_entry list" and run after limit
  assume t: "sound_table t"
  have "distinct (map (\<lambda>row. (je_runId row, je_seq row)) (filter (\<lambda>row. je_runId row = run) t))"
    using t by (simp add: sound_table_def distinct_map_filter)
  then have "distinct (map je_seq (filter (\<lambda>row. je_runId row = run) t))"
    by (auto simp: distinct_map inj_on_def)
  then show "sorted_wrt (\<lambda>x y. je_seq x < je_seq y) (selectRows t run None)"
    by (simp add: selectRows_def sorted_key_strict)
  show "readPage t (\<lambda>run. None) limit run after =
      Inr \<lparr>pg_entries = take limit (following after (selectRows t run None)),
           pg_hasMore = (length (following after (selectRows t run None)) > limit)\<rparr>"
    by (auto simp: readPage_def belowFloor_def following_select)
qed

section \<open>Events a replay accepts\<close>

fun replayable :: "ustring \<Rightarrow> ustring \<Rightarrow> ustring \<Rightarrow> grant_event \<Rightarrow> bool" where
  "replayable root runId plan (OnceGrant _ r _ _ _ _) = (r = runId)"
| "replayable root runId plan (DeniedGrant _ r _ _ _ _) = (r = runId)"
| "replayable root runId plan (RememberedGrant _ _ _ c p t) =
     (valid_pattern p \<and> isValidGrantPattern p c t root = Some True)"
| "replayable root runId plan (RunGrant _ r d c p _ t) =
     (r = runId \<and> d = plan \<and> valid_pattern p \<and> isValidGrantPattern p c t root = Some True)"
| "replayable root runId plan (EnvelopeGrant r d ps _) =
     (r = runId \<and> d = plan \<and> (\<forall>p \<in> set ps. valid_pattern p \<and> isValidEnvelopePattern p root = Some True))"

definition identified :: "ustring \<Rightarrow> ustring \<Rightarrow> ustring \<Rightarrow> grant_store \<Rightarrow> bool" where
  "identified root runId plan s = (gs_workspaceRoot s = root \<and> gs_runId s = Some runId \<and> gs_planDigest s = Some plan)"

definition journal_ok :: "ustring \<Rightarrow> ustring \<Rightarrow> ustring \<Rightarrow> grant_store \<Rightarrow> bool" where
  "journal_ok root runId plan s =
     (identified root runId plan s \<and> (\<forall>ev \<in> set (journal s). replayable root runId plan ev))"

lemma journal_ok_logged:
  assumes "journal_ok root runId plan s" "replayable root runId plan ev" "journal s' = journal s @ [ev]"
    "gs_workspaceRoot s' = gs_workspaceRoot s" "gs_runId s' = gs_runId s" "gs_planDigest s' = gs_planDigest s"
  shows "journal_ok root runId plan s'"
  using assms by (auto simp: journal_ok_def identified_def)

lemma journal_ok_same:
  assumes "journal_ok root runId plan s" "journal s' = journal s"
    "gs_workspaceRoot s' = gs_workspaceRoot s" "gs_runId s' = gs_runId s" "gs_planDigest s' = gs_planDigest s"
  shows "journal_ok root runId plan s'"
  using assms by (auto simp: journal_ok_def identified_def)

lemma same_authority_identity:
  assumes "same_authority s s'"
  shows "journal s' = journal s" "gs_workspaceRoot s' = gs_workspaceRoot s" "gs_runId s' = gs_runId s"
    "gs_planDigest s' = gs_planDigest s"
  using assms by (auto simp: same_authority_def)

lemma reply_journal_ok:
  assumes "journal_ok root runId plan s"
  shows "journal_ok root runId plan (snd (reply persist eventBytes k resolution supplied s))"
proof (cases rule: reply_cases[of persist eventBytes k resolution supplied s])
  case (once e)
  show ?thesis
    by (rule journal_ok_logged[OF assms, of "once_event k e s"])
       (use once assms in \<open>auto simp: once_event_def journal_ok_def identified_def orEmpty_def\<close>)
next
  case (deny e)
  show ?thesis
    by (rule journal_ok_logged[OF assms, of "deny_event k e s"])
       (use deny assms in \<open>auto simp: deny_event_def journal_ok_def identified_def orEmpty_def\<close>)
next
  case (run e p d)
  show ?thesis
    by (rule journal_ok_logged[OF assms, of "run_event k e d p s"])
       (use run assms in \<open>auto simp: run_event_def journal_ok_def identified_def orEmpty_def
          same_authority_identity[OF resolveCovered_authority]\<close>)
next
  case (remembered e p)
  show ?thesis
    by (rule journal_ok_logged[OF assms, of "remembered_event k e p s"])
       (use remembered assms in \<open>auto simp: remembered_event_def journal_ok_def identified_def
          same_authority_identity[OF resolveCovered_authority]\<close>)
qed (use assms in simp)

lemma activated_identity:
  "journal (activated pv signature s) = journal s @ [envelope_event pv s]"
  "gs_workspaceRoot (activated pv signature s) = gs_workspaceRoot s" "gs_runId (activated pv signature s) = gs_runId s"
  "gs_planDigest (activated pv signature s) = gs_planDigest s"
  by (simp_all add: activated_def)

lemma envelope_event_replayable:
  assumes "journal_ok root runId plan s" "prepareEnvelope input (gs_planDigest s) (gs_workspaceRoot s) = Inr pv"
    "pv_patterns pv \<noteq> []"
  shows "replayable root runId plan (envelope_event pv s)"
  using prepareEnvelope_valid(1,3)[OF assms(2)] assms(1,3)
  by (auto simp: envelope_event_def journal_ok_def identified_def orEmpty_def)

lemma grantEnvelope_journal_ok:
  assumes "journal_ok root runId plan s"
  shows "journal_ok root runId plan (snd (grantEnvelope persist eventBytes input s))"
proof (cases rule: grantEnvelope_cases[of persist eventBytes input s])
  case (granted pv signature)
  show ?thesis
    by (rule journal_ok_logged[OF assms envelope_event_replayable[OF assms granted(1,2)]])
       (simp_all add: granted(9) same_authority_identity[OF resolveCovered_authority] activated_identity)
qed (use assms in simp_all)

lemma finalizer_identity: "gs_runId (finalizer s) = gs_runId s" "gs_planDigest (finalizer s) = gs_planDigest s"
  using closeEntry_authority[of "s\<lparr>closed := True, pending := []\<rparr>" "pending s"]
  by (simp_all add: finalizer_def same_authority_def)

lemma step_journal_ok:
  assumes "store_step s s'" "journal_ok root runId plan s"
  shows "journal_ok root runId plan s'"
  using assms(1)
proof (cases rule: store_step.cases)
  case (check numText heap ceiling c m)
  show ?thesis
    by (rule journal_ok_same[OF assms(2)])
       (cases rule: check_cases[of numText heap ceiling c m s]; simp add: check)+
next
  case (leave k)
  show ?thesis by (rule journal_ok_same[OF assms(2)]) (simp_all add: leave leave_def)
next
  case close
  show ?thesis by (rule journal_ok_same[OF assms(2)]) (simp_all add: close finalizer_spec finalizer_identity)
qed (use assms(2) reply_journal_ok grantEnvelope_journal_ok in auto)

lemma reaches_journal_ok: "reaches s s' \<Longrightarrow> journal_ok root runId plan s \<Longrightarrow> journal_ok root runId plan s'"
  by (induction rule: rtranclp_induct) (auto intro: step_journal_ok)

section \<open>What a replay collects\<close>

fun inputsOf :: "grant_event \<Rightarrow> run_rule_input list" where
  "inputsOf (RememberedGrant _ _ _ _ p _) = [Bare_rule (allow p)]"
| "inputsOf (RunGrant _ _ _ _ p ceiling _) = [Captured_rule (allow p) ceiling]"
| "inputsOf (EnvelopeGrant _ _ ps _) = map (\<lambda>p. Bare_rule (allow p)) ps"
| "inputsOf _ = []"

fun inputKey :: "run_rule_input \<Rightarrow> replay_key" where
  "inputKey (Bare_rule r) = Pattern_key (identity (r_pattern r))"
| "inputKey (Captured_rule r ceiling) = Run_key (r_pattern r) ceiling"

fun inputAllow :: "run_rule_input \<Rightarrow> bool" where
  "inputAllow i = (r_effect (bareRule i) = Allow \<and> valid_pattern (r_pattern (bareRule i)))"

definition replay_inv :: "replayed \<Rightarrow> bool" where
  "replay_inv st = (set (rp_seen st) = inputKey ` set (rp_rules st) \<and> (\<forall>i \<in> set (rp_rules st). inputAllow i))"

text \<open>\<open>collect st st' inputs\<close>: the step from \<open>st\<close> to \<open>st'\<close> added the rules \<open>inputs\<close>, each once.\<close>

definition collect :: "replayed \<Rightarrow> replayed \<Rightarrow> run_rule_input list \<Rightarrow> bool" where
  "collect st st' inputs = (replay_inv st' \<and> set (rp_rules st') = set (rp_rules st) \<union> set inputs
     \<and> length (rp_rules st') \<le> length (rp_rules st) + length inputs)"

lemma collect_trans: "collect st st' xs \<Longrightarrow> collect st' st'' ys \<Longrightarrow> collect st st'' (xs @ ys)"
  by (auto simp: collect_def)

lemma collect_refl: "replay_inv st \<Longrightarrow> collect st st []"
  by (simp add: collect_def)

lemma inputKey_inject: "inputAllow i \<Longrightarrow> inputAllow j \<Longrightarrow> inputKey i = inputKey j \<Longrightarrow> i = j"
  by (cases i; cases j) (auto dest: identity_inject intro: rule.equality)

lemma appendReplayedRule_collect:
  assumes "replay_inv st" "valid_pattern p"
  shows "collect st (appendReplayedRule st p) [Bare_rule (allow p)]"
proof (cases "Pattern_key (identity p) \<in> set (rp_seen st)")
  case True
  then obtain i where i: "i \<in> set (rp_rules st)" "inputKey i = inputKey (Bare_rule (allow p))"
    using assms(1) by (auto simp: replay_inv_def allow_def)
  moreover have "inputAllow i" "inputAllow (Bare_rule (allow p))" using i assms by (auto simp: replay_inv_def allow_def)
  ultimately have "i = Bare_rule (allow p)" using inputKey_inject by blast
  with i True assms(1) show ?thesis by (auto simp: collect_def appendReplayedRule_def)
next
  case False
  then show ?thesis using assms by (auto simp: collect_def appendReplayedRule_def replay_inv_def allow_def)
qed

lemma appendAll_collect:
  "replay_inv st \<Longrightarrow> \<forall>p \<in> set ps. valid_pattern p \<Longrightarrow>
     collect st (foldl appendReplayedRule st ps) (map (\<lambda>p. Bare_rule (allow p)) ps)"
proof (induction ps arbitrary: st)
  case (Cons p ps)
  note c = appendReplayedRule_collect[of st p]
  from c Cons have "collect (appendReplayedRule st p) (foldl appendReplayedRule (appendReplayedRule st p) ps)
      (map (\<lambda>p. Bare_rule (allow p)) ps)" by (auto simp: collect_def)
  with c Cons.prems show ?case using collect_trans by fastforce
qed (simp add: collect_refl)

lemma addSignature_simps [simp]:
  "rp_rules (addSignature g st) = rp_rules st" "rp_seen (addSignature g st) = rp_seen st"
  "set (rp_signatures (addSignature g st)) = insert g (set (rp_signatures st))"
  by (auto simp: addSignature_def)

lemma collect_addSignature [simp]: "collect st (addSignature g st') xs = collect st st' xs"
  by (simp add: collect_def replay_inv_def)

end
