(* ===== verification/Journal_Restart.thy ===== *)
theory Journal_Restart
  imports Journal_Replay
begin

text \<open>
  Restarting a journal-backed store: the authority rebuilt from the events a store recorded is the
  authority the store had.
\<close>

section \<open>Replaying recorded events\<close>

fun signaturesOf :: "grant_event \<Rightarrow> ustring list" where
  "signaturesOf (EnvelopeGrant _ d ps scope) = (case envelopeSignature d scope ps of None \<Rightarrow> [] | Some g \<Rightarrow> [g])"
| "signaturesOf _ = []"

fun toPolicy :: "grant_event \<Rightarrow> bool" where
  "toPolicy (RememberedGrant _ _ _ _ _ _) = True"
| "toPolicy (EnvelopeGrant _ _ _ scope) = (scope = Remembered_scope)"
| "toPolicy _ = False"

text \<open>The rows of one run hold the events \<open>events\<close>, in order; rows of other sources or kinds may lie between them.\<close>

definition trusted :: "ustring \<Rightarrow> 'p journal_entry \<Rightarrow> bool" where
  "trusted source row = (je_sourceId row = source \<and> je_eventType row \<in> set knownEventTypes)"

definition recorded :: "('p \<Rightarrow> grant_event option) \<Rightarrow> ustring \<Rightarrow> 'p journal_entry list \<Rightarrow> grant_event list \<Rightarrow> bool" where
  "recorded decode source rows events =
     (map (\<lambda>row. decodeTrustedEntry decode row source) (filter (trusted source) rows) = map (\<lambda>ev. Inr (Some ev)) events)"

definition gained :: "replayed \<Rightarrow> replayed \<Rightarrow> grant_event list \<Rightarrow> bool" where
  "gained st st' events = (collect st st' (concat (map inputsOf events))
     \<and> set (rp_signatures st') = set (rp_signatures st) \<union> set (concat (map signaturesOf events))
     \<and> length (rp_signatures st') \<le> length (rp_signatures st) + length (concat (map signaturesOf events)))"

lemma gained_trans: "gained st st' xs \<Longrightarrow> gained st' st'' ys \<Longrightarrow> gained st st'' (xs @ ys)"
  unfolding gained_def using collect_trans by fastforce

lemma gained_refl: "replay_inv st \<Longrightarrow> gained st st []"
  by (simp add: gained_def collect_refl)

lemma gained_inv: "gained st st' xs \<Longrightarrow> replay_inv st'"
  by (simp add: gained_def collect_def)

lemma append_signatures [simp]: "rp_signatures (foldl appendReplayedRule st ps) = rp_signatures st"
  by (induction ps arbitrary: st) (simp_all add: appendReplayedRule_def Let_def)

lemma append_signature [simp]: "rp_signatures (appendReplayedRule st p) = rp_signatures st"
  using append_signatures[of st "[p]"] by simp

lemma replayEnvelope_gained:
  assumes "replay_inv st" "\<forall>p \<in> set ps. valid_pattern p \<and> isValidEnvelopePattern p root = Some True"
  shows "\<exists>st'. replayEnvelope root unsafe d scope ps st = Inr st' \<and> gained st st' [EnvelopeGrant r d ps scope]"
proof -
  obtain g where g: "envelopeSignature d scope ps = Some g"
    using assms(2) envelopeSignature_None[of d scope ps] by (cases "envelopeSignature d scope ps") auto
  have "findIndexM (\<lambda>p. map_option Not (isValidEnvelopePattern p root)) ps = Some None"
    using assms(2) by (simp add: findIndexM_None)
  then have "replayEnvelope root unsafe d scope ps st = Inr (addSignature g (foldl appendReplayedRule st ps))"
    by (simp add: replayEnvelope_def g)
  moreover have "length (rp_signatures (addSignature g st'')) \<le> length (rp_signatures st'') + 1" for st''
    by (simp add: addSignature_def)
  then have "gained st (addSignature g (foldl appendReplayedRule st ps)) [EnvelopeGrant r d ps scope]"
    using appendAll_collect[OF assms(1)] assms(2) g by (auto simp: gained_def)
       (metis append_signatures)
  ultimately show ?thesis by blast
qed

lemma rememberedEntry_gained:
  assumes "replay_inv st" "decodeTrustedEntry decode row source = Inr (Some ev)"
    "replayable root runId plan ev" "toPolicy ev"
  shows "\<exists>st'. rememberedEntry decode source root st row = Inr st' \<and> gained st st' [ev]"
proof (cases ev)
  case (RememberedGrant a b c d e f)
  then show ?thesis using assms appendReplayedRule_collect[OF assms(1)]
    by (auto simp: rememberedEntry_def gained_def)
next
  case (EnvelopeGrant r d ps scope)
  then show ?thesis using assms replayEnvelope_gained[OF assms(1), of ps root _ d scope r]
    by (auto simp: rememberedEntry_def)
qed (use assms in auto)

lemma runEntry_gained:
  assumes "replay_inv st" "decodeTrustedEntry decode row source = Inr (Some ev)"
    "replayable root runId plan ev" "\<not> toPolicy ev"
  shows "\<exists>st'. runEntry decode runId source plan root st row = Inr st' \<and> gained st st' [ev]"
proof (cases ev)
  case (RunGrant a r d c p ceiling t)
  show ?thesis
  proof (cases "Run_key p ceiling \<in> set (rp_seen st)")
    case True
    then obtain i where i: "i \<in> set (rp_rules st)" "inputKey i = inputKey (Captured_rule (allow p) ceiling)"
      using assms(1) by (auto simp: replay_inv_def allow_def)
    moreover have "inputAllow i" "inputAllow (Captured_rule (allow p) ceiling)"
      using i assms RunGrant by (auto simp: replay_inv_def allow_def)
    ultimately have "i = Captured_rule (allow p) ceiling" using inputKey_inject by blast
    with i(1) True RunGrant assms show ?thesis
      by (auto simp: runEntry_def gained_def collect_def)
  next
    case False
    then show ?thesis using RunGrant assms
      by (auto simp: runEntry_def gained_def collect_def replay_inv_def allow_def)
  qed
next
  case (EnvelopeGrant r d ps scope)
  then show ?thesis using assms replayEnvelope_gained[OF assms(1), of ps root _ d scope r]
    by (cases scope) (auto simp: runEntry_def)
qed (use assms gained_refl[OF assms(1)] in \<open>auto simp: runEntry_def gained_def\<close>)

text \<open>Both handlers skip rows that are not trusted.\<close>

lemma decode_untrusted: "\<not> trusted source row \<Longrightarrow> decodeTrustedEntry decode row source = Inr None"
  by (auto simp: trusted_def decodeTrustedEntry_def)

lemma replay_recorded:
  assumes skip: "\<And>st row. decodeTrustedEntry decode row source = Inr None \<Longrightarrow> handle st row = Inr st"
    and step: "\<And>st row ev. replay_inv st \<Longrightarrow> decodeTrustedEntry decode row source = Inr (Some ev) \<Longrightarrow> ok ev \<Longrightarrow>
      \<exists>st'. handle st row = Inr st' \<and> gained st st' [ev]"
    and "replay_inv st" "recorded decode source rows events" "\<forall>ev \<in> set events. ok ev"
  shows "\<exists>st'. foldM handle st rows = Inr st' \<and> gained st st' events"
  using assms(3-5)
proof (induction rows arbitrary: st events)
  case Nil
  then show ?case using gained_refl by (auto simp: recorded_def)
next
  case (Cons row rows)
  show ?case
  proof (cases "trusted source row")
    case False
    then show ?thesis using Cons skip[OF decode_untrusted[OF False]] by (auto simp: recorded_def)
  next
    case True
    with Cons.prems(2) obtain ev evs where ev: "events = ev # evs" "decodeTrustedEntry decode row source = Inr (Some ev)"
      and r: "recorded decode source rows evs" by (auto simp: recorded_def Cons_eq_map_conv)
    obtain st' where st': "handle st row = Inr st'" "gained st st' [ev]"
      using step[OF Cons.prems(1) ev(2)] Cons.prems(3) ev(1) by auto
    then obtain st'' where "foldM handle st' rows = Inr st''" "gained st' st'' evs"
      using Cons.IH[OF gained_inv[OF st'(2)] r] Cons.prems(3) ev(1) by auto
    then show ?thesis using st' gained_trans[of st st' "[ev]" st'' evs] ev(1) by auto
  qed
qed

lemma remembered_replay:
  assumes "replay_inv st" "recorded decode source rows events" "\<forall>ev \<in> set events. replayable root runId plan ev \<and> toPolicy ev"
  shows "\<exists>st'. foldM (rememberedEntry decode source root) st rows = Inr st' \<and> gained st st' events"
proof (rule replay_recorded[OF _ _ assms(1,2,3)])
  fix st :: replayed and row ev
  assume "replay_inv st" "decodeTrustedEntry decode row source = Inr (Some ev)" "replayable root runId plan ev \<and> toPolicy ev"
  then show "\<exists>st'. rememberedEntry decode source root st row = Inr st' \<and> gained st st' [ev]"
    by (elim conjE) (rule rememberedEntry_gained)
qed (simp add: rememberedEntry_def)

lemma run_replay:
  assumes "replay_inv st" "recorded decode source rows events" "\<forall>ev \<in> set events. replayable root runId plan ev \<and> \<not> toPolicy ev"
  shows "\<exists>st'. foldM (runEntry decode runId source plan root) st rows = Inr st' \<and> gained st st' events"
proof (rule replay_recorded[OF _ _ assms(1,2,3)])
  fix st :: replayed and row ev
  assume "replay_inv st" "decodeTrustedEntry decode row source = Inr (Some ev)" "replayable root runId plan ev \<and> \<not> toPolicy ev"
  then show "\<exists>st'. runEntry decode runId source plan root st row = Inr st' \<and> gained st st' [ev]"
    by (elim conjE) (rule runEntry_gained)
qed (simp add: runEntry_def)

section \<open>Construction\<close>

definition configuredList :: "journal_options \<Rightarrow> rule list" where
  "configuredList options = (case jo_rules options of [] \<Rightarrow> [] | x # _ \<Rightarrow> x)"

definition otherRules :: "journal_options \<Rightarrow> rule list" where
  "otherRules options = concat (tl (jo_rules options))"

definition preparedRun :: "capability_set \<Rightarrow> run_rule_input \<Rightarrow> run_rule" where
  "preparedRun ceiling i = (case i of
     Bare_rule r \<Rightarrow> \<lparr>rr_rule = r, rr_ceiling = ceiling, rr_initial = True\<rparr>
   | Captured_rule r gs \<Rightarrow> \<lparr>rr_rule = r, rr_ceiling = foldl (\<lambda>c g. intersect c (fromPatterns g)) ceiling gs, rr_initial = (gs = [])\<rparr>)"

lemma preparedRun_rule [simp]: "rr_rule (preparedRun ceiling i) = bareRule i"
  by (cases i) (simp_all add: preparedRun_def)

lemma prepareRunRule_Some:
  "prepareRunRule ceiling i = Some rr \<longleftrightarrow> rr = preparedRun ceiling i \<and> valid_pattern (r_pattern (bareRule i))"
  by (cases i) (auto simp: preparedRun_def)

lemma mapM_Some_iff:
  assumes "\<And>x y. f x = Some y \<longleftrightarrow> y = g x \<and> P x"
  shows "mapM f xs = Some ys \<longleftrightarrow> ys = map g xs \<and> (\<forall>x \<in> set xs. P x)"
proof (induction xs arbitrary: ys)
  case (Cons x xs)
  show ?case
  proof (cases "P x")
    case True
    then have "f x = Some (g x)" using assms by simp
    then show ?thesis using Cons True by (cases "mapM f xs") auto
  next
    case False
    then have "f x = None" using assms by (cases "f x") auto
    then show ?thesis using False by simp
  qed
qed auto

lemma prepareRunRules_iff:
  "prepareRunRules ceiling is = Inr rrs \<longleftrightarrow>
     length is \<le> maximumRules \<and> rrs = map (preparedRun ceiling) is \<and> (\<forall>i \<in> set is. valid_pattern (r_pattern (bareRule i)))"
  using mapM_Some_iff[of "prepareRunRule ceiling" "preparedRun ceiling" "\<lambda>i. valid_pattern (r_pattern (bareRule i))" "is" rrs,
      OF prepareRunRule_Some]
  by (auto simp: prepareRunRules_def orInvalid_def split: option.splits)

lemma mapM_snapshotRule_if: "mapM snapshotRule rs = (if \<forall>r \<in> set rs. valid_pattern (r_pattern r) then Some rs else None)"
  using mapM_Some_iff[of snapshotRule id "\<lambda>r. valid_pattern (r_pattern r)" rs]
  by (cases "mapM snapshotRule rs") auto

lemma countRulesets_iff: "countRulesets n rss \<longleftrightarrow> rss = [] \<or> n + sum_list (map length rss) \<le> maximumRules"
  by (induction n rss rule: countRulesets.induct) (auto simp: not_less)

lemma normalizeRules_nested:
  "normalizeRules (Some (Nested_rules (first # others))) = Inr (configured, remembered) \<longleftrightarrow>
     length others < maximumRules \<and> length first + sum_list (map length others) \<le> maximumRules
     \<and> configured = first \<and> remembered = concat others
     \<and> (\<forall>r \<in> set first \<union> set (concat others). valid_pattern (r_pattern r))"
  by (auto simp: normalizeRules_def orInvalid_def countRulesets_iff mapM_snapshotRule_if
      simp del: countRulesets.simps set_concat mapM.simps)

lemma envelopeSignatures_iff:
  "envelopeSignatures dl gs = Inr hs \<longleftrightarrow> length gs \<le> maximumRules \<and> hs = map (normalizeEnvelopeSignature dl) gs
     \<and> (\<forall>g \<in> set gs. validIdentity (Some (normalizeEnvelopeSignature dl g)))"
  using find_index_None[of "\<lambda>v. \<not> validIdentity (Some v)" "map (normalizeEnvelopeSignature dl) gs"]
  by (cases "find_index (\<lambda>v. \<not> validIdentity (Some v)) (map (normalizeEnvelopeSignature dl) gs)")
     (auto simp: envelopeSignatures_def Let_def)

definition startable :: "(ustring \<Rightarrow> (ustring \<times> envelope_scope \<times> ustring list) option) \<Rightarrow> ustring \<Rightarrow> journal_options
    \<Rightarrow> replayed \<Rightarrow> replayed \<Rightarrow> bool" where
  "startable dl root options policy run =
     (validIdentity (Some (jo_runId options)) \<and> validIdentity (Some (jo_planDigest options))
      \<and> length (jo_rules options) < maximumRules
      \<and> sum_list (map length (jo_rules options)) + length (rp_rules policy) + length (rp_rules run) \<le> maximumRules
      \<and> length (rp_signatures policy) + length (rp_signatures run) \<le> maximumRules
      \<and> (\<forall>r \<in> set (concat (jo_rules options)). valid_pattern (r_pattern r))
      \<and> (\<forall>r \<in> set (otherRules options). outsideEnvelope root r = Some False)
      \<and> (\<forall>i \<in> set (rp_rules policy) \<union> set (rp_rules run).
           valid_pattern (r_pattern (bareRule i)) \<and> outsideEnvelope root (bareRule i) = Some False)
      \<and> (\<forall>g \<in> set (rp_signatures policy) \<union> set (rp_signatures run).
           validIdentity (Some (normalizeEnvelopeSignature dl g))))"

definition startedStore :: "(ustring \<Rightarrow> (ustring \<times> envelope_scope \<times> ustring list) option) \<Rightarrow> ustring \<Rightarrow> capability_set
    \<Rightarrow> journal_options \<Rightarrow> replayed \<Rightarrow> replayed \<Rightarrow> grant_store" where
  "startedStore dl root ceiling options policy run =
     initialStore (storeOptions options policy run) root (configuredList options)
       (map (preparedRun ceiling) (rp_rules run)) (otherRules options @ map bareRule (rp_rules policy))
       (map (normalizeEnvelopeSignature dl) (rp_signatures policy @ rp_signatures run))"

lemma rules_split:
  "\<exists>others. (if jo_rules options = [] then [[]] else jo_rules options) = configuredList options # others
     \<and> concat others = otherRules options \<and> length others \<le> length (jo_rules options)
     \<and> (jo_rules options \<noteq> [] \<longrightarrow> Suc (length others) = length (jo_rules options))
     \<and> length (configuredList options) + sum_list (map length others) = sum_list (map length (jo_rules options))
     \<and> set (concat (jo_rules options)) = set (configuredList options) \<union> set (otherRules options)"
  by (cases "jo_rules options") (auto simp: configuredList_def otherRules_def)

lemma storeOptions_simps [simp]:
  "mo_runId (storeOptions options policy run) = Some (jo_runId options)"
  "mo_planDigest (storeOptions options policy run) = Some (jo_planDigest options)"
  "mo_runRules (storeOptions options policy run) = rp_rules run"
  "mo_signatures (storeOptions options policy run) = rp_signatures policy @ rp_signatures run"
  "mo_rules (storeOptions options policy run) = Some (Nested_rules
     ((if jo_rules options = [] then [[]] else jo_rules options) @ [map bareRule (rp_rules policy)]))"
  "mo_envelope (storeOptions options policy run) = None \<longleftrightarrow> jo_envelope options = None"
  by (auto simp: storeOptions_def)

lemma prepareStore_iff:
  "prepareStore dl root ceiling options = Inr s \<longleftrightarrow>
     (\<exists>configured remembered run signatures. s = initialStore options root configured run remembered signatures
      \<and> validIdentity (mo_runId options) \<and> validIdentity (mo_planDigest options)
      \<and> normalizeRules (mo_rules options) = Inr (configured, remembered)
      \<and> prepareRunRules ceiling (mo_runRules options) = Inr run
      \<and> length configured + length remembered + length run \<le> maximumRules
      \<and> envelopeSignatures dl (mo_signatures options) = Inr signatures
      \<and> (\<forall>r \<in> set remembered. outsideEnvelope root r = Some False)
      \<and> (\<forall>rr \<in> set run. outsideEnvelope root (rr_rule rr) = Some False))" (is "?l \<longleftrightarrow> ?r")
proof
  assume ?l
  then show ?r by (elim prepareStore_Some) blast
next
  assume ?r
  then obtain configured remembered run signatures where s: "s = initialStore options root configured run remembered signatures"
    and v: "validIdentity (mo_runId options)" "validIdentity (mo_planDigest options)"
    and n: "normalizeRules (mo_rules options) = Inr (configured, remembered)"
    and p: "prepareRunRules ceiling (mo_runRules options) = Inr run"
    and l: "length configured + length remembered + length run \<le> maximumRules"
    and g: "envelopeSignatures dl (mo_signatures options) = Inr signatures"
    and o: "\<forall>r \<in> set remembered. outsideEnvelope root r = Some False"
      "\<forall>rr \<in> set run. outsideEnvelope root (rr_rule rr) = Some False" by blast
  have "findIndexM (outsideEnvelope root) remembered = Some None"
    "findIndexM (\<lambda>rr. outsideEnvelope root (rr_rule rr)) run = Some None"
    using o by (simp_all add: findIndexM_None)
  then show ?l using v n p l g by (simp add: prepareStore_def s)
qed

lemma prepareStore_started:
  "prepareStore dl root ceiling (storeOptions options policy run) = Inr s
     \<and> sum_list (map length (jo_rules options)) + length (rp_rules policy) + length (rp_rules run) \<le> maximumRules
   \<longleftrightarrow> startable dl root options policy run \<and> s = startedStore dl root ceiling options policy run"
proof -
  obtain others where o: "(if jo_rules options = [] then [[]] else jo_rules options) = configuredList options # others"
    and c: "concat others = otherRules options" and l: "length others \<le> length (jo_rules options)"
    and l': "jo_rules options \<noteq> [] \<longrightarrow> Suc (length others) = length (jo_rules options)"
    and n: "length (configuredList options) + sum_list (map length others) = sum_list (map length (jo_rules options))"
    and u: "set (concat (jo_rules options)) = set (configuredList options) \<union> set (otherRules options)"
    using rules_split by blast
  have len: "Suc (length others) < maximumRules \<longleftrightarrow> length (jo_rules options) < maximumRules"
    using l l' by (cases "jo_rules options = []") (auto simp: maximumRules_def)
  have oc: "length (otherRules options) = sum_list (map length others)" by (simp add: c[symmetric] length_concat)
  have norm: "normalizeRules (mo_rules (storeOptions options policy run)) = Inr (configured, remembered) \<longleftrightarrow>
      length (jo_rules options) < maximumRules
      \<and> sum_list (map length (jo_rules options)) + length (rp_rules policy) \<le> maximumRules
      \<and> configured = configuredList options \<and> remembered = otherRules options @ map bareRule (rp_rules policy)
      \<and> (\<forall>r \<in> set (concat (jo_rules options)). valid_pattern (r_pattern r))
      \<and> (\<forall>i \<in> set (rp_rules policy). valid_pattern (r_pattern (bareRule i)))" for configured remembered
    unfolding storeOptions_simps o append_Cons normalizeRules_nested
    using len n u by (auto simp: c simp del: set_concat)
  show ?thesis
    unfolding prepareStore_iff norm prepareRunRules_iff envelopeSignatures_iff startable_def startedStore_def
    using oc n by (auto simp: u simp del: set_concat)
qed

lemma build_iff:
  assumes "jo_envelope options = None"
  shows "build dl persist eventBytes root ceiling options policy run = Inr s
   \<longleftrightarrow> startable dl root options policy run \<and> s = startedStore dl root ceiling options policy run"
proof -
  let ?total = "sum_list (map length (jo_rules options)) + length (rp_rules policy) + length (rp_rules run)"
  have "make_store dl persist eventBytes root ceiling (storeOptions options policy run)
      = prepareStore dl root ceiling (storeOptions options policy run)"
    using assms by (auto simp: make_store_def storeOptions_def split: sum.splits)
  then have "build dl persist eventBytes root ceiling options policy run = Inr s \<longleftrightarrow>
      ?total \<le> maximumRules \<and> length (rp_signatures policy) + length (rp_signatures run) \<le> maximumRules
      \<and> prepareStore dl root ceiling (storeOptions options policy run) = Inr s"
    by (auto simp: build_def Let_def)
  then show ?thesis using prepareStore_started[of dl root ceiling options policy run s]
    by (auto simp: startable_def)
qed

definition ids_ok :: "journal_options \<Rightarrow> bool" where
  "ids_ok options = (validId (jo_runId options) \<and> validId (jo_policyRunId options) \<and> validId (jo_sourceId options)
     \<and> validId (jo_planDigest options) \<and> jo_runId options \<noteq> jo_policyRunId options)"

abbreviation policyRows :: "'p journal_entry list \<Rightarrow> journal_options \<Rightarrow> 'p journal_entry list" where
  "policyRows table options \<equiv> selectRows table (jo_policyRunId options) None"

abbreviation runRows :: "'p journal_entry list \<Rightarrow> journal_options \<Rightarrow> 'p journal_entry list" where
  "runRows table options \<equiv> selectRows table (jo_runId options) None"

abbreviation replayPolicy where
  "replayPolicy decode root options rows \<equiv> foldM (rememberedEntry decode (jo_sourceId options) root) nothingReplayed rows"

abbreviation replayRun where
  "replayRun decode root options rows \<equiv>
     foldM (runEntry decode (jo_runId options) (jo_sourceId options) (jo_planDigest options) root) nothingReplayed rows"

lemma journalMake_iff:
  assumes "jo_envelope options = None" "sound_table table" "0 < limit"
    "length (policyRows table options) < fuel" "length (runRows table options) < fuel"
  shows "journalMake fuel dl (readPage table (\<lambda>_. None) limit) locked emit encode decode eventBytes root ceiling options
       = Some (Inr s) \<longleftrightarrow>
     ids_ok options \<and> (\<exists>policy run. replayPolicy decode root options (policyRows table options) = Inr policy
       \<and> replayRun decode root options (runRows table options) = Inr run
       \<and> startable dl root options policy run \<and> s = startedStore dl root ceiling options policy run)"
proof -
  have p: "replayRememberedRules fuel (readPage table (\<lambda>_. None) limit) decode (jo_policyRunId options) (jo_sourceId options) root
      = Some (replayPolicy decode root options (policyRows table options))"
    unfolding replayRememberedRules_def by (rule sql_journal.replay_all[OF assms(2,3,4)])
  have r: "replayRunRules fuel (readPage table (\<lambda>_. None) limit) decode (jo_runId options) (jo_sourceId options)
      (jo_planDigest options) root = Some (replayRun decode root options (runRows table options))"
    unfolding replayRunRules_def by (rule sql_journal.replay_all[OF assms(2,3,5)])
  show ?thesis
    by (auto simp: journalMake_def ids_ok_def p r assms(1) build_iff[OF assms(1)] Let_def split: sum.splits)
qed

section \<open>Envelope rows and signatures\<close>

definition envelopeRow :: "'p journal_entry \<Rightarrow> bool" where
  "envelopeRow row = (je_eventType row = js ''flows.kernel.grant.envelope.v1'')"

lemma decodeTrusted_type:
  "decodeTrustedEntry decode row source = Inr (Some ev) \<Longrightarrow> je_eventType row = eventType ev"
  by (auto simp: decodeTrustedEntry_def split: if_splits option.splits)

lemma replayEnvelope_signatures:
  "replayEnvelope root unsafe d scope ps st = Inr st' \<Longrightarrow> length (rp_signatures st') \<le> length (rp_signatures st) + 1"
  by (auto simp: replayEnvelope_def addSignature_def split: option.splits)

lemma rememberedEntry_signatures:
  assumes "rememberedEntry decode source root st row = Inr st'"
  shows "length (rp_signatures st') \<le> length (rp_signatures st) + (if envelopeRow row then 1 else 0)"
  using assms replayEnvelope_signatures
  by (fastforce simp: rememberedEntry_def envelopeRow_def dest: decodeTrusted_type
      split: sum.splits option.splits grant_event.splits bool.splits envelope_scope.splits)

lemma runEntry_signatures:
  assumes "runEntry decode runId source plan root st row = Inr st'"
  shows "length (rp_signatures st') \<le> length (rp_signatures st) + (if envelopeRow row then 1 else 0)"
  using assms replayEnvelope_signatures
  by (fastforce simp: runEntry_def envelopeRow_def dest: decodeTrusted_type
      split: sum.splits option.splits grant_event.splits bool.splits envelope_scope.splits if_splits)

lemma foldM_signatures:
  assumes "\<And>st row st'. handle st row = Inr st' \<Longrightarrow>
      length (rp_signatures st') \<le> length (rp_signatures st) + (if envelopeRow row then 1 else 0)"
    and "foldM handle st rows = Inr st'"
  shows "length (rp_signatures st') \<le> length (rp_signatures st) + length (filter envelopeRow rows)"
  using assms(2)
proof (induction rows arbitrary: st)
  case (Cons row rows)
  then obtain st1 where st1: "handle st row = Inr st1" "foldM handle st1 rows = Inr st'" by (auto split: sum.splits)
  show ?case using Cons.IH[OF st1(2)] assms(1)[OF st1(1)] by auto
qed simp

section \<open>What any successful replay has collected\<close>

definition replay_keys :: "replayed \<Rightarrow> bool" where
  "replay_keys st = (set (rp_seen st) = inputKey ` set (rp_rules st) \<and> (\<forall>i \<in> set (rp_rules st). r_effect (bareRule i) = Allow))"

lemma replay_keys_inv: "replay_keys st \<Longrightarrow> \<forall>i \<in> set (rp_rules st). valid_pattern (r_pattern (bareRule i)) \<Longrightarrow> replay_inv st"
  by (simp add: replay_keys_def replay_inv_def)

lemma append_keys: "replay_keys st \<Longrightarrow> replay_keys (appendReplayedRule st p)"
  by (cases "Pattern_key (identity p) \<in> set (rp_seen st)")
     (simp_all add: replay_keys_def appendReplayedRule_def Let_def image_Un Un_commute)

lemma append_all_keys: "replay_keys st \<Longrightarrow> replay_keys (foldl appendReplayedRule st ps)"
  by (induction ps arbitrary: st) (auto intro: append_keys)

lemma replayEnvelope_keys: "replay_keys st \<Longrightarrow> replayEnvelope root unsafe d scope ps st = Inr st' \<Longrightarrow> replay_keys st'"
  using append_all_keys[of st ps] by (auto simp: replayEnvelope_def replay_keys_def split: option.splits)

lemma rememberedEntry_keys: "replay_keys st \<Longrightarrow> rememberedEntry decode source root st row = Inr st' \<Longrightarrow> replay_keys st'"
  using replayEnvelope_keys append_keys
  by (auto simp: rememberedEntry_def split: sum.splits option.splits grant_event.splits bool.splits envelope_scope.splits)

lemma runEntry_keys: "replay_keys st \<Longrightarrow> runEntry decode runId source plan root st row = Inr st' \<Longrightarrow> replay_keys st'"
proof -
  assume k: "replay_keys st" and r: "runEntry decode runId source plan root st row = Inr st'"
  have add: "replay_keys (st\<lparr>rp_seen := rp_seen st @ [Run_key p gs],
      rp_rules := rp_rules st @ [Captured_rule \<lparr>r_effect = Allow, r_pattern = p\<rparr> gs]\<rparr>)" for p gs
    using k by (simp add: replay_keys_def)
  from r k add show ?thesis using replayEnvelope_keys[OF k]
    by (auto simp: runEntry_def
        split: sum.splits option.splits grant_event.splits bool.splits envelope_scope.splits if_splits)
qed

lemma foldM_keys:
  assumes "\<And>st row st'. replay_keys st \<Longrightarrow> handle st row = Inr st' \<Longrightarrow> replay_keys st'"
    and "foldM handle nothingReplayed rows = Inr st'"
  shows "replay_keys st'"
proof -
  have "foldM handle st rows = Inr st' \<Longrightarrow> replay_keys st \<Longrightarrow> replay_keys st'" for st
    by (induction rows arbitrary: st) (auto intro: assms(1) split: sum.splits)
  then show ?thesis using assms(2) by (simp add: nothingReplayed_def replay_keys_def)
qed

section \<open>Authority of the live and the rebuilt store\<close>

definition inputAdmits :: "capability \<Rightarrow> run_rule_input \<Rightarrow> bool" where
  "inputAdmits c i = (matches (r_pattern (bareRule i)) c \<and>
     (case i of Bare_rule _ \<Rightarrow> True | Captured_rule _ gs \<Rightarrow> \<forall>g \<in> set gs. \<exists>p \<in> set g. matches p c))"

lemma allows_narrowed:
  "allows (foldl (\<lambda>c g. intersect c (fromPatterns g)) ceiling gs) c \<longleftrightarrow>
     allows ceiling c \<and> (\<forall>g \<in> set gs. \<exists>p \<in> set g. matches p c)"
  by (induction gs arbitrary: ceiling) (auto simp: allows_intersect allows_fromPatterns)

lemma preparedRun_admits:
  "allows ceiling c \<Longrightarrow> inputAdmits c i \<longleftrightarrow>
     matches (r_pattern (bareRule i)) c \<and> allows (rr_ceiling (preparedRun ceiling i)) c"
  by (cases i) (auto simp: inputAdmits_def preparedRun_def allows_narrowed)

lemma lastMatch_allows:
  "\<forall>r \<in> set rs. r_effect r = Allow \<Longrightarrow>
     lastMatch e rs c = (if \<exists>r \<in> set rs. matches (r_pattern r) c then Allow else e)"
  by (induction rs arbitrary: e) auto

text \<open>The verdict of a store whose envelope, run and trailing remembered rules are all grants.\<close>

definition verdict :: "rule list \<Rightarrow> bool \<Rightarrow> rule list \<Rightarrow> bool \<Rightarrow> capability \<Rightarrow> rule_effect" where
  "verdict configured granted others remembered c =
     (if lastMatch Ask configured c = Deny then Deny
      else if remembered then Allow
      else lastMatch (if granted then Allow else lastMatch Ask configured c) others c)"

lemma verdict_evaluate:
  assumes "rules_valid s" "valid_capability c" "configuredRules s = configured" "rememberedRules s = others @ new"
    and "\<forall>r \<in> set (envelopeRules s) \<union> rr_rule ` set (runRules s) \<union> set new. r_effect r = Allow"
  shows "evaluate (rulesets s c) c = verdict configured
     ((\<exists>r \<in> set (envelopeRules s). matches (r_pattern r) c) \<or>
      (\<exists>rr \<in> set (runRules s). matches (r_pattern (rr_rule rr)) c \<and> allows (rr_ceiling rr) c))
     others (\<exists>r \<in> set new. matches (r_pattern r) c) c"
proof -
  let ?run = "map rr_rule (filter (\<lambda>rr. allows (rr_ceiling rr) c) (runRules s))"
  have cat: "concat (rulesets s c) = configured @ (envelopeRules s @ ?run) @ others @ new"
    using assms(3,4) by (simp add: rulesets_def)
  have a: "\<forall>r \<in> set (envelopeRules s @ ?run). r_effect r = Allow" "\<forall>r \<in> set new. r_effect r = Allow"
    using assms(5) unfolding set_append set_map set_filter by blast+
  have "evaluate (rulesets s c) c = (if lastMatch Ask configured c = Deny then Deny else lastMatch Ask (concat (rulesets s c)) c)"
    unfolding evaluate_decidable[OF rules_valid_decidable[OF assms(1,2)]]
    by (simp add: configured_rules_def rulesets_def assms(3) del: concat.simps)
  moreover have "(\<exists>r \<in> set (envelopeRules s @ ?run). matches (r_pattern r) c) \<longleftrightarrow>
      (\<exists>r \<in> set (envelopeRules s). matches (r_pattern r) c) \<or>
      (\<exists>rr \<in> set (runRules s). matches (r_pattern (rr_rule rr)) c \<and> allows (rr_ceiling rr) c)" by auto
  moreover have "lastMatch Ask (configured @ g @ others @ new) c
      = lastMatch (lastMatch (lastMatch (lastMatch Ask configured c) g c) others c) new c" for g
    by (simp only: lastMatch_append)
  note this[of "envelopeRules s @ ?run"]
  ultimately show ?thesis
    unfolding cat lastMatch_allows[OF a(1)] lastMatch_allows[OF a(2)] verdict_def by (simp del: set_append set_map set_filter)
qed

lemma plain_grant_envelope:
  assumes "isValidGrantPattern p c t root = Some True" "plainRoot root"
  shows "isValidEnvelopePattern p root = Some True"
proof -
  have a: "pat_action p = Exactly (cap_action c)" using assms(1) by (auto simp: isValidGrantPattern_def split: if_splits)
  have star: "star \<notin> set (pattern_action_text (pat_action p))"
    unfolding a by (cases "cap_action c") (simp_all add: star_def js_lits)
  show ?thesis
  proof (cases "cap_action c = FsWrite \<and> hasResourceWildcard (pat_resource p)")
    case True
    then have "pat_resource p \<noteq> root" using assms(2) by (auto simp: plainRoot_def)
    then show ?thesis using assms(1) True a star
      by (auto simp: isValidGrantPattern_def isValidEnvelopePattern_def split: if_splits)
  next
    case False
    then show ?thesis using a star by (auto simp: isValidEnvelopePattern_def)
  qed
qed

lemma inputs_safe:
  assumes "replayable root runId plan ev" "plainRoot root" "i \<in> set (inputsOf ev)"
  shows "valid_pattern (r_pattern (bareRule i)) \<and> outsideEnvelope root (bareRule i) = Some False \<and> r_effect (bareRule i) = Allow"
  using assms by (cases ev) (auto simp: outsideEnvelope_def allow_def plain_grant_envelope)

lemma signatures_safe:
  assumes "replayable root runId plan ev" "g \<in> set (signaturesOf ev)"
  shows "validIdentity (Some (normalizeEnvelopeSignature dl g))"
proof (cases ev)
  case (EnvelopeGrant r d ps scope)
  then have "envelopeSignature d scope ps = Some g" using assms(2) by (auto split: option.splits)
  then show ?thesis using envelopeSignature_identity by simp
qed (use assms(2) in simp_all)

text \<open>How the rules a store installed for its events relate to what a replay of the events collects.\<close>

lemma policy_inputs:
  "set (concat (map rememberedRulesOf evs)) = bareRule ` set (concat (map inputsOf (filter toPolicy evs)))"
proof (induction evs)
  case (Cons ev evs)
  have "set (rememberedRulesOf ev) = (if toPolicy ev then bareRule ` set (inputsOf ev) else {})"
    by (cases ev; cases "ev_scope ev") (auto simp: image_image)
  with Cons show ?case by (simp add: image_Un)
qed simp

lemma run_inputs:
  "set (concat (map inputsOf (filter (\<lambda>ev. \<not> toPolicy ev) evs))) =
     Bare_rule ` set (concat (map envelopeRulesOf evs)) \<union> (\<lambda>(r, gs). Captured_rule r gs) ` set (concat (map runRulesOf evs))"
proof (induction evs)
  case (Cons ev evs)
  have "(if toPolicy ev then {} else set (inputsOf ev)) =
      Bare_rule ` set (envelopeRulesOf ev) \<union> (\<lambda>(r, gs). Captured_rule r gs) ` set (runRulesOf ev)"
    by (cases ev; cases "ev_scope ev") (auto simp: image_image)
  with Cons show ?case by (cases "toPolicy ev") (auto simp: image_Un)
qed simp

lemma input_counts:
  "length (concat (map inputsOf (filter toPolicy evs))) = length (concat (map rememberedRulesOf evs))"
  "length (concat (map inputsOf (filter (\<lambda>ev. \<not> toPolicy ev) evs)))
     = length (concat (map envelopeRulesOf evs)) + length (concat (map runRulesOf evs))"
proof -
  have "length (rememberedRulesOf ev) = (if toPolicy ev then length (inputsOf ev) else 0)"
    "length (envelopeRulesOf ev) + length (runRulesOf ev) = (if toPolicy ev then 0 else length (inputsOf ev))" for ev
    by (cases ev; cases "ev_scope ev"; simp)+
  note l = this
  show "length (concat (map inputsOf (filter toPolicy evs))) = length (concat (map rememberedRulesOf evs))"
    by (induction evs) (simp_all add: l(1))
  show "length (concat (map inputsOf (filter (\<lambda>ev. \<not> toPolicy ev) evs)))
     = length (concat (map envelopeRulesOf evs)) + length (concat (map runRulesOf evs))"
  proof (induction evs)
    case (Cons ev evs)
    then show ?case using l(2)[of ev] by (cases "toPolicy ev") simp_all
  qed simp
qed

lemma startedStore_simps [simp]:
  "configuredRules (startedStore dl root ceiling options policy run) = configuredList options"
  "envelopeRules (startedStore dl root ceiling options policy run) = []"
  "runRules (startedStore dl root ceiling options policy run) = map (preparedRun ceiling) (rp_rules run)"
  "rememberedRules (startedStore dl root ceiling options policy run) = otherRules options @ map bareRule (rp_rules policy)"
  "journal (startedStore dl root ceiling options policy run) = []"
  "identified root (jo_runId options) (jo_planDigest options) (startedStore dl root ceiling options policy run)"
  by (simp_all add: startedStore_def initialStore_def identified_def)

lemma started_journal_ok:
  "journal_ok root (jo_runId options) (jo_planDigest options) (startedStore dl root ceiling options policy run)"
  by (simp add: journal_ok_def)

lemma started_rules_valid:
  "startable dl root options policy run \<Longrightarrow> rules_valid (startedStore dl root ceiling options policy run)"
  using rules_split[of options] by (auto simp: rules_valid_def allRules_def startable_def simp del: set_concat)

lemma started_inv:
  assumes "startable dl root options policy run"
  shows "store_inv (startedStore dl root ceiling options policy run)"
proof -
  have "prepareStore dl root ceiling (storeOptions options policy run) = Inr (startedStore dl root ceiling options policy run)"
    using assms prepareStore_started by blast
  then have f: "fresh_store (startedStore dl root ceiling options policy run)" by (rule prepareStore_fresh(1))
  then show ?thesis using fresh_store_inv[OF f] by (auto simp: store_inv_def fresh_store_def)
qed

lemma gained_rules:
  "gained st st' evs \<Longrightarrow> set (rp_rules st') = set (rp_rules st) \<union> set (concat (map inputsOf evs))"
  "gained st st' evs \<Longrightarrow> length (rp_rules st') \<le> length (rp_rules st) + length (concat (map inputsOf evs))"
  "gained st st' evs \<Longrightarrow> set (rp_signatures st') = set (rp_signatures st) \<union> set (concat (map signaturesOf evs))"
  by (auto simp: gained_def collect_def)

lemma restart_startable:
  assumes "plainRoot root" "startable dl root options policy run"
    and "reaches (startedStore dl root ceiling options policy run) s"
    and "gained policy policy' (filter toPolicy (journal s))" "gained run run' (filter (\<lambda>ev. \<not> toPolicy ev) (journal s))"
    and "length (rp_signatures policy') + length (rp_signatures run') \<le> maximumRules"
  shows "startable dl root options policy' run'"
proof -
  let ?s0 = "startedStore dl root ceiling options policy run"
  obtain evs where i: "installs ?s0 evs s" using reaches_installs[OF assms(3)] by blast
  then have evs: "journal s = evs" by (simp add: installs_def)
  have ok: "\<forall>ev \<in> set evs. replayable root (jo_runId options) (jo_planDigest options) ev"
    using reaches_journal_ok[OF assms(3) started_journal_ok] evs by (simp add: journal_ok_def)
  have "ruleCount s \<le> maximumRules"
    using reaches_inv[OF assms(3) started_inv[OF assms(2)]] by (simp add: store_inv_def core_inv_def)
  moreover have "map runKey (runRules s) = map runKey (map (preparedRun ceiling) (rp_rules run)) @ concat (map runRulesOf evs)"
    using i by (simp add: installs_def)
  from arg_cong[OF this, of length]
  have "length (runRules s) = length (rp_rules run) + length (concat (map runRulesOf evs))" by simp
  ultimately have "length (configuredList options) + length (otherRules options)
      + length (rp_rules policy') + length (rp_rules run') \<le> maximumRules"
    using i gained_rules(2)[OF assms(4)] gained_rules(2)[OF assms(5)] input_counts[of evs]
    by (simp add: installs_def ruleCount_def evs)
  moreover have "length (configuredList options) + length (otherRules options) = sum_list (map length (jo_rules options))"
    using rules_split[of options] by (metis length_concat)
  ultimately have n: "sum_list (map length (jo_rules options)) + length (rp_rules policy') + length (rp_rules run') \<le> maximumRules"
    by simp
  have "\<forall>i \<in> set (concat (map inputsOf evs)). valid_pattern (r_pattern (bareRule i)) \<and> outsideEnvelope root (bareRule i) = Some False"
    using ok inputs_safe[OF _ assms(1)] by fastforce
  then have r: "\<forall>i \<in> set (rp_rules policy') \<union> set (rp_rules run'). valid_pattern (r_pattern (bareRule i)) \<and> outsideEnvelope root (bareRule i) = Some False"
    unfolding gained_rules(1)[OF assms(4)] gained_rules(1)[OF assms(5)] evs
    using assms(2) by (auto simp: startable_def)
  have "\<forall>g \<in> set (concat (map signaturesOf evs)). validIdentity (Some (normalizeEnvelopeSignature dl g))"
    using ok signatures_safe by fastforce
  then have "\<forall>g \<in> set (rp_signatures policy') \<union> set (rp_signatures run'). validIdentity (Some (normalizeEnvelopeSignature dl g))"
    unfolding gained_rules(3)[OF assms(4)] gained_rules(3)[OF assms(5)] evs
    using assms(2) by (auto simp: startable_def)
  then show ?thesis using n r assms(2,6) by (simp add: startable_def)
qed

lemma restart_verdict:
  assumes "plainRoot root" "startable dl root options policy run" "replay_inv policy" "replay_inv run"
    and "reaches (startedStore dl root ceiling options policy run) s"
    and "gained policy policy' (filter toPolicy (journal s))" "gained run run' (filter (\<lambda>ev. \<not> toPolicy ev) (journal s))"
    and "startable dl root options policy' run'" "valid_capability c" "allows ceiling c"
  shows "evaluate (rulesets (startedStore dl root ceiling options policy' run') c) c = evaluate (rulesets s c) c"
proof -
  let ?s0 = "startedStore dl root ceiling options policy run"
  let ?s1 = "startedStore dl root ceiling options policy' run'"
  obtain evs where i: "installs ?s0 evs s" using reaches_installs[OF assms(5)] by blast
  then have evs: "journal s = evs" by (simp add: installs_def)
  let ?new = "map bareRule (rp_rules policy) @ concat (map rememberedRulesOf evs)"
  have rem: "rememberedRules s = otherRules options @ ?new" and env: "envelopeRules s = concat (map envelopeRulesOf evs)"
    and run: "map runKey (runRules s) = map runKey (map (preparedRun ceiling) (rp_rules run)) @ concat (map runRulesOf evs)"
    and conf: "configuredRules s = configuredList options"
    using i by (simp_all add: installs_def)
  have p': "bareRule ` set (rp_rules policy') = set ?new"
    unfolding gained_rules(1)[OF assms(6)] evs by (simp add: image_Un policy_inputs del: set_concat)
  have r': "set (rp_rules run') = set (rp_rules run) \<union> Bare_rule ` set (concat (map envelopeRulesOf evs))
      \<union> (\<lambda>(r, gs). Captured_rule r gs) ` set (concat (map runRulesOf evs))"
    unfolding gained_rules(1)[OF assms(7)] evs run_inputs by auto
  have inv': "replay_inv policy'" "replay_inv run'" using assms(6,7) gained_inv by auto
  have allow': "\<forall>i \<in> set (rp_rules policy') \<union> set (rp_rules run'). r_effect (bareRule i) = Allow"
    using inv' by (auto simp: replay_inv_def)
  have keys: "runKey ` set (runRules s) = runKey ` preparedRun ceiling ` set (rp_rules run) \<union> set (concat (map runRulesOf evs))"
    using arg_cong[OF run, of set] by (simp add: image_Un image_image)
  have live: "\<forall>r \<in> set (envelopeRules s) \<union> rr_rule ` set (runRules s) \<union> set ?new. r_effect r = Allow"
  proof -
    have cap: "bareRule (case x of (r, gs) \<Rightarrow> Captured_rule r gs) = fst x" for x by (cases x) simp
    have "rr_rule ` set (runRules s) = bareRule ` set (rp_rules run) \<union> fst ` set (concat (map runRulesOf evs))"
      using arg_cong[OF keys, of "image fst"] by (simp add: image_Un image_image runKey_def)
    moreover have "bareRule ` set (rp_rules run') = bareRule ` set (rp_rules run) \<union> set (envelopeRules s)
        \<union> fst ` set (concat (map runRulesOf evs))"
      unfolding r' image_Un image_image env by (simp add: cap del: set_concat)
    ultimately have sub: "set (envelopeRules s) \<union> rr_rule ` set (runRules s) \<union> set ?new
        \<subseteq> bareRule ` (set (rp_rules policy') \<union> set (rp_rules run'))"
      unfolding p'[symmetric] by blast
    show ?thesis
    proof
      fix r assume "r \<in> set (envelopeRules s) \<union> rr_rule ` set (runRules s) \<union> set ?new"
      then have "r \<in> bareRule ` (set (rp_rules policy') \<union> set (rp_rules run'))" by (rule subsetD[OF sub])
      then obtain i where "i \<in> set (rp_rules policy') \<union> set (rp_rules run')" "r = bareRule i" by (rule imageE)
      then show "r_effect r = Allow" using bspec[OF allow'] by simp
    qed
  qed
  have granted: "(\<exists>r \<in> set (envelopeRules s). matches (r_pattern r) c) \<or>
      (\<exists>rr \<in> set (runRules s). matches (r_pattern (rr_rule rr)) c \<and> allows (rr_ceiling rr) c)
    \<longleftrightarrow> (\<exists>i \<in> set (rp_rules run'). inputAdmits c i)"
  proof -
    have ad: "(case runKey (preparedRun ceiling i) of (r, gs) \<Rightarrow> matches (r_pattern r) c \<and> (\<forall>g \<in> set gs. \<exists>p \<in> set g. matches p c))
        \<longleftrightarrow> inputAdmits c i" for i
      using preparedRun_admits[OF assms(10), of i] by (simp add: runKey_def allows_def list_ex_iff list_all_iff)
    have "(\<exists>rr \<in> set (runRules s). matches (r_pattern (rr_rule rr)) c \<and> allows (rr_ceiling rr) c)
      \<longleftrightarrow> (\<exists>(r, gs) \<in> runKey ` set (runRules s). matches (r_pattern r) c \<and> (\<forall>g \<in> set gs. \<exists>p \<in> set g. matches p c))"
      by (simp add: runKey_def allows_def list_all_iff list_ex_iff)
    also have "\<dots> \<longleftrightarrow> (\<exists>i \<in> set (rp_rules run). inputAdmits c i)
        \<or> (\<exists>i \<in> (\<lambda>(r, gs). Captured_rule r gs) ` set (concat (map runRulesOf evs)). inputAdmits c i)"
      unfolding keys bex_Un bex_simps image_image ad
      by (simp add: inputAdmits_def split_def image_iff del: set_concat)
    finally show ?thesis unfolding r' env bex_Un
      by (simp add: inputAdmits_def del: set_concat) argo
  qed
  have "evaluate (rulesets s c) c = verdict (configuredList options) (\<exists>i \<in> set (rp_rules run'). inputAdmits c i)
      (otherRules options) (\<exists>r \<in> set ?new. matches (r_pattern r) c) c"
    using verdict_evaluate[OF reaches_rules_valid[OF assms(5) started_rules_valid[OF assms(2)]] assms(9) conf rem live]
    unfolding granted .
  moreover have live1: "\<forall>r \<in> set (envelopeRules ?s1) \<union> rr_rule ` set (runRules ?s1) \<union> set (map bareRule (rp_rules policy')).
      r_effect r = Allow"
    using allow' by (simp add: ball_Un)
  have granted1: "(\<exists>r \<in> set (envelopeRules ?s1). matches (r_pattern r) c) \<or>
      (\<exists>rr \<in> set (runRules ?s1). matches (r_pattern (rr_rule rr)) c \<and> allows (rr_ceiling rr) c)
    \<longleftrightarrow> (\<exists>i \<in> set (rp_rules run'). inputAdmits c i)"
    by (simp add: preparedRun_admits[OF assms(10)])
  have "evaluate (rulesets ?s1 c) c = verdict (configuredList options) (\<exists>i \<in> set (rp_rules run'). inputAdmits c i)
      (otherRules options) (\<exists>r \<in> set (map bareRule (rp_rules policy')). matches (r_pattern r) c) c"
    using verdict_evaluate[OF started_rules_valid[OF assms(8)] assms(9) startedStore_simps(1,4) live1]
    unfolding granted1 .
  ultimately show ?thesis using p' by simp
qed

section \<open>Construction from the longer journal\<close>

lemma foldM_extend:
  "foldM f st xs = Inr st' \<Longrightarrow> foldM f st' ys = Inr st'' \<Longrightarrow> foldM f st (xs @ ys) = Inr st''"
  by (simp add: foldM_append)

lemma replay_extended:
  assumes "startable dl root options policy run"
    and "replayPolicy decode root options rowsP = Inr policy" "replayRun decode root options rowsR = Inr run"
    and "reaches (startedStore dl root ceiling options policy run) s"
    and "recorded decode (jo_sourceId options) newP (filter toPolicy (journal s))"
    and "recorded decode (jo_sourceId options) newR (filter (\<lambda>ev. \<not> toPolicy ev) (journal s))"
  obtains policy' run' where "replay_inv policy" "replay_inv run"
    "replayPolicy decode root options (rowsP @ newP) = Inr policy'" "replayRun decode root options (rowsR @ newR) = Inr run'"
    "gained policy policy' (filter toPolicy (journal s))" "gained run run' (filter (\<lambda>ev. \<not> toPolicy ev) (journal s))"
proof -
  have "replay_keys policy" using foldM_keys[OF rememberedEntry_keys assms(2)] .
  then have ip: "replay_inv policy" by (rule replay_keys_inv) (use assms(1) in \<open>simp add: startable_def\<close>)
  have "replay_keys run" using foldM_keys[OF runEntry_keys assms(3)] .
  then have ir: "replay_inv run" by (rule replay_keys_inv) (use assms(1) in \<open>simp add: startable_def\<close>)
  have ok: "\<forall>ev \<in> set (journal s). replayable root (jo_runId options) (jo_planDigest options) ev"
    using reaches_journal_ok[OF assms(4) started_journal_ok] by (simp add: journal_ok_def)
  obtain policy' where p: "foldM (rememberedEntry decode (jo_sourceId options) root) policy newP = Inr policy'"
    "gained policy policy' (filter toPolicy (journal s))"
    using remembered_replay[OF ip assms(5)] ok by fastforce
  obtain run' where r: "foldM (runEntry decode (jo_runId options) (jo_sourceId options) (jo_planDigest options) root) run newR = Inr run'"
    "gained run run' (filter (\<lambda>ev. \<not> toPolicy ev) (journal s))"
    using run_replay[OF ir assms(6)] ok by fastforce
  show thesis
    by (rule that[OF ip ir foldM_extend[OF assms(2) p(1)] foldM_extend[OF assms(3) r(1)] p(2) r(2)])
qed

lemma restart_make:
  assumes "journalMake fuel dl (readPage table (\<lambda>_. None) limit) locked emit encode decode eventBytes root ceiling options
      = Some (Inr s0)"
    and "jo_envelope options = None" "plainRoot root" "0 < limit" "sound_table table" "sound_table table'"
    and "length (policyRows table options) < fuel" "length (runRows table options) < fuel"
    and "length (policyRows table' options) < fuel'" "length (runRows table' options) < fuel'"
    and "reaches s0 s"
    and "policyRows table' options = policyRows table options @ newPolicy" "runRows table' options = runRows table options @ newRun"
    and "recorded decode (jo_sourceId options) newPolicy (filter toPolicy (journal s))"
    and "recorded decode (jo_sourceId options) newRun (filter (\<lambda>ev. \<not> toPolicy ev) (journal s))"
    and "length (filter envelopeRow (policyRows table' options)) + length (filter envelopeRow (runRows table' options)) \<le> maximumRules"
  shows "\<exists>s1. journalMake fuel' dl (readPage table' (\<lambda>_. None) limit) locked' emit encode decode eventBytes root ceiling options
        = Some (Inr s1)
      \<and> (\<forall>c. valid_capability c \<and> allows ceiling c \<longrightarrow> evaluate (rulesets s1 c) c = evaluate (rulesets s c) c)"
proof -
  obtain policy run where ids: "ids_ok options" and p: "replayPolicy decode root options (policyRows table options) = Inr policy"
    and r: "replayRun decode root options (runRows table options) = Inr run"
    and st: "startable dl root options policy run" and s0: "s0 = startedStore dl root ceiling options policy run"
    using assms(1) unfolding journalMake_iff[OF assms(2,5,4,7,8)] by blast
  obtain policy' run' where inv: "replay_inv policy" "replay_inv run"
    and p': "replayPolicy decode root options (policyRows table' options) = Inr policy'"
    and r': "replayRun decode root options (runRows table' options) = Inr run'"
    and g: "gained policy policy' (filter toPolicy (journal s))" "gained run run' (filter (\<lambda>ev. \<not> toPolicy ev) (journal s))"
    unfolding assms(12,13) using replay_extended[OF st p r assms(11)[unfolded s0] assms(14,15)] .
  have "length (rp_signatures policy') \<le> length (filter envelopeRow (policyRows table' options))"
    "length (rp_signatures run') \<le> length (filter envelopeRow (runRows table' options))"
    using foldM_signatures[OF rememberedEntry_signatures p'] foldM_signatures[OF runEntry_signatures r']
    by (simp_all add: nothingReplayed_def)
  then have "length (rp_signatures policy') + length (rp_signatures run') \<le> maximumRules" using assms(16) by simp
  then have st': "startable dl root options policy' run'"
    by (rule restart_startable[OF assms(3) st assms(11)[unfolded s0] g])
  then have "journalMake fuel' dl (readPage table' (\<lambda>_. None) limit) locked' emit encode decode eventBytes root ceiling options
      = Some (Inr (startedStore dl root ceiling options policy' run'))"
    unfolding journalMake_iff[OF assms(2,6,4,9,10)] using ids p' r' by blast
  moreover have "valid_capability c \<Longrightarrow> allows ceiling c \<Longrightarrow>
      evaluate (rulesets (startedStore dl root ceiling options policy' run') c) c = evaluate (rulesets s c) c" for c
    by (rule restart_verdict[OF assms(3) st inv assms(11)[unfolded s0] g st'])
  ultimately show ?thesis by blast
qed

end
