(* ===== verification/Policy_Properties.thy ===== *)
theory Policy_Properties
  imports Sha256 Permission Capability_Set
begin

text \<open>
  The properties of the policy vocabulary: digests, capabilities and their patterns, workspace
  containment, rule evaluation, and capability ceilings.
\<close>

section \<open>Sample values\<close>

definition sampleRoot :: ustring where
  "sampleRoot = js ''/ws''"

definition sampleWrite :: capability where
  "sampleWrite = \<lparr>cap_action = FsWrite, cap_resource = js ''/ws/a/b''\<rparr>"

definition treePattern :: capability_pattern where
  "treePattern = \<lparr>pat_action = Exactly FsWrite, pat_resource = js ''/ws/**''\<rparr>"

definition childPattern :: capability_pattern where
  "childPattern = \<lparr>pat_action = Exactly FsWrite, pat_resource = js ''/ws/a/*''\<rparr>"

lemmas glob_eval = matches_def matchesAction_exact matchesResource_iff maxMatchWork_def maxResourceLength_def
  js_lits star_def question_def

lemma sample_matches: "matches childPattern sampleWrite"
  by (simp add: childPattern_def sampleWrite_def glob_eval)

lemma sample_tree_matches: "matches treePattern sampleWrite"
  by (simp add: treePattern_def sampleWrite_def glob_eval)

lemma sample_subsumes: "subsumes treePattern childPattern"
  by code_simp

lemma sample_valid: "valid_pattern treePattern" "valid_pattern childPattern" "valid_capability sampleWrite"
  by (simp_all add: valid_pattern_def valid_capability_def treePattern_def childPattern_def sampleWrite_def
      maxResourceLength_def)

section \<open>Digests\<close>


text \<open>
  \<open>digestSync\<close> on every input: text with a lone surrogate and foreign values are refused with their
  error codes, any other input gives 64 lowercase hexadecimal digits that spell the FIPS digest of its
  UTF-8 bytes.
\<close>

theorem digestSync_outcome:
  "digestSync input = (case input of
     Text_input s \<Rightarrow> if isWellFormed s then Inr (encodeHex (fipsSha256 (utf8 s))) else Inl Invalid_text
   | Byte_input bytes \<Rightarrow> Inr (encodeHex (fipsSha256 bytes))
   | Other_input \<Rightarrow> Inl Invalid_input)
   \<and> digestPattern (encodeHex (fipsSha256 bytes))"
  using encodeHex_pattern[OF sha256_length, of bytes]
  by (cases input) (simp_all add: digestSync_def snapshotSync_def sha256_is_fips)

section \<open>Capabilities\<close>

text \<open>
  (C37) The backtracking glob matcher terminates on every pattern and resource and accepts exactly the
  resources the recursive reading of \<open>*\<close> (any run of units) and \<open>?\<close> (any unit) describes.
\<close>

theorem matchGlob_correct: "matchGlob pattern resource \<longleftrightarrow> glob pattern resource"
  by (simp add: matchGlob_glob)

text \<open>
  (C36) Subsumption is sound: a pattern that subsumes another matches every capability the other matches.
\<close>

theorem subsumption_sound:
  assumes "subsumes general special" "matches special c" "valid_pattern general" "valid_capability c"
  shows "matches general c"
  by (rule subsumes_matches[OF assms])

theorem subsumption_sound_witness: "matches treePattern sampleWrite"
  by (rule subsumption_sound[OF sample_subsumes sample_matches sample_valid(1,3)])

text \<open>
  (C39) Rendering then parsing gives back every valid capability and every valid pattern, and whatever
  \<open>parse\<close> accepts is the rendering of its result: the text is a canonical identity.
\<close>

theorem capability_round_trip:
  assumes "valid_capability c" "valid_pattern p"
  shows "Option.bind (format_capability c) parse = Some c \<and> Option.bind (format_pattern p) parsePattern = Some p
    \<and> (parse text = Some d \<longrightarrow> format_capability d = Some text)"
  using parse_format_capability[OF assms(1)] parsePattern_format_pattern[OF assms(2)] parse_Some_format by auto

theorem capability_round_trip_witness:
  "Option.bind (format_capability sampleWrite) parse = Some sampleWrite
   \<and> Option.bind (format_pattern treePattern) parsePattern = Some treePattern"
  using capability_round_trip[OF sample_valid(3,1)] by blast

text \<open>
  Workspace containment is decided on resolved path segments: under an absolute root, a resource
  (relative ones are taken from the root) is inside exactly when the resolved segments of the root are a
  prefix of its own, whatever \<open>.\<close>, \<open>..\<close> and repeated slashes it is written with.
\<close>

theorem containment_by_segments:
  assumes "isAbsolutePath root"
  shows "isInsideWorkspace resource root \<longleftrightarrow> prefix (absSegs root) (resolvedSegs resource root)"
  by (rule isInsideWorkspace_iff[OF assms])

theorem containment_by_segments_witness:
  "isAbsolutePath sampleRoot \<and> \<not> isInsideWorkspace (js ''../etc'') sampleRoot
   \<and> \<not> prefix (absSegs sampleRoot) (resolvedSegs (js ''../etc'') sampleRoot)"
proof -
  have a: "isAbsolutePath sampleRoot" by code_simp
  have "\<not> isInsideWorkspace (js ''../etc'') sampleRoot" by code_simp
  with a containment_by_segments[OF a, of "js ''../etc''"] show ?thesis by simp
qed

text \<open>Lexical normalisation of a path is idempotent.\<close>

theorem lexicalPath_normal_form: "lexicalPath (lexicalPath path) = lexicalPath path"
  by (rule lexicalPath_idempotent)

section \<open>Rules\<close>

text \<open>
  Rule evaluation fails closed and is last-match-wins: when some rule exceeds the match budget the
  answer is deny; otherwise a deny of the configured rules is final, and else the last matching rule over
  all rulesets decides, ask when none matches.
\<close>

theorem evaluate_last_match:
  "evaluate rulesets c =
     (if decidable_rules rulesets c \<and> lastMatch Ask (configured_rules rulesets) c \<noteq> Deny
      then (case filter (\<lambda>r. matches (r_pattern r) c) (concat rulesets) of
        [] \<Rightarrow> Ask | rs \<Rightarrow> r_effect (last rs))
      else Deny)"
  using evaluate_undecidable[of rulesets c] evaluate_decidable[of rulesets c]
  by (cases "decidable_rules rulesets c") (simp_all add: lastMatch_filter[of Ask "concat rulesets"])

text \<open>A displayed field never exceeds 256 code units, however long the value and its escapes are.\<close>

theorem displayField_bounded: "length (displayField escaped value) \<le> maxDisplayFieldLength"
  by (rule displayField_length)

section \<open>Ceilings\<close>

text \<open>
  The normal form of a capability set depends only on the set of its groups, each as a set of
  patterns: order and repetition of groups and of patterns never matter, so \<open>equals\<close>, which compares
  normal forms element by element, compares what the sets mean.
\<close>

theorem capability_set_canonical:
  assumes "set ` set gs = set ` set hs"
  shows "make_set gs = make_set hs \<and> equals (make_set gs) (make_set hs)"
  using make_set_canonical[OF assms] by (simp add: equals_iff)

theorem capability_set_canonical_witness:
  "make_set [[treePattern, childPattern], [childPattern]] = make_set [[childPattern], [childPattern, treePattern], [childPattern]]"
  using capability_set_canonical[of "[[treePattern, childPattern], [childPattern]]"
      "[[childPattern], [childPattern, treePattern], [childPattern]]"] by auto

text \<open>
  Attenuation is a meet: the intersection allows exactly what both sides allow, is commutative and
  associative, and any chain of attenuations below a parent ceiling allows nothing the parent forbids.
\<close>

theorem attenuation_monotone:
  "(allows (intersect a b) c \<longleftrightarrow> allows a c \<and> allows b c) \<and> intersect a b = intersect b a
   \<and> intersect (intersect a b) d = intersect a (intersect b d)
   \<and> (allows (fold attenuate chain parent) c \<longleftrightarrow>
        allows parent c \<and> list_all (\<lambda>ps. list_ex (\<lambda>p. matches p c) ps) chain)"
proof -
  have "allows (fold attenuate chain parent) c \<longleftrightarrow>
      allows parent c \<and> list_all (\<lambda>ps. list_ex (\<lambda>p. matches p c) ps) chain"
    by (induction chain arbitrary: parent) (auto simp: attenuate_def allows_intersect allows_fromPatterns list_ex_iff)
  with allows_intersect[of a b c] intersect_commute[of a b] intersect_assoc[of a b d] show ?thesis by blast
qed

end
