(* ===== verification/Grant_Properties.thy ===== *)
theory Grant_Properties
  imports Grant_Outcomes Policy_Properties
begin

text \<open>
  The properties of the permission kernel's grant store: what its validation admits, the invariant of
  every store a run can reach, what authorises an effect, and how replies settle requests.
\<close>

section \<open>Sample values\<close>

definition sampleDigest :: ustring where
  "sampleDigest = js ''plan-1''"

definition sampleRun :: ustring where
  "sampleRun = js ''run-1''"

definition sampleOptions :: make_options where
  "sampleOptions = \<lparr>mo_attended = None, mo_rules = None, mo_runRules = [], mo_envelope = None, mo_signatures = [],
     mo_runId = Some sampleRun, mo_planDigest = Some sampleDigest\<rparr>"

definition noLegacy :: "ustring \<Rightarrow> (ustring \<times> envelope_scope \<times> ustring list) option" where
  "noLegacy value = None"

definition acceptAll :: persist_hook where
  "acceptAll event = None"

definition tinyEvent :: "grant_event \<Rightarrow> nat" where
  "tinyEvent event = 1"

definition noHeap :: js_heap where
  "noHeap a = RecordObj True []"

definition noText :: "js_number \<Rightarrow> ustring" where
  "noText n = []"

definition emptyStore :: grant_store where
  "emptyStore = initialStore sampleOptions sampleRoot [] [] [] []"

definition sampleId :: ustring where
  "sampleId = requestIdText 1"

definition sampleEntry :: pending_entry where
  "sampleEntry = \<lparr>pe_requestId = sampleId, pe_capability = sampleWrite, pe_tier = Compensable, pe_meta = JObject [],
     pe_ceiling = unrestricted\<rparr>"

text \<open>The empty store after a first check of \<open>sampleWrite\<close>: the request waits.\<close>

definition waitingStore :: grant_store where
  "waitingStore = emptyStore\<lparr>nextRequestId := 2, pending := [(sampleId, sampleEntry)]\<rparr>"

lemma sample_identity: "validIdentity (Some sampleDigest)" "validIdentity (Some sampleRun)"
  by (simp_all add: validIdentity_def sampleDigest_def sampleRun_def maximumIdentityLength_def js_lits isHigh_def isLow_def)

lemma emptyStore_made: "make_store noLegacy acceptAll tinyEvent sampleRoot unrestricted sampleOptions = Inr emptyStore"
  using sample_identity
  by (simp add: make_store_def prepareStore_def sampleOptions_def normalizeRules_def prepareRunRules_def orInvalid_def
      envelopeSignatures_def emptyStore_def)

lemma sample_tier: "tierOf sampleWrite sampleRoot = Compensable"
  by code_simp

lemma empty_evaluates: "evaluate (rulesets emptyStore c) c = Ask"
  by (simp add: rulesets_def emptyStore_def initialStore_def evaluate_def)

lemma sample_check:
  "check noText noHeap unrestricted sampleWrite None emptyStore = (Waiting sampleId, waitingStore)"
proof -
  have "snapshotRequest noText noHeap sampleWrite None = Inr (sampleWrite, JObject [])"
    using sample_valid by (simp add: snapshotRequest_def snapshotCapability_def make_capability_def sampleWrite_def)
  moreover have "\<not> closed emptyStore" "gs_attended emptyStore" "pending emptyStore = []" "nextRequestId emptyStore = 1"
    "gs_workspaceRoot emptyStore = sampleRoot"
    by (simp_all add: emptyStore_def initialStore_def sampleOptions_def)
  ultimately show ?thesis
    by (simp add: check_def decide_def empty_evaluates allocateRequest_def maximumPendingRequests_def sample_tier
        waitingStore_def sampleEntry_def sampleId_def Let_def)
qed

lemma emptyStore_reaches: "reaches emptyStore waitingStore"
  using store_step.check[of emptyStore noText noHeap unrestricted sampleWrite None] by (simp add: sample_check r_into_rtranclp)

lemma waitingStore_inv: "store_inv waitingStore" "rules_valid waitingStore"
  using reaches_inv[OF emptyStore_reaches make_store_inv(1)[OF emptyStore_made]]
    reaches_rules_valid[OF emptyStore_reaches make_store_rules_valid[OF emptyStore_made]] by auto

lemma waitingStore_entry: "map_of (pending waitingStore) sampleId = Some sampleEntry"
  by (simp add: waitingStore_def)

lemma accepted: "acceptAll event = None" "tinyEvent event \<le> maximumEventBytes"
  by (simp_all add: acceptAll_def tinyEvent_def maximumEventBytes_def)

lemma sample_workspacePattern: "workspacePattern sampleRoot = Some treePattern"
  by (simp add: workspacePattern_def make_pattern_def treePattern_def valid_pattern_def stripTrailing_def
      maxResourceLength_def js_lits slash_def backslash_def sampleRoot_def)

lemma sample_grant: "isValidGrantPattern childPattern sampleWrite Compensable sampleRoot = Some True"
proof -
  have "subsumes treePattern childPattern" by (rule sample_subsumes)
  then show ?thesis using sample_matches sample_tier sample_workspacePattern
    by (simp add: isValidGrantPattern_def) (simp add: childPattern_def sampleWrite_def js_lits)
qed


section \<open>Validation\<close>

text \<open>
  Request metadata that is admitted is JSON data within the limits: finite numbers and well-formed text
  only, nesting at most 16, at most 1024 members, at most 65536 bytes of JSON, a record at the root.
  Cyclic and shared heaps included: the visitor terminates on every heap.
\<close>

theorem metadata_within_limits:
  assumes "metadataSnapshot numText heap input = Inr j"
  shows "json_clean j \<and> json_depth j \<le> maximumMetadataDepth \<and> json_members j \<le> maximumMetadataMembers
    \<and> length (utf8 (stringify numText (ownJson j))) \<le> maximumMetadataBytes \<and> (\<exists>kvs. j = JObject kvs)"
  using metadataSnapshot_sound[OF assms] by blast

definition sampleHeap :: js_heap where
  "sampleHeap a = (if a = 0 then RecordObj True [(js ''k'', True, Data (Ref 1))] else ArrayObj [Some (Data Null)])"

definition sampleMeta :: json where
  "sampleMeta = JObject [(js ''k'', JArray [JNull])]"

lemma sampleMeta_represents: "represents sampleHeap (Ref 0) sampleMeta"
proof -
  have "represents sampleHeap (Ref 1) (JArray [JNull])"
    by (rule represents.array[of _ _ "[Null]"]) (auto simp: sampleHeap_def intro: represents.null)
  moreover have "isWellFormed (js ''k'')" "js ''k'' \<noteq> protoKey"
    by (simp_all add: js_lits isHigh_def isLow_def protoKey_def)
  ultimately show ?thesis unfolding sampleMeta_def
    by (intro represents.object[of _ _ "[(js ''k'', Ref 1)]"]) (auto simp: sampleHeap_def)
qed

lemma sampleMeta_small:
  "json_depth sampleMeta \<le> maximumMetadataDepth" "json_members sampleMeta \<le> maximumMetadataMembers"
  "length (utf8 (stringify noText sampleMeta)) \<le> maximumMetadataBytes"
  by (simp_all add: sampleMeta_def maximumMetadataDepth_def maximumMetadataMembers_def maximumMetadataBytes_def
      js_lits quoteJson_def quoteChunk_def quoteUnit_def isHigh_def isLow_def utf8_def utf8Point_def isSurrogatePoint_def)

theorem metadata_within_limits_witness:
  "metadataSnapshot noText sampleHeap (Ref 0) = Inr sampleMeta \<and> json_clean sampleMeta"
proof -
  have "metadataSnapshot noText sampleHeap (Ref 0) = Inr sampleMeta"
    using sampleMeta_represents sampleMeta_small unfolding sampleMeta_def by (rule metadataSnapshot_exact)
  then show ?thesis using metadata_within_limits by blast
qed

text \<open>
  Metadata is copied faithfully: when the heap holds a JSON record (plain records, dense arrays, no own
  \<open>__proto__\<close>) within the limits, the snapshot is that record, whatever addresses its parts share.
\<close>

theorem metadata_copied:
  assumes "represents heap v (JObject kvs)" "json_depth (JObject kvs) \<le> maximumMetadataDepth"
    "json_members (JObject kvs) \<le> maximumMetadataMembers"
    "length (utf8 (stringify numText (JObject kvs))) \<le> maximumMetadataBytes"
  shows "metadataSnapshot numText heap v = Inr (JObject kvs)"
  by (rule metadataSnapshot_exact[OF assms])

theorem metadata_copied_witness: "metadataSnapshot noText sampleHeap (Ref 0) = Inr sampleMeta"
  using sampleMeta_represents sampleMeta_small unfolding sampleMeta_def by (rule metadata_copied)

text \<open>
  The identity of an envelope is its plan, its scope and its set of predicates: the encoded text that
  is hashed is the same for two envelopes exactly when these agree, and the signature of valid predicates
  always exists.
\<close>

theorem envelope_identity:
  assumes "\<forall>p \<in> set ps \<union> set qs. valid_pattern p"
  shows "(envelopeEncoding d sc ps = envelopeEncoding d' sc' qs \<longleftrightarrow> d = d' \<and> sc = sc' \<and> set ps = set qs)
    \<and> (\<exists>s. envelopeSignature d sc ps = Some s \<and> validIdentity (Some s))"
proof -
  obtain t where t: "envelopeEncoding d sc ps = Some t" using assms envelopeSignature_Some[of ps d sc] by auto
  have "envelopeEncoding d sc ps = envelopeEncoding d sc qs" if "set ps = set qs"
    using canonical_cong[OF that] by (simp add: envelopeEncoding_def)
  moreover have "\<exists>s. envelopeSignature d sc ps = Some s"
    using assms envelopeSignature_None[of d sc ps] by auto
  ultimately show ?thesis using envelopeEncoding_inject[of d sc ps t d' sc' qs] t envelopeSignature_identity(1) by metis
qed

theorem envelope_identity_witness:
  "envelopeEncoding sampleDigest Run_scope [treePattern, childPattern, treePattern]
     = envelopeEncoding sampleDigest Run_scope [childPattern, treePattern]
   \<and> envelopeEncoding sampleDigest Run_scope [treePattern] \<noteq> envelopeEncoding sampleDigest Run_scope [childPattern]"
proof -
  have "treePattern \<noteq> childPattern" by (simp add: treePattern_def childPattern_def js_lits)
  then show ?thesis
    using envelope_identity[of "[treePattern, childPattern, treePattern]" "[childPattern, treePattern]"
        sampleDigest Run_scope sampleDigest Run_scope]
      envelope_identity[of "[treePattern]" "[childPattern]" sampleDigest Run_scope sampleDigest Run_scope] sample_valid
    by auto
qed



text \<open>The normality of the path is needed: the accepted pattern also matches a path that climbs out of the workspace.\<close>

theorem grant_pattern_escapes:
  "isValidGrantPattern treePattern sampleWrite Compensable sampleRoot = Some True
   \<and> matches treePattern \<lparr>cap_action = FsWrite, cap_resource = js ''/ws/../etc/x''\<rparr>
   \<and> tierOf \<lparr>cap_action = FsWrite, cap_resource = js ''/ws/../etc/x''\<rparr> sampleRoot = Irreversible"
proof (intro conjI)
  have "subsumes treePattern treePattern" by code_simp
  then show "isValidGrantPattern treePattern sampleWrite Compensable sampleRoot = Some True"
    using sample_tree_matches sample_tier sample_workspacePattern
    by (simp add: isValidGrantPattern_def) (simp add: treePattern_def sampleWrite_def js_lits)
  show "matches treePattern \<lparr>cap_action = FsWrite, cap_resource = js ''/ws/../etc/x''\<rparr>"
    by (simp add: treePattern_def glob_eval)
  show "tierOf \<lparr>cap_action = FsWrite, cap_resource = js ''/ws/../etc/x''\<rparr> sampleRoot = Irreversible" by code_simp
qed

section \<open>Reachable stores\<close>

text \<open>
  (C1) Every store that construction and any interleaving of checks, replies, envelope grants, departures of
  waiters and closing can reach satisfies the invariant: distinct fresh request ids, at most 1024 parked
  requests, 1024 rules and 1024 envelopes, each parked request within its ceiling and not denied by
  configured policy, no request both parked and settled, nothing parked in a closed store, and no request
  left waiting that the rules in force allow.
\<close>

theorem reachable_store_invariant:
  assumes "make_store decodeLegacy persist eventBytes root ceiling options = Inr s" "reaches s s'"
  shows "store_inv s'"
  by (rule reaches_inv[OF assms(2) make_store_inv(1)[OF assms(1)]])

theorem reachable_store_invariant_witness: "store_inv waitingStore"
  by (rule reachable_store_invariant[OF emptyStore_made emptyStore_reaches])

text \<open>
  (C5) A waiter is released only with authority: when a step completes a request's Deferred with success, that
  request was parked, and either the step recorded a durable once grant for exactly this request or the
  rules now in force allow its capability within the ceiling captured with it.
\<close>

theorem release_is_justified:
  assumes "store_step s s'" "map_of (settled s') k = Some Granted" "map_of (settled s) k = None"
  shows "\<exists>e. (k, e) \<in> set (pending s) \<and>
     (journal s' = journal s @ [once_event k e s]
      \<or> allows (pe_ceiling e) (pe_capability e) \<and> evaluate (rulesets s' (pe_capability e)) (pe_capability e) = Allow)"
  using granted_justified_step[OF assms] by (simp add: covered_def)

theorem release_is_justified_witness:
  "\<exists>s'. store_step waitingStore s' \<and> map_of (settled s') sampleId = Some Granted
     \<and> (\<exists>e. (sampleId, e) \<in> set (pending waitingStore))"
proof -
  obtain s' where s': "reply acceptAll tinyEvent sampleId (js ''once'') None waitingStore = (None, s')"
    "map_of (settled s') sampleId = Some Granted"
    using reply_once_settles[OF waitingStore_inv(1) waitingStore_entry, of acceptAll tinyEvent None, OF accepted] by auto
  then have st: "store_step waitingStore s'"
    using store_step.reply[of waitingStore acceptAll tinyEvent sampleId "js ''once''" None] by simp
  have "map_of (settled waitingStore) sampleId = None"
    by (simp add: waitingStore_def emptyStore_def initialStore_def)
  with release_is_justified[OF st s'(2)] st s'(2) show ?thesis by blast
qed

text \<open>
  (C7) The authority in force is what the journal records: along every run, the rules of the later store are
  those of the earlier one followed by exactly the rules of the events recorded in between, run grants
  together with the ceiling they captured.  No rule is ever active without its durable event, none is
  dropped, and configured rules never change.
\<close>

theorem authority_is_journaled:
  assumes "reaches s s'"
  shows "\<exists>events. journal s' = journal s @ events \<and> configuredRules s' = configuredRules s
     \<and> envelopeRules s' = envelopeRules s @ concat (map envelopeRulesOf events)
     \<and> map runKey (runRules s') = map runKey (runRules s) @ concat (map runRulesOf events)
     \<and> rememberedRules s' = rememberedRules s @ concat (map rememberedRulesOf events)"
  using reaches_installs[OF assms] by (simp add: installs_def)

theorem authority_is_journaled_witness: "\<exists>events. journal waitingStore = journal emptyStore @ events"
  using authority_is_journaled[OF emptyStore_reaches] by blast

text \<open>
  (C34) A configured deny is final: once configured policy denies a capability, no sequence of replies,
  envelopes or other steps makes a later check of it pass or park, and it is never among the parked
  requests.
\<close>

theorem configured_deny_final:
  assumes "store_inv s" "reaches s s'" "lastMatch Ask (configuredRules s) c = Deny"
  shows "fst (check numText heap ceiling c m s') \<noteq> Passed \<and> fst (check numText heap ceiling c m s') \<noteq> Waiting k
    \<and> c \<notin> pe_capability ` snd ` set (pending s')"
proof -
  have "lastMatch Ask (configuredRules s') c = Deny" using assms(2,3) reaches_configured by simp
  then show ?thesis using check_configured_deny denied_never_parked[OF assms] by fastforce
qed

definition denyingStore :: grant_store where
  "denyingStore = initialStore sampleOptions sampleRoot [\<lparr>r_effect = Deny, r_pattern = treePattern\<rparr>] [] [] []"

theorem configured_deny_final_witness:
  "fst (check noText noHeap unrestricted sampleWrite None denyingStore) \<noteq> Passed"
proof -
  have "store_inv denyingStore"
    by (simp add: store_inv_def core_inv_def denyingStore_def initialStore_def ruleCount_def maximumRules_def distinctFirst_def)
  moreover have "lastMatch Ask (configuredRules denyingStore) sampleWrite = Deny"
    using sample_tree_matches by (simp add: denyingStore_def initialStore_def)
  ultimately show ?thesis using configured_deny_final[of denyingStore denyingStore] by blast
qed

text \<open>
  A check passes at once exactly when the request is well formed, the store open, the capability within
  the caller's ceiling and allowed by the rules; it dies exactly when an unattended store must report
  metadata holding a record with a foreign prototype.
\<close>

theorem check_decides:
  "(fst (check numText heap ceiling c m s) = Passed \<longleftrightarrow>
      (\<exists>r. snapshotRequest numText heap c m = Inr r) \<and> \<not> closed s \<and> allows ceiling c
      \<and> evaluate (rulesets s c) c = Allow)
   \<and> (fst (check numText heap ceiling c m s) = Died \<longleftrightarrow>
      (\<exists>j. snapshotRequest numText heap c m = Inr (c, j) \<and> exotic j) \<and> \<not> closed s \<and> allows ceiling c
      \<and> evaluate (rulesets s c) c = Ask \<and> \<not> gs_attended s)"
  using check_passed_iff check_Died_iff by blast

text \<open>
  An allow decision has a matching allow rule: a configured, envelope or remembered rule, or a run
  rule whose captured ceiling also allows the capability.  A run grant authorises nothing outside the
  ceiling under which it was given.
\<close>

theorem allow_has_rule:
  assumes "evaluate (rulesets s c) c = Allow"
  shows "(\<exists>r \<in> set (configuredRules s) \<union> set (envelopeRules s) \<union> set (rememberedRules s).
       r_effect r = Allow \<and> matches (r_pattern r) c)
     \<or> (\<exists>rr \<in> set (runRules s). r_effect (rr_rule rr) = Allow \<and> matches (r_pattern (rr_rule rr)) c
          \<and> allows (rr_ceiling rr) c)"
  by (rule allow_source[OF assms])

theorem allow_has_rule_witness:
  "\<exists>r \<in> {\<lparr>r_effect = Allow, r_pattern = treePattern\<rparr>}. matches (r_pattern r) sampleWrite"
proof -
  let ?s = "initialStore sampleOptions sampleRoot [\<lparr>r_effect = Allow, r_pattern = treePattern\<rparr>] [] [] []"
  have "rules_valid ?s" using sample_valid by (simp add: rules_valid_def allRules_def initialStore_def)
  then have "decidable_rules (rulesets ?s sampleWrite) sampleWrite" using sample_valid by (intro rules_valid_decidable)
  then have "evaluate (rulesets ?s sampleWrite) sampleWrite = Allow"
    using evaluate_rulesets[of ?s sampleWrite] sample_tree_matches by (simp add: initialStore_def rulesets_def)
  then show ?thesis using allow_has_rule[of ?s sampleWrite] by (auto simp: initialStore_def)
qed

section \<open>Replies\<close>

text \<open>
  A reply or an envelope grant that reports a failure, a persistence failure included, leaves the store
  exactly as it was; a successful reply has appended exactly one event that the persistence hook accepted.
\<close>

theorem failed_operation_inert:
  "(case reply persist eventBytes k resolution supplied s of
      (Some f, s') \<Rightarrow> s' = s
    | (None, s') \<Rightarrow> \<exists>event. persist event = None \<and> journal s' = journal s @ [event])
   \<and> (case grantEnvelope persist eventBytes input s of (Some f, s') \<Rightarrow> s' = s \<and> f \<noteq> Die | (None, s') \<Rightarrow> True)"
proof
  obtain r s' where "reply persist eventBytes k resolution supplied s = (r, s')" by (cases "reply persist eventBytes k resolution supplied s")
  then show "case reply persist eventBytes k resolution supplied s of
      (Some f, s') \<Rightarrow> s' = s
    | (None, s') \<Rightarrow> \<exists>event. persist event = None \<and> journal s' = journal s @ [event]"
    using reply_failure reply_success_persisted by (cases r) auto
  obtain r s' where "grantEnvelope persist eventBytes input s = (r, s')" by (cases "grantEnvelope persist eventBytes input s")
  then show "case grantEnvelope persist eventBytes input s of (Some f, s') \<Rightarrow> s' = s \<and> f \<noteq> Die | (None, s') \<Rightarrow> True"
    using grantEnvelope_failure by (cases r) auto
qed



text \<open>
  A successful remembered reply always releases its request, and with it every other parked request it
  covers, since none is left that the rules allow.
\<close>

theorem remembered_reply_settles:
  assumes "store_inv s" "rules_valid s" "map_of (pending s) k = Some e"
    and "reply persist eventBytes k (js ''remembered'') supplied s = (None, s')"
  shows "map_of (settled s') k = Some Granted \<and> map_of (pending s') k = None
    \<and> list_all (\<lambda>(j, x). \<not> covered s' x) (pending s')"
  using reply_remembered_outcome[OF assms] reply_inv[OF assms(1), of persist eventBytes k "js ''remembered''" supplied] assms(4)
  by (simp add: store_inv_def list_all_iff)

lemma sample_reply_event:
  "res \<in> {js ''run'', js ''remembered''} \<Longrightarrow>
   \<exists>s'. reply acceptAll tinyEvent sampleId res (Some childPattern) waitingStore = (None, s')"
proof -
  have p: "replyPattern r (Some childPattern) sampleEntry = Inr childPattern" if "r = Run \<or> r = Remembered" for r
    using that snapshotPattern_valid[OF sample_valid(2)]
    by (auto simp: replyPattern_def orInvalid_def simp del: snapshotPattern_Some)
  have w: "gs_workspaceRoot waitingStore = sampleRoot" "\<not> closed waitingStore" "gs_planDigest waitingStore = Some sampleDigest"
    "ruleCount waitingStore < maximumRules"
    by (simp_all add: waitingStore_def emptyStore_def initialStore_def sampleOptions_def ruleCount_def maximumRules_def)
  have g: "isValidGrantPattern childPattern (pe_capability sampleEntry) (pe_tier sampleEntry) sampleRoot = Some True"
    using sample_grant by (simp add: sampleEntry_def)
  have e: "persistEvent acceptAll tinyEvent event s = Inr (logged event s)" for event s
    using accepted by (simp add: persistEvent_ok)
  show "res \<in> {js ''run'', js ''remembered''} \<Longrightarrow> ?thesis"
    using p[of Run] p[of Remembered] w g waitingStore_entry sample_valid(2)
    by (auto simp: reply_def replyRun_def replyRemembered_def allowRule_Some e)
qed

theorem remembered_reply_settles_witness:
  "\<exists>s'. reply acceptAll tinyEvent sampleId (js ''remembered'') (Some childPattern) waitingStore = (None, s')
     \<and> map_of (settled s') sampleId = Some Granted"
  using sample_reply_event[of "js ''remembered''"] remembered_reply_settles[OF waitingStore_inv waitingStore_entry]
  by blast

text \<open>
  (C40) What a successful run reply does to its own request depends on the remembered rules, which are consulted
  after run rules: when they leave the capability allowed the waiter is released, otherwise the reply
  reports success and the request stays parked with its waiter.
\<close>

theorem run_reply_outcome:
  assumes "store_inv s" "rules_valid s" "map_of (pending s) k = Some e"
    and "reply persist eventBytes k (js ''run'') supplied s = (None, s')"
  shows "if lastMatch Allow (rememberedRules s) (pe_capability e) = Allow
     then map_of (settled s') k = Some Granted \<and> map_of (pending s') k = None
     else map_of (settled s') k = None \<and> map_of (pending s') k = Some e"
  by (rule reply_run_outcome[OF assms])

theorem run_reply_outcome_witness:
  "\<exists>s'. reply acceptAll tinyEvent sampleId (js ''run'') (Some childPattern) waitingStore = (None, s')
     \<and> map_of (settled s') sampleId = Some Granted"
proof -
  have "lastMatch Allow (rememberedRules waitingStore) (pe_capability sampleEntry) = Allow"
    by (simp add: waitingStore_def emptyStore_def initialStore_def)
  then show ?thesis
    using sample_reply_event[of "js ''run''"] run_reply_outcome[OF waitingStore_inv waitingStore_entry] by fastforce
qed

text \<open>
  No reply dies when the workspace root leaves room for its glob: every refusal is a typed failure.
\<close>

theorem reply_never_dies:
  assumes "workspacePattern (gs_workspaceRoot s) \<noteq> None"
  shows "fst (reply persist eventBytes k resolution supplied s) \<noteq> Some Die"
  by (rule reply_not_Die[OF assms])

theorem reply_never_dies_witness:
  "fst (reply acceptAll tinyEvent sampleId (js ''run'') (Some childPattern) waitingStore) \<noteq> Some Die"
proof -
  have "gs_workspaceRoot waitingStore = sampleRoot" by (simp add: waitingStore_def emptyStore_def initialStore_def)
  then show ?thesis by (intro reply_never_dies) (simp add: sample_workspacePattern)
qed

text \<open>
  Closing is final and strands nobody: the finalizer refuses every parked request with the reason
  \<open>grant store closed\<close>, and from then on the store stays closed and parks nothing.
\<close>

theorem closing_is_final:
  assumes "store_inv s" "map_of (pending s) k = Some e" "reaches (finalizer s) s'"
  shows "map_of (settled (finalizer s)) k = Some (Refused (permissionDenied (pe_capability e) ''grant store closed''))
    \<and> closed s' \<and> pending s' = [] \<and> fst (check numText heap ceiling c m s') \<noteq> Passed"
proof -
  have "map_of (settled s) k = None" using pending_entry_inv[OF assms(1,2)] by blast
  moreover have "closed s'" using closed_reaches[OF assms(3)] by (simp add: finalizer_spec)
  moreover from this have "pending s' = []"
    using reaches_inv[OF assms(3) finalizer_inv[OF assms(1)]] by (simp add: store_inv_def core_inv_def)
  ultimately show ?thesis using assms(2) check_passed_iff[of numText heap ceiling c m s'] by (simp add: finalizer_spec)
qed

theorem closing_is_final_witness:
  "map_of (settled (finalizer waitingStore)) sampleId
     = Some (Refused (permissionDenied sampleWrite ''grant store closed''))"
proof -
  have "map_of (settled (finalizer waitingStore)) sampleId
      = Some (Refused (permissionDenied (pe_capability sampleEntry) ''grant store closed''))"
    using closing_is_final[OF waitingStore_inv(1) waitingStore_entry, of "finalizer waitingStore"] by blast
  then show ?thesis by (simp add: sampleEntry_def)
qed

definition protoHeap :: js_heap where
  "protoHeap a = (if a = 0 then RecordObj True [(protoKey, True, Data (Ref 1))] else RecordObj True [])"

text \<open>
  Metadata with an own \<open>__proto__\<close> object is admitted as a record with a foreign prototype, and one such parked
  request makes listing the pending requests die.
\<close>

theorem proto_metadata_breaks_list:
  "metadataSnapshot noText protoHeap (Ref 0) = Inr (JObject [(protoKey, JObject [])])
   \<and> list_requests (waitingStore\<lparr>pending := [(sampleId, sampleEntry\<lparr>pe_meta := JObject [(protoKey, JObject [])]\<rparr>)]\<rparr>) = Inl Die"
proof -
  have "isWellFormed protoKey" by (simp add: protoKey_def js_lits isHigh_def isLow_def)
  then have "metadataSnapshot noText protoHeap (Ref 0) = Inr (JObject [(protoKey, JObject [])])"
    by (simp add: metadataSnapshot_def visit.simps protoHeap_def assignMember_def maximumMetadataDepth_def
        maximumMetadataMembers_def maximumMetadataBytes_def js_lits utf8_def utf8Point_def isSurrogatePoint_def)
  then show ?thesis by (simp add: list_requests_def)
qed

end
