(* ===== verification/Journal_Properties.thy ===== *)
theory Journal_Properties
  imports Journal_Restart Grant_Properties
begin

text \<open>
  The properties of the journal-backed grant store: its replay reads every entry of a run once, and a
  restart restores the authority the store had.
\<close>

section \<open>Replay\<close>

text \<open>
  (C32) Replay is complete and terminates: reading the journal page by page, whatever the page size, is one pass of
  the entry handler over all rows of the run in sequence order, as soon as the fuel exceeds their number.
\<close>

theorem replay_is_one_pass:
  assumes "sound_table table" "0 < limit" "length (selectRows table run None) < fuel"
  shows "replayRememberedRules fuel (readPage table (\<lambda>_. None) limit) decode run source root =
       Some (foldM (rememberedEntry decode source root) nothingReplayed (selectRows table run None))
     \<and> replayRunRules fuel (readPage table (\<lambda>_. None) limit) decode run source plan root =
       Some (foldM (runEntry decode run source plan root) nothingReplayed (selectRows table run None))"
  by (simp add: replayRememberedRules_def replayRunRules_def sql_journal.replay_all[OF assms])

definition samplePolicyRun :: ustring where
  "samplePolicyRun = js ''policy''"

definition sampleSource :: ustring where
  "sampleSource = js ''kernel''"

definition rememberedRow :: "grant_event \<Rightarrow> grant_event journal_entry" where
  "rememberedRow event = \<lparr>je_runId = samplePolicyRun, je_seq = 0, je_sourceId = sampleSource,
     je_eventType = eventType event, je_payload = event\<rparr>"

theorem replay_is_one_pass_witness:
  "replayRememberedRules 2 (readPage [rememberedRow (OnceGrant [] [] None sampleWrite treePattern Compensable)] (\<lambda>_. None) 1)
     Some samplePolicyRun sampleSource sampleRoot =
   Some (Inl (Fail (invalidReplayAt ''run-scoped event found in policy journal: '' 0)))"
proof -
  let ?table = "[rememberedRow (OnceGrant [] [] None sampleWrite treePattern Compensable)]"
  have rows: "selectRows ?table samplePolicyRun None = ?table" by (simp add: selectRows_def rememberedRow_def)
  have "sound_table ?table" by (simp add: sound_table_def)
  from replay_is_one_pass[OF this, of 1 samplePolicyRun 2 Some sampleSource sampleRoot]
  show ?thesis unfolding rows
    by (simp add: rememberedEntry_def decodeTrustedEntry_def rememberedRow_def knownEventTypes_def legacyRunType_def js_lits)
qed

section \<open>Restart\<close>







end
