(* ===== verification/Time_Travel_Store.thy ===== *)
theory Time_Travel_Store
  imports Json
begin

text \<open>
  The reference time-travel store (\<open>packages/smithers/flows/time-travel/src/MemoryTimeTravelStore.ts\<close>) with
  its frames (\<open>Frame.ts\<close>), failures (\<open>TimeTravelError.ts\<close>) and contract types (\<open>TimeTravelStore.ts\<close>).

  The mutable variables of the closure \<open>make\<close> builds are the fields of \<open>tt_store\<close>; \<open>failAt\<close> is the
  constructor option of that name.  A mutation is a function from the store to a result and a store: a body
  that throws half way returns the store it has reached, and \<open>atomic\<close> puts the saved variables back.
  Opaque caller payloads are JSON values, so \<open>structuredClone\<close> is the identity.
\<close>

section \<open>Vocabulary\<close>

record lineage_frame =
  fr_lineageId :: ustring
  fr_seq :: nat

datatype edge_kind = Child_edge | Fork_edge | Continuation_edge

record lineage_edge =
  le_parentRunId :: ustring
  le_parentSeq :: nat
  le_childRunId :: ustring
  le_kind :: edge_kind
  le_attached :: bool

datatype tt_code =
    Busy | Live_parent | Live_child | Not_found | Invalid_input | Already_crossed | Rate_limited
  | Compensation_failed | Irreversible_effect | Fence_lost | Limit_exceeded | Unknown_failure

datatype tt_error = TimeTravelError (tt_code: tt_code) (tt_message: ustring)

record owner_id =
  ow_hostId :: ustring
  ow_pid :: nat
  ow_nonce :: ustring

datatype run_status = Run_pending | Run_running | Run_suspended | Run_completed | Run_failed | Run_cancelled

definition isTerminalRunStatus :: "run_status \<Rightarrow> bool" where
  "isTerminalRunStatus status = (status = Run_completed \<or> status = Run_failed \<or> status = Run_cancelled)"

text \<open>A payload is seeded JSON, or the object \<open>createFork\<close> writes.\<close>

datatype record_payload = Seeded json | Fork_created (fc_parent: ustring) (fc_offset: nat) (fc_child: ustring)

record journal_record =
  jr_runId :: ustring
  jr_seq :: nat
  jr_eventId :: ustring
  jr_lineageId :: "ustring option"
  jr_payload :: record_payload
  jr_eventType :: "ustring option"

record tt_snapshot =
  sn_runId :: ustring
  sn_frame :: lineage_frame
  sn_changeId :: ustring
  sn_planDigest :: "ustring option"

datatype audit_status = In_progress | Audit_completed | Audit_failed

record tt_audit =
  au_id :: ustring
  au_runId :: ustring
  au_frame :: lineage_frame
  au_status :: audit_status
  au_rateLimit :: "json option"
  au_detail :: "json option"

record tt_receipt =
  rc_id :: ustring
  rc_auditId :: ustring
  rc_effectId :: ustring
  rc_receipt :: json

record fork_intent =
  fi_childRunId :: ustring
  fi_parentRunId :: ustring
  fi_parentSeq :: nat
  fi_reservedAtMs :: nat

record tt_store =
  records :: "journal_record list"
  archived :: "(journal_record \<times> nat) list"
  generations :: "(ustring \<times> nat) list"
  edges :: "lineage_edge list"
  audits :: "tt_audit list"
  receipts :: "tt_receipt list"
  snapshots :: "tt_snapshot list"
  liveRuns :: "ustring list"
  runOwners :: "(ustring \<times> owner_id) list"
  runStatuses :: "(ustring \<times> run_status) list"
  forkIntents :: "(fork_intent \<times> bool) list" \<comment> \<open>with \<open>reclaimed\<close>\<close>
  mintSequence :: nat
  failAt :: "ustring option"

record tt_options =
  to_records :: "journal_record list"
  to_edges :: "lineage_edge list"
  to_snapshots :: "tt_snapshot list"
  to_liveRuns :: "ustring list"
  to_runOwners :: "(ustring \<times> owner_id) list"
  to_runStatuses :: "(ustring \<times> run_status) list"
  to_failAt :: "ustring option"

definition make_time_travel :: "tt_options \<Rightarrow> tt_store" where
  "make_time_travel options =
     \<lparr>records = to_records options, archived = [], generations = [], edges = to_edges options, audits = [],
      receipts = [], snapshots = to_snapshots options, liveRuns = to_liveRuns options,
      runOwners = to_runOwners options, runStatuses = to_runStatuses options, forkIntents = [],
      mintSequence = 0, failAt = to_failAt options\<rparr>"

section \<open>Descendants\<close>

record descent =
  ds_attached :: "lineage_edge list"
  ds_detached :: "lineage_edge list"
  ds_attachedRunIds :: "ustring list"
  ds_detachedRunIds :: "ustring list"
  ds_queue :: "ustring list"

definition includeEdge :: "lineage_edge \<Rightarrow> descent \<Rightarrow> descent" where
  "includeEdge edge d =
     (if le_attached edge
      then if le_childRunId edge \<in> set (ds_attachedRunIds d) then d
           else d\<lparr>ds_attached := ds_attached d @ [edge],
                  ds_attachedRunIds := ds_attachedRunIds d @ [le_childRunId edge],
                  ds_queue := ds_queue d @ [le_childRunId edge]\<rparr>
      else if le_childRunId edge \<in> set (ds_detachedRunIds d) then d
           else d\<lparr>ds_detached := ds_detached d @ [edge],
                  ds_detachedRunIds := ds_detachedRunIds d @ [le_childRunId edge]\<rparr>)"

definition includeAll :: "(lineage_edge \<Rightarrow> bool) \<Rightarrow> lineage_edge list \<Rightarrow> descent \<Rightarrow> descent" where
  "includeAll P es d = fold includeEdge (filter P es) d"

lemma includeEdge_measure:
  assumes "le_childRunId e \<in> C" "finite C"
  shows "card (C - set (ds_attachedRunIds (includeEdge e d))) + length (ds_queue (includeEdge e d))
     \<le> card (C - set (ds_attachedRunIds d)) + length (ds_queue d)"
proof (cases "le_attached e \<and> le_childRunId e \<notin> set (ds_attachedRunIds d)")
  case True
  have "C - insert (le_childRunId e) (set (ds_attachedRunIds d)) = C - set (ds_attachedRunIds d) - {le_childRunId e}" by auto
  moreover have "card (C - set (ds_attachedRunIds d) - {le_childRunId e}) < card (C - set (ds_attachedRunIds d))"
    using assms True by (intro card_Diff1_less) auto
  ultimately show ?thesis using True by (simp add: includeEdge_def)
qed (auto simp: includeEdge_def)

lemma includeAll_measure:
  assumes "finite C" "le_childRunId ` set es \<subseteq> C"
  shows "card (C - set (ds_attachedRunIds (includeAll P es d))) + length (ds_queue (includeAll P es d))
     \<le> card (C - set (ds_attachedRunIds d)) + length (ds_queue d)"
  using assms(2) unfolding includeAll_def
proof (induction es arbitrary: d)
  case (Cons e es)
  then have "le_childRunId e \<in> C" "le_childRunId ` set es \<subseteq> C" by auto
  then show ?case using le_trans[OF Cons.IH[of "includeEdge e d"] includeEdge_measure[of e C d]] Cons.IH[of d] assms(1)
    by (cases "P e") simp_all
qed simp

function drain :: "lineage_edge list \<Rightarrow> descent \<Rightarrow> descent" where
  "drain es d =
     (case ds_queue d of
        [] \<Rightarrow> d
      | parent # rest \<Rightarrow> drain es (includeAll (\<lambda>e. le_parentRunId e = parent) es (d\<lparr>ds_queue := rest\<rparr>)))"
  by auto
termination
proof (relation "measure (\<lambda>(es, d). card (le_childRunId ` set es - set (ds_attachedRunIds d)) + length (ds_queue d))")
  fix es :: "lineage_edge list" and d :: descent and parent rest
  assume q: "ds_queue d = parent # rest"
  show "((es, includeAll (\<lambda>e. le_parentRunId e = parent) es (d\<lparr>ds_queue := rest\<rparr>)), es, d)
      \<in> measure (\<lambda>(es, d). card (le_childRunId ` set es - set (ds_attachedRunIds d)) + length (ds_queue d))"
    using includeAll_measure[of "le_childRunId ` set es" es "\<lambda>e. le_parentRunId e = parent" "d\<lparr>ds_queue := rest\<rparr>"] q
    by simp
qed simp

declare drain.simps [simp del]

definition noDescent :: descent where
  "noDescent = \<lparr>ds_attached = [], ds_detached = [], ds_attachedRunIds = [], ds_detachedRunIds = [], ds_queue = []\<rparr>"

definition descendantsFrom :: "lineage_edge list \<Rightarrow> ustring \<Rightarrow> lineage_frame \<Rightarrow> descent" where
  "descendantsFrom es runId frame =
     drain es (includeAll (\<lambda>e. le_parentRunId e = runId \<and> fr_seq frame < le_parentSeq e) es noDescent)"

section \<open>Reads\<close>

definition framed :: "tt_store \<Rightarrow> ustring \<Rightarrow> lineage_frame \<Rightarrow> ustring \<Rightarrow> journal_record list" where
  "framed s runId frame eventType =
     sort_key jr_seq (filter (\<lambda>r. jr_runId r = runId \<and> jr_seq r \<le> fr_seq frame \<and> jr_eventType r = Some eventType
       \<and> (jr_lineageId r = None \<or> jr_lineageId r = Some (fr_lineageId frame))) (records s))"

definition snapshotAt :: "tt_store \<Rightarrow> ustring \<Rightarrow> lineage_frame \<Rightarrow> tt_snapshot option" where
  "snapshotAt s runId frame =
     (case sort_key (\<lambda>n. - int (fr_seq (sn_frame n)))
         (filter (\<lambda>n. sn_runId n = runId \<and> fr_lineageId (sn_frame n) = fr_lineageId frame
            \<and> fr_seq (sn_frame n) \<le> fr_seq frame) (snapshots s)) of
        [] \<Rightarrow> None | n # _ \<Rightarrow> Some n)"

text \<open>\<open>payload.state\<close>, where an absent property is \<open>undefined\<close>.\<close>

fun payloadState :: "record_payload \<Rightarrow> json option" where
  "payloadState (Seeded (JObject kvs)) = map_of kvs (js ''state'')"
| "payloadState _ = None"

definition stateAt :: "(js_number \<Rightarrow> ustring) \<Rightarrow> tt_store \<Rightarrow> ustring \<Rightarrow> lineage_frame \<Rightarrow> ustring option" where
  "stateAt numText s runId frame =
     map_option (stringify numText)
       (fold (\<lambda>r state. case payloadState (jr_payload r) of Some v \<Rightarrow> Some v | None \<Rightarrow> state)
          (framed s runId frame (js ''flows.engine.run-decision'')) None)"

definition attemptKey :: "ustring \<times> nat \<Rightarrow> ustring" where
  "attemptKey ref = fst ref @ js '':'' @ decimal (snd ref)"

text \<open>\<open>refs\<close> is a \<open>Map\<close>; \<open>decodeAttempt\<close> is the schema decoder of attempt references.\<close>

fun collectAttempts ::
  "(record_payload \<Rightarrow> (ustring \<times> nat) option) \<Rightarrow> (ustring \<times> ustring \<times> nat) list \<Rightarrow> journal_record list
    \<Rightarrow> tt_error + (ustring \<times> ustring \<times> nat) list" where
  "collectAttempts decodeAttempt refs [] = Inr refs"
| "collectAttempts decodeAttempt refs (r # rs) =
     (case decodeAttempt (jr_payload r) of
        None \<Rightarrow> Inl (TimeTravelError Invalid_input (js ''attempt-started at seq '' @ decimal (jr_seq r) @ js '' is malformed''))
      | Some ref \<Rightarrow> collectAttempts decodeAttempt (jsmap_set refs (attemptKey ref) ref) rs)"

definition attemptsAt ::
  "(record_payload \<Rightarrow> (ustring \<times> nat) option) \<Rightarrow> tt_store \<Rightarrow> ustring \<Rightarrow> lineage_frame \<Rightarrow> tt_error + (ustring \<times> nat) list" where
  "attemptsAt decodeAttempt s runId frame =
     map_sum id (map snd) (collectAttempts decodeAttempt [] (framed s runId frame (js ''flows.engine.attempt-started'')))"

definition descendants :: "tt_store \<Rightarrow> ustring \<Rightarrow> lineage_frame \<Rightarrow> lineage_edge list \<times> lineage_edge list" where
  "descendants s runId frame = (let d = descendantsFrom (edges s) runId frame in (ds_attached d, ds_detached d))"

definition pendingAudits :: "tt_store \<Rightarrow> tt_audit list" where
  "pendingAudits s = filter (\<lambda>a. au_status a = In_progress) (audits s)"

definition archivedAt :: "tt_store \<Rightarrow> ustring \<Rightarrow> nat \<Rightarrow> bool" where
  "archivedAt s runId seq = list_ex (\<lambda>(r, _). jr_runId r = runId \<and> jr_seq r = seq) (archived s)"

section \<open>Atomic mutations\<close>

type_synonym 'a outcome = "(tt_error + 'a) \<times> tt_store"

definition fail :: "string \<Rightarrow> (tt_store \<Rightarrow> 'a outcome) \<Rightarrow> tt_store \<Rightarrow> 'a outcome" where
  "fail step body s =
     (if failAt s = Some (js step)
      then (Inl (TimeTravelError Unknown_failure (js (''injected failure at '' @ step))), s)
      else body s)"

text \<open>The assignments of the \<open>catch\<close> block.\<close>

definition restoreFrom :: "tt_store \<Rightarrow> tt_store \<Rightarrow> tt_store" where
  "restoreFrom before s =
     s\<lparr>records := records before, archived := archived before, edges := edges before, audits := audits before,
       receipts := receipts before, snapshots := snapshots before, liveRuns := liveRuns before,
       runOwners := runOwners before, mintSequence := mintSequence before, generations := generations before,
       forkIntents := forkIntents before\<rparr>"

definition atomic :: "(tt_store \<Rightarrow> 'a outcome) \<Rightarrow> tt_store \<Rightarrow> 'a outcome" where
  "atomic body s =
     (case body s of
        (Inl e, s') \<Rightarrow> (Inl e, restoreFrom s s')
      | (Inr a, s') \<Rightarrow> (Inr a, s'))"

definition recordSnapshotBody :: "tt_snapshot \<Rightarrow> tt_store \<Rightarrow> unit outcome" where
  "recordSnapshotBody recorded = fail ''recordSnapshot'' (\<lambda>s.
     (Inr (), s\<lparr>snapshots := filter (\<lambda>n. \<not> (sn_runId n = sn_runId recorded
         \<and> fr_lineageId (sn_frame n) = fr_lineageId (sn_frame recorded)
         \<and> fr_seq (sn_frame n) = fr_seq (sn_frame recorded))) (snapshots s) @ [recorded]\<rparr>))"

definition recordSnapshot :: "tt_snapshot \<Rightarrow> tt_store \<Rightarrow> unit outcome" where
  "recordSnapshot recorded = atomic (recordSnapshotBody recorded)"

definition writeAuditBody :: "tt_audit \<Rightarrow> tt_store \<Rightarrow> unit outcome" where
  "writeAuditBody audit = fail ''writeAudit'' (\<lambda>s. (Inr (), s\<lparr>audits := audits s @ [audit]\<rparr>))"

definition writeAudit :: "tt_audit \<Rightarrow> tt_store \<Rightarrow> unit outcome" where
  "writeAudit audit = atomic (writeAuditBody audit)"

definition recordReceiptBody :: "tt_receipt \<Rightarrow> tt_store \<Rightarrow> unit outcome" where
  "recordReceiptBody receipt = fail ''recordReceipt'' (\<lambda>s. (Inr (), s\<lparr>receipts := receipts s @ [receipt]\<rparr>))"

definition recordReceipt :: "tt_receipt \<Rightarrow> tt_store \<Rightarrow> unit outcome" where
  "recordReceipt receipt = atomic (recordReceiptBody receipt)"

text \<open>A patch is an untyped object; its keys are checked before its values.\<close>

definition auditPatchKeys :: "ustring list" where
  "auditPatchKeys = [js ''status'', js ''rateLimit'', js ''detail'']"

definition decodeStatus :: "json \<Rightarrow> audit_status option" where
  "decodeStatus j =
     (if j = JString (js ''in_progress'') then Some In_progress
      else if j = JString (js ''completed'') then Some Audit_completed
      else if j = JString (js ''failed'') then Some Audit_failed else None)"

definition validateAuditPatch :: "(js_number \<Rightarrow> ustring) \<Rightarrow> (ustring \<times> json) list \<Rightarrow> tt_error option" where
  "validateAuditPatch numText patch =
     (case find (\<lambda>key. key \<notin> set auditPatchKeys) (map fst patch) of
        Some key \<Rightarrow> Some (TimeTravelError Invalid_input (js ''audit patch contains unknown key '' @ key))
      | None \<Rightarrow>
          (case map_of patch (js ''status'') of
             None \<Rightarrow> None
           | Some j \<Rightarrow>
               if decodeStatus j = None
               then Some (TimeTravelError Invalid_input (js ''invalid audit patch: status '' @ stringify numText j @
                      js '' is not one of in_progress|completed|failed''))
               else None))"

definition applyPatch :: "(ustring \<times> json) list \<Rightarrow> tt_audit \<Rightarrow> tt_audit" where
  "applyPatch patch a =
     a\<lparr>au_status := (case map_of patch (js ''status'') of None \<Rightarrow> au_status a | Some j \<Rightarrow> the (decodeStatus j)),
       au_rateLimit := (case map_of patch (js ''rateLimit'') of None \<Rightarrow> au_rateLimit a | Some j \<Rightarrow> Some j),
       au_detail := (case map_of patch (js ''detail'') of None \<Rightarrow> au_detail a | Some j \<Rightarrow> Some j)\<rparr>"

definition updateAuditBody :: "ustring \<Rightarrow> (ustring \<times> json) list \<Rightarrow> tt_store \<Rightarrow> unit outcome" where
  "updateAuditBody auditId patch = fail ''updateAudit'' (\<lambda>s.
     case find_index (\<lambda>a. au_id a = auditId) (audits s) of
       None \<Rightarrow> (Inl (TimeTravelError Not_found (js ''audit '' @ auditId @ js '' was not found'')), s)
     | Some i \<Rightarrow> (Inr (), s\<lparr>audits := (audits s)[i := applyPatch patch (audits s ! i)]\<rparr>))"

definition updateAudit :: "(js_number \<Rightarrow> ustring) \<Rightarrow> ustring \<Rightarrow> (ustring \<times> json) list \<Rightarrow> tt_store \<Rightarrow> unit outcome" where
  "updateAudit numText auditId patch s =
     (case validateAuditPatch numText patch of
        Some e \<Rightarrow> (Inl e, s)
      | None \<Rightarrow> atomic (updateAuditBody auditId patch) s)"

section \<open>Truncation\<close>

definition doomedBy :: "ustring \<Rightarrow> lineage_frame \<Rightarrow> ustring list \<Rightarrow> ustring \<Rightarrow> nat \<Rightarrow> bool" where
  "doomedBy runId frame attachedRunIds r seq = (r = runId \<and> fr_seq frame < seq \<or> r \<in> set attachedRunIds)"

definition childFenced :: "(ustring \<times> owner_id) list option \<Rightarrow> tt_store \<Rightarrow> ustring \<Rightarrow> bool" where
  "childFenced childOwners s child =
     (case map_of (runStatuses s) child of
        None \<Rightarrow> True
      | Some status \<Rightarrow> isTerminalRunStatus status \<or>
          (case (case childOwners of None \<Rightarrow> None | Some m \<Rightarrow> map_of m child) of
             None \<Rightarrow> False
           | Some expected \<Rightarrow> map_of (runOwners s) child = Some expected))"

definition generationOf :: "(ustring \<times> nat) list \<Rightarrow> ustring \<Rightarrow> nat" where
  "generationOf gens runId = (case map_of gens runId of None \<Rightarrow> 0 | Some g \<Rightarrow> g)"

definition bumpGeneration :: "ustring \<Rightarrow> (ustring \<times> nat) list \<Rightarrow> (ustring \<times> nat) list" where
  "bumpGeneration runId gens = jsmap_set gens runId (generationOf gens runId + 1)"

definition ownerText :: "owner_id \<Rightarrow> ustring" where
  "ownerText owner = ow_hostId owner @ js '':'' @ decimal (ow_pid owner) @ js '':'' @ ow_nonce owner"

text \<open>The result is the number of archived records and the orphaned edges.\<close>

definition archiveBody ::
  "ustring \<Rightarrow> lineage_frame \<Rightarrow> tt_receipt list \<Rightarrow> owner_id \<Rightarrow> (ustring \<times> owner_id) list option
    \<Rightarrow> tt_store \<Rightarrow> (nat \<times> lineage_edge list) outcome" where
  "archiveBody runId frame newReceipts owner childOwners = fail ''archiveAndTruncate:start'' (\<lambda>s.
     if (case map_of (runOwners s) runId of None \<Rightarrow> False | Some recorded \<Rightarrow> recorded \<noteq> owner)
     then (Inl (TimeTravelError Fence_lost
            (js ''run '' @ runId @ js '' is no longer owned by '' @ ownerText owner)), s)
     else let d = descendantsFrom (edges s) runId frame; attachedIds = ds_attachedRunIds d in
       case find (\<lambda>child. \<not> childFenced childOwners s child) attachedIds of
         Some child \<Rightarrow> (Inl (TimeTravelError Fence_lost
            (js ''attached child '' @ child @ js '' is not owned by this rewind'')), s)
       | None \<Rightarrow>
         (let doomed = filter (\<lambda>r. doomedBy runId frame attachedIds (jr_runId r) (jr_seq r)) (records s) in
          fail ''archiveAndTruncate:before-archive'' (\<lambda>s.
            fail ''archiveAndTruncate:before-truncate'' (\<lambda>s.
              fail ''archiveAndTruncate:commit'' (\<lambda>s. (Inr (length doomed, ds_detached d), s))
                (s\<lparr>records := filter (\<lambda>r. \<not> doomedBy runId frame attachedIds (jr_runId r) (jr_seq r)) (records s),
                   snapshots := filter (\<lambda>n. \<not> doomedBy runId frame attachedIds (sn_runId n) (fr_seq (sn_frame n))) (snapshots s),
                   generations := fold bumpGeneration (runId # attachedIds) (generations s),
                   edges := filter (\<lambda>e. le_childRunId e \<notin> set (map le_childRunId (ds_attached d))) (edges s),
                   receipts := receipts s @ newReceipts\<rparr>))
              (s\<lparr>archived := archived s @ map (\<lambda>r. (r, generationOf (generations s) (jr_runId r))) doomed\<rparr>))
            s))"

definition archiveAndTruncate ::
  "ustring \<Rightarrow> lineage_frame \<Rightarrow> tt_receipt list \<Rightarrow> owner_id \<Rightarrow> (ustring \<times> owner_id) list option
    \<Rightarrow> tt_store \<Rightarrow> (nat \<times> lineage_edge list) outcome" where
  "archiveAndTruncate runId frame newReceipts owner childOwners s =
     (if fr_lineageId frame = [] then (Inl (TimeTravelError Invalid_input (js ''invalid archive frame'')), s)
      else atomic (archiveBody runId frame newReceipts owner childOwners) s)"

section \<open>Forks\<close>

definition forkId :: "ustring \<Rightarrow> nat \<Rightarrow> ustring" where
  "forkId parentRunId ordinal = parentRunId @ js '':fork:'' @ decimal ordinal"

definition nextForkIdBody :: "nat \<Rightarrow> ustring \<Rightarrow> lineage_frame \<Rightarrow> tt_store \<Rightarrow> ustring outcome" where
  "nextForkIdBody nowMs parentRunId frame = fail ''nextForkId'' (\<lambda>s.
     let childRunId = forkId parentRunId (mintSequence s + 1) in
     (Inr childRunId,
      s\<lparr>mintSequence := mintSequence s + 1,
        forkIntents := forkIntents s @ [(\<lparr>fi_childRunId = childRunId, fi_parentRunId = parentRunId,
          fi_parentSeq = fr_seq frame, fi_reservedAtMs = nowMs\<rparr>, False)]\<rparr>))"

definition nextForkId :: "nat \<Rightarrow> ustring \<Rightarrow> lineage_frame \<Rightarrow> tt_store \<Rightarrow> ustring outcome" where
  "nextForkId nowMs parentRunId frame = atomic (nextForkIdBody nowMs parentRunId frame)"

definition staleIntent :: "int \<Rightarrow> fork_intent \<times> bool \<Rightarrow> bool" where
  "staleIntent staleBeforeMs ir = (\<not> snd ir \<and> int (fi_reservedAtMs (fst ir)) < staleBeforeMs)"

definition abandonBody :: "int \<Rightarrow> tt_store \<Rightarrow> fork_intent list outcome" where
  "abandonBody staleBeforeMs = fail ''abandonForkIntents'' (\<lambda>s.
     (Inr (map fst (filter (staleIntent staleBeforeMs) (forkIntents s))),
      s\<lparr>forkIntents := map (\<lambda>ir. if staleIntent staleBeforeMs ir then (fst ir, True) else ir) (forkIntents s)\<rparr>))"

definition abandonForkIntents :: "int \<Rightarrow> tt_store \<Rightarrow> fork_intent list outcome" where
  "abandonForkIntents staleBeforeMs = atomic (abandonBody staleBeforeMs)"

text \<open>The breadth-first walk over all ancestors; the result is the first live one.\<close>

function liveAncestor :: "lineage_edge list \<Rightarrow> ustring list \<Rightarrow> ustring list \<Rightarrow> ustring list \<Rightarrow> ustring option" where
  "liveAncestor es live [] seen = None"
| "liveAncestor es live (current # queue) seen =
     (if current \<in> set seen then liveAncestor es live queue seen
      else if current \<in> set live then Some current
      else liveAncestor es live (queue @ map le_parentRunId (filter (\<lambda>e. le_childRunId e = current) es)) (current # seen))"
  by pat_completeness auto
termination
proof (relation "measures [\<lambda>(es, live, queue, seen). card ((set queue \<union> le_parentRunId ` set es) - set seen),
    \<lambda>(es, live, queue, seen). length queue]")
  fix es :: "lineage_edge list" and live queue seen :: "ustring list" and current :: ustring
  let ?m = "measures [\<lambda>(es :: lineage_edge list, live :: ustring list, queue, seen).
      card ((set queue \<union> le_parentRunId ` set es) - set seen), \<lambda>(es, live, queue, seen). length queue]"
  show "((es, live, queue, seen), es, live, current # queue, seen) \<in> ?m" if "current \<in> set seen"
  proof -
    have "(set (current # queue) \<union> le_parentRunId ` set es) - set seen = (set queue \<union> le_parentRunId ` set es) - set seen"
      using that by auto
    then show ?thesis by simp
  qed
  show "((es, live, queue @ map le_parentRunId (filter (\<lambda>e. le_childRunId e = current) es), current # seen),
      es, live, current # queue, seen) \<in> ?m" if "current \<notin> set seen"
  proof -
    let ?A = "(set (current # queue) \<union> le_parentRunId ` set es) - set seen"
    have "(set (queue @ map le_parentRunId (filter (\<lambda>e. le_childRunId e = current) es)) \<union> le_parentRunId ` set es)
        - set (current # seen) = ?A - {current}" by auto
    moreover have "card (?A - {current}) < card ?A" using that by (intro card_Diff1_less) auto
    ultimately show ?thesis by simp
  qed
qed simp

definition createForkBody ::
  "ustring \<Rightarrow> lineage_frame \<Rightarrow> ustring option \<Rightarrow> tt_store \<Rightarrow> (ustring \<times> lineage_edge \<times> ustring list) outcome" where
  "createForkBody parentRunId frame childRunId = fail ''createFork:start'' (\<lambda>s.
     case liveAncestor (edges s) (liveRuns s) [parentRunId] [] of
       Some run \<Rightarrow> (Inl (TimeTravelError Live_parent (js ''ancestor run '' @ run @ js '' is live'')), s)
     | None \<Rightarrow>
         if fr_seq frame > 0 \<and> \<not> list_ex (\<lambda>r. jr_runId r = parentRunId \<and> jr_seq r = fr_seq frame
              \<and> (jr_lineageId r = None \<or> jr_lineageId r = Some (fr_lineageId frame))) (records s)
         then (Inl (TimeTravelError Not_found (js ''frame '' @ fr_lineageId frame @ js ''@'' @ decimal (fr_seq frame) @
                 js '' is not a record of '' @ parentRunId)), s)
         else let runId = (case childRunId of Some c \<Rightarrow> c | None \<Rightarrow> forkId parentRunId (mintSequence s + 1));
                  s = (case childRunId of Some c \<Rightarrow> s | None \<Rightarrow> s\<lparr>mintSequence := mintSequence s + 1\<rparr>);
                  s = s\<lparr>forkIntents := filter (\<lambda>(i, _). fi_childRunId i \<noteq> runId) (forkIntents s)\<rparr>;
                  prefix = filter (\<lambda>r. jr_runId r = parentRunId \<and> jr_seq r \<le> fr_seq frame) (records s);
                  edge = \<lparr>le_parentRunId = parentRunId, le_parentSeq = fr_seq frame, le_childRunId = runId,
                          le_kind = Fork_edge, le_attached = False\<rparr>
              in fail ''createFork:copy'' (\<lambda>s.
                   fail ''createFork:commit'' (\<lambda>s. (Inr (runId, edge, []), s))
                     (s\<lparr>records := records s
                          @ map (\<lambda>r. r\<lparr>jr_runId := runId, jr_eventId := js ''fork:'' @ runId @ js '':'' @ decimal (jr_seq r)\<rparr>) prefix
                          @ [\<lparr>jr_runId = runId, jr_seq = fr_seq frame + 1, jr_eventId = js ''fork:'' @ runId @ js '':created'',
                              jr_lineageId = Some (fr_lineageId frame),
                              jr_payload = Fork_created parentRunId (fr_seq frame) runId,
                              jr_eventType = Some (js ''flows.time-travel.fork-created'')\<rparr>],
                        snapshots := snapshots s @ map (\<lambda>n. n\<lparr>sn_runId := runId\<rparr>)
                          (filter (\<lambda>n. sn_runId n = parentRunId \<and> fr_seq (sn_frame n) \<le> fr_seq frame) (snapshots s)),
                        edges := edges s @ [edge]\<rparr>))
                 s)"

definition createFork ::
  "ustring \<Rightarrow> lineage_frame \<Rightarrow> ustring option \<Rightarrow> tt_store \<Rightarrow> (ustring \<times> lineage_edge \<times> ustring list) outcome" where
  "createFork parentRunId frame childRunId = atomic (createForkBody parentRunId frame childRunId)"

end
