(* ===== verification/Time_Travel_Lemmas.thy ===== *)
theory Time_Travel_Lemmas
  imports Time_Travel_Store
begin

text \<open>
  Lemmas on the time-travel store: rollback of failed transactions, the descendant walk, the ancestor walk
  and the effect of each mutation.
\<close>

section \<open>Transactions\<close>

text \<open>What \<open>atomic\<close> relies on: a body never assigns the two variables that the rollback leaves alone.\<close>

locale transaction =
  fixes body :: "tt_store \<Rightarrow> 'a outcome"
  assumes keeps: "runStatuses (snd (body s)) = runStatuses s \<and> failAt (snd (body s)) = failAt s"
begin

lemma rollback: "atomic body s = (Inl e, s') \<Longrightarrow> s' = s"
  using keeps[of s] by (auto simp: atomic_def restoreFrom_def split: prod.splits sum.splits)

lemma commits: "atomic body s = (Inr a, s') \<longleftrightarrow> body s = (Inr a, s')"
  by (auto simp: atomic_def split: prod.splits sum.splits)

lemma settles: "case atomic body s of (Inl e, s') \<Rightarrow> s' = s | (Inr a, s') \<Rightarrow> body s = (Inr a, s')"
  using rollback[of s] commits[of s] by (cases "atomic body s"; cases "fst (atomic body s)") auto

lemma moves: "(\<And>a s'. body s = (Inr a, s') \<Longrightarrow> R s s') \<Longrightarrow> R s s \<Longrightarrow> R s (snd (atomic body s))"
  using settles[of s] by (cases "atomic body s"; cases "fst (atomic body s)") auto

lemma constants: "runStatuses (snd (atomic body s)) = runStatuses s \<and> failAt (snd (atomic body s)) = failAt s"
  using settles[of s] keeps[of s] by (auto split: prod.splits sum.splits)

end

lemma fail_Inr: "fail step body s = (Inr a, s') \<longleftrightarrow> failAt s \<noteq> Some (js step) \<and> body s = (Inr a, s')"
  by (simp add: fail_def)

lemma fail_keeps:
  "P s \<Longrightarrow> P (snd (body s)) \<Longrightarrow> P (snd (fail step body s))"
  by (simp add: fail_def)

interpretation snapshot_tx: transaction "recordSnapshotBody recorded"
  by unfold_locales (simp add: recordSnapshotBody_def fail_def)

interpretation audit_tx: transaction "writeAuditBody audit"
  by unfold_locales (simp add: writeAuditBody_def fail_def)

interpretation receipt_tx: transaction "recordReceiptBody receipt"
  by unfold_locales (simp add: recordReceiptBody_def fail_def)

interpretation patch_tx: transaction "updateAuditBody auditId patch"
  by unfold_locales (simp add: updateAuditBody_def fail_def split: option.split)

interpretation mint_tx: transaction "nextForkIdBody nowMs parentRunId frame"
  by unfold_locales (simp add: nextForkIdBody_def fail_def Let_def)

interpretation abandon_tx: transaction "abandonBody staleBeforeMs"
  by unfold_locales (simp add: abandonBody_def fail_def)

interpretation archive_tx: transaction "archiveBody runId frame newReceipts owner childOwners"
  by unfold_locales (simp add: archiveBody_def fail_def Let_def split: option.split)

interpretation fork_tx: transaction "createForkBody parentRunId frame childRunId"
  by unfold_locales (simp add: createForkBody_def fail_def Let_def split: option.split)

section \<open>The descendant walk\<close>

inductive depends :: "lineage_edge list \<Rightarrow> ustring \<Rightarrow> nat \<Rightarrow> ustring \<Rightarrow> bool" for es runId seq where
  direct: "e \<in> set es \<Longrightarrow> le_attached e \<Longrightarrow> le_parentRunId e = runId \<Longrightarrow> seq < le_parentSeq e
    \<Longrightarrow> depends es runId seq (le_childRunId e)"
| nested: "depends es runId seq (le_parentRunId e) \<Longrightarrow> e \<in> set es \<Longrightarrow> le_attached e
    \<Longrightarrow> depends es runId seq (le_childRunId e)"

text \<open>The edges a rewind of \<open>runId\<close> to \<open>seq\<close> cuts.\<close>

definition cutEdge :: "lineage_edge list \<Rightarrow> ustring \<Rightarrow> nat \<Rightarrow> lineage_edge \<Rightarrow> bool" where
  "cutEdge es runId seq e = (e \<in> set es \<and>
     (le_parentRunId e = runId \<and> seq < le_parentSeq e \<or> depends es runId seq (le_parentRunId e)))"

definition descent_ok :: "(lineage_edge \<Rightarrow> bool) \<Rightarrow> descent \<Rightarrow> bool" where
  "descent_ok P d = (ds_attachedRunIds d = map le_childRunId (ds_attached d) \<and> distinct (ds_attachedRunIds d)
     \<and> ds_detachedRunIds d = map le_childRunId (ds_detached d) \<and> distinct (ds_detachedRunIds d)
     \<and> (\<forall>e \<in> set (ds_attached d). le_attached e \<and> P e) \<and> (\<forall>e \<in> set (ds_detached d). \<not> le_attached e \<and> P e))"

lemma descent_ok_queue [simp]: "descent_ok P (d\<lparr>ds_queue := q\<rparr>) = descent_ok P d"
  by (simp add: descent_ok_def)

lemma includeEdge_ok: "descent_ok P d \<Longrightarrow> P e \<Longrightarrow> descent_ok P (includeEdge e d)"
  by (auto simp: descent_ok_def includeEdge_def)

lemma includeAll_ok:
  assumes "descent_ok P d" "\<forall>e \<in> set es. Q e \<longrightarrow> P e"
  shows "descent_ok P (includeAll Q es d)"
  using assms unfolding includeAll_def by (induction es arbitrary: d) (auto intro: includeEdge_ok)

lemma includeEdge_sets:
  "set (ds_attachedRunIds (includeEdge e d)) = set (ds_attachedRunIds d) \<union> (if le_attached e then {le_childRunId e} else {})"
  "set (ds_detachedRunIds (includeEdge e d)) = set (ds_detachedRunIds d) \<union> (if le_attached e then {} else {le_childRunId e})"
  "set (ds_queue (includeEdge e d)) = set (ds_queue d) \<union> (set (ds_attachedRunIds (includeEdge e d)) - set (ds_attachedRunIds d))"
  by (auto simp: includeEdge_def)

lemma includeAll_sets:
  "set (ds_attachedRunIds (includeAll Q es d)) = set (ds_attachedRunIds d) \<union> le_childRunId ` {e \<in> set es. Q e \<and> le_attached e}"
  "set (ds_detachedRunIds (includeAll Q es d)) = set (ds_detachedRunIds d) \<union> le_childRunId ` {e \<in> set es. Q e \<and> \<not> le_attached e}"
  "set (ds_queue (includeAll Q es d)) = set (ds_queue d) \<union> (set (ds_attachedRunIds (includeAll Q es d)) - set (ds_attachedRunIds d))"
proof -
  have "set (ds_attachedRunIds (includeAll Q es d)) = set (ds_attachedRunIds d) \<union> le_childRunId ` {e \<in> set es. Q e \<and> le_attached e}
    \<and> set (ds_detachedRunIds (includeAll Q es d)) = set (ds_detachedRunIds d) \<union> le_childRunId ` {e \<in> set es. Q e \<and> \<not> le_attached e}
    \<and> set (ds_queue (includeAll Q es d)) = set (ds_queue d) \<union> (set (ds_attachedRunIds (includeAll Q es d)) - set (ds_attachedRunIds d))"
    unfolding includeAll_def
  proof (induction es arbitrary: d)
    case (Cons e es)
    show ?case
    proof (cases "Q e")
      case True
      with Cons[of "includeEdge e d"] show ?thesis by (auto simp: includeEdge_sets)
    next
      case False
      with Cons[of d] show ?thesis by auto
    qed
  qed simp
  then show "set (ds_attachedRunIds (includeAll Q es d)) = set (ds_attachedRunIds d) \<union> le_childRunId ` {e \<in> set es. Q e \<and> le_attached e}"
    "set (ds_detachedRunIds (includeAll Q es d)) = set (ds_detachedRunIds d) \<union> le_childRunId ` {e \<in> set es. Q e \<and> \<not> le_attached e}"
    "set (ds_queue (includeAll Q es d)) = set (ds_queue d) \<union> (set (ds_attachedRunIds (includeAll Q es d)) - set (ds_attachedRunIds d))"
    by blast+
qed

text \<open>The worklist invariant: outside the queue everything is closed under the edges.\<close>

definition swept :: "lineage_edge list \<Rightarrow> descent \<Rightarrow> bool" where
  "swept es d = (set (ds_queue d) \<subseteq> set (ds_attachedRunIds d) \<and>
     (\<forall>e \<in> set es. le_parentRunId e \<in> set (ds_attachedRunIds d) - set (ds_queue d) \<longrightarrow>
        le_childRunId e \<in> (if le_attached e then set (ds_attachedRunIds d) else set (ds_detachedRunIds d))))"

lemma drain_spec:
  assumes "descent_ok P d" "swept es d"
    and step: "\<And>e f. P e \<Longrightarrow> le_attached e \<Longrightarrow> f \<in> set es \<Longrightarrow> le_parentRunId f = le_childRunId e \<Longrightarrow> P f"
  shows "descent_ok P (drain es d) \<and> swept es (drain es d) \<and> ds_queue (drain es d) = []
     \<and> set (ds_attachedRunIds d) \<subseteq> set (ds_attachedRunIds (drain es d))
     \<and> set (ds_detachedRunIds d) \<subseteq> set (ds_detachedRunIds (drain es d))"
  using assms
proof (induction es d rule: drain.induct)
  case (1 es d)
  show ?case
  proof (cases "ds_queue d")
    case Nil
    then show ?thesis using 1(2,3) by (simp add: drain.simps[of es d])
  next
    case (Cons p rest)
    let ?d = "includeAll (\<lambda>e. le_parentRunId e = p) es (d\<lparr>ds_queue := rest\<rparr>)"
    have p: "p \<in> set (ds_attachedRunIds d)" using 1(3) Cons by (auto simp: swept_def)
    then obtain e where e: "e \<in> set (ds_attached d)" "p = le_childRunId e"
      using 1(2) by (auto simp: descent_ok_def)
    have "P e \<and> le_attached e" using e 1(2) by (auto simp: descent_ok_def)
    then have "\<forall>f \<in> set es. le_parentRunId f = p \<longrightarrow> P f" using 1(4) e(2) by blast
    then have "descent_ok P ?d" using 1(2) by (intro includeAll_ok) simp_all
    moreover have "swept es ?d"
      using 1(3) Cons unfolding swept_def includeAll_sets by (auto split: if_splits)
    ultimately show ?thesis
      using 1(1)[OF Cons _ _ 1(4)] includeAll_sets(1,2)[of "\<lambda>e. le_parentRunId e = p" es "d\<lparr>ds_queue := rest\<rparr>"] Cons
      by (auto simp: drain.simps[of es d])
  qed
qed

lemma descendantsFrom_spec:
  assumes "d = descendantsFrom es runId frame"
  shows "descent_ok (cutEdge es runId (fr_seq frame)) d"
    and "set (ds_attachedRunIds d) = {c. depends es runId (fr_seq frame) c}"
    and "set (ds_detachedRunIds d) = le_childRunId ` {e. cutEdge es runId (fr_seq frame) e \<and> \<not> le_attached e}"
proof -
  let ?Q = "\<lambda>e. le_parentRunId e = runId \<and> fr_seq frame < le_parentSeq e"
  let ?P = "cutEdge es runId (fr_seq frame)"
  let ?d0 = "includeAll ?Q es noDescent"
  have ok0: "descent_ok ?P ?d0" by (intro includeAll_ok) (auto simp: descent_ok_def noDescent_def cutEdge_def)
  have ids0: "set (ds_attachedRunIds ?d0) = le_childRunId ` {e \<in> set es. ?Q e \<and> le_attached e}"
    "set (ds_detachedRunIds ?d0) = le_childRunId ` {e \<in> set es. ?Q e \<and> \<not> le_attached e}"
    "set (ds_queue ?d0) = set (ds_attachedRunIds ?d0)"
    unfolding includeAll_sets by (simp_all add: noDescent_def)
  have sw0: "swept es ?d0" unfolding swept_def ids0(3) by simp
  have dep: "depends es runId (fr_seq frame) (le_childRunId e)" if "?P e" "le_attached e" for e
    using that by (auto simp: cutEdge_def intro: depends.intros)
  have "descent_ok ?P d \<and> swept es d \<and> ds_queue d = []
      \<and> set (ds_attachedRunIds ?d0) \<subseteq> set (ds_attachedRunIds d) \<and> set (ds_detachedRunIds ?d0) \<subseteq> set (ds_detachedRunIds d)"
    unfolding assms descendantsFrom_def
    by (rule drain_spec[OF ok0 sw0]) (use dep in \<open>auto simp: cutEdge_def\<close>)
  then have ok: "descent_ok ?P d" and sw: "swept es d" and q: "ds_queue d = []"
    and sub: "set (ds_attachedRunIds ?d0) \<subseteq> set (ds_attachedRunIds d)" "set (ds_detachedRunIds ?d0) \<subseteq> set (ds_detachedRunIds d)"
    by auto
  have complete: "c \<in> set (ds_attachedRunIds d)" if "depends es runId (fr_seq frame) c" for c
    using that
  proof (induction rule: depends.induct)
    case (direct e)
    then show ?case using sub(1) ids0(1) by auto
  next
    case (nested e)
    then show ?case using sw q by (auto simp: swept_def split: if_splits)
  qed
  show "descent_ok ?P d" by (rule ok)
  show att: "set (ds_attachedRunIds d) = {c. depends es runId (fr_seq frame) c}"
    using ok complete dep by (auto simp: descent_ok_def)
  show "set (ds_detachedRunIds d) = le_childRunId ` {e. ?P e \<and> \<not> le_attached e}"
  proof
    show "set (ds_detachedRunIds d) \<subseteq> le_childRunId ` {e. ?P e \<and> \<not> le_attached e}"
      using ok by (auto simp: descent_ok_def)
    show "le_childRunId ` {e. ?P e \<and> \<not> le_attached e} \<subseteq> set (ds_detachedRunIds d)"
      using sub(2) ids0(2) sw q att by (auto simp: cutEdge_def swept_def split: if_splits)
  qed
qed

section \<open>The ancestor walk\<close>

inductive ancestor :: "lineage_edge list \<Rightarrow> ustring \<Rightarrow> ustring \<Rightarrow> bool" for es run where
  self: "ancestor es run run"
| parent: "ancestor es run c \<Longrightarrow> e \<in> set es \<Longrightarrow> le_childRunId e = c \<Longrightarrow> ancestor es run (le_parentRunId e)"

lemma liveAncestor_None:
  assumes "liveAncestor es live queue seen = None"
    and "\<forall>x \<in> set seen. x \<notin> set live \<and> (\<forall>e \<in> set es. le_childRunId e = x \<longrightarrow> le_parentRunId e \<in> set seen \<union> set queue)"
  shows "\<exists>S. set seen \<union> set queue \<subseteq> S \<and> S \<inter> set live = {} \<and> (\<forall>e \<in> set es. le_childRunId e \<in> S \<longrightarrow> le_parentRunId e \<in> S)"
  using assms
proof (induction es live queue seen rule: liveAncestor.induct)
  case (1 es live seen)
  then show ?case by (intro exI[of _ "set seen"]) auto
next
  case (2 es live current queue seen)
  show ?case
  proof (cases "current \<in> set seen")
    case True
    have "\<exists>S. set seen \<union> set queue \<subseteq> S \<and> S \<inter> set live = {} \<and> (\<forall>e \<in> set es. le_childRunId e \<in> S \<longrightarrow> le_parentRunId e \<in> S)"
    proof (rule 2(1)[OF True])
      show "liveAncestor es live queue seen = None" using 2(3) True by simp
      show "\<forall>x \<in> set seen. x \<notin> set live \<and> (\<forall>e \<in> set es. le_childRunId e = x \<longrightarrow> le_parentRunId e \<in> set seen \<union> set queue)"
        using 2(4) True by auto
    qed
    moreover have "set seen \<union> set (current # queue) = set seen \<union> set queue" using True by auto
    ultimately show ?thesis by simp
  next
    case False
    with 2(3) have nl: "current \<notin> set live" by (auto split: if_splits)
    let ?queue = "queue @ map le_parentRunId (filter (\<lambda>e. le_childRunId e = current) es)"
    have "liveAncestor es live ?queue (current # seen) = None" using 2(3) False nl by simp
    moreover have "\<forall>x \<in> set (current # seen). x \<notin> set live \<and>
        (\<forall>e \<in> set es. le_childRunId e = x \<longrightarrow> le_parentRunId e \<in> set (current # seen) \<union> set ?queue)"
      using 2(4) nl by auto
    ultimately obtain S where S: "set (current # seen) \<union> set ?queue \<subseteq> S" "S \<inter> set live = {}"
      "\<forall>e \<in> set es. le_childRunId e \<in> S \<longrightarrow> le_parentRunId e \<in> S"
      using 2(2)[OF False nl] by blast
    have "set seen \<union> set (current # queue) \<subseteq> S" using S(1) by simp
    then show ?thesis using S(2,3) by blast
  qed
qed

lemma liveAncestor_Some:
  assumes "liveAncestor es live queue seen = Some r" "\<forall>x \<in> set queue. ancestor es run x"
  shows "r \<in> set live \<and> ancestor es run r"
  using assms
proof (induction es live queue seen rule: liveAncestor.induct)
  case (2 es live current queue seen)
  show ?case
  proof (cases "current \<in> set seen \<or> current \<in> set live")
    case True
    then show ?thesis using 2 by (auto split: if_splits)
  next
    case False
    have "\<forall>x \<in> set (queue @ map le_parentRunId (filter (\<lambda>e. le_childRunId e = current) es)). ancestor es run x"
      using 2(4) by (auto intro: ancestor.parent)
    then show ?thesis using 2(2) 2(3) False by simp
  qed
qed simp

lemma liveAncestor_iff:
  "liveAncestor es live [run] [] = None \<longleftrightarrow> (\<forall>a. ancestor es run a \<longrightarrow> a \<notin> set live)"
proof
  assume "liveAncestor es live [run] [] = None"
  then obtain S where S: "run \<in> S" "S \<inter> set live = {}" "\<forall>e \<in> set es. le_childRunId e \<in> S \<longrightarrow> le_parentRunId e \<in> S"
    using liveAncestor_None[of es live "[run]" "[]"] by auto
  have "a \<in> S" if "ancestor es run a" for a using that by induction (use S in auto)
  then show "\<forall>a. ancestor es run a \<longrightarrow> a \<notin> set live" using S(2) by blast
next
  assume "\<forall>a. ancestor es run a \<longrightarrow> a \<notin> set live"
  then have "liveAncestor es live [run] [] \<noteq> Some r" for r
    using liveAncestor_Some[of es live "[run]" "[]" r run] ancestor.self[of es run] by (metis empty_iff empty_set set_ConsD)
  then show "liveAncestor es live [run] [] = None" by (cases "liveAncestor es live [run] []") simp_all
qed

section \<open>Truncation\<close>

definition cutBy :: "tt_store \<Rightarrow> ustring \<Rightarrow> lineage_frame \<Rightarrow> journal_record \<Rightarrow> bool" where
  "cutBy s runId frame r =
     (jr_runId r = runId \<and> fr_seq frame < jr_seq r \<or> depends (edges s) runId (fr_seq frame) (jr_runId r))"

lemma doomedBy_iff:
  "doomedBy runId frame (ds_attachedRunIds (descendantsFrom es runId frame)) r seq \<longleftrightarrow>
     r = runId \<and> fr_seq frame < seq \<or> depends es runId (fr_seq frame) r"
  using descendantsFrom_spec(2)[OF refl, of es runId frame] by (auto simp: doomedBy_def)

lemma archive_cases:
  assumes "archiveAndTruncate runId frame newReceipts owner childOwners s = (Inr (n, orphaned), s')"
  shows "map_of (runOwners s) runId = None \<or> map_of (runOwners s) runId = Some owner"
    and "\<And>child. depends (edges s) runId (fr_seq frame) child \<Longrightarrow> childFenced childOwners s child"
    and "records s' = filter (\<lambda>r. \<not> cutBy s runId frame r) (records s)"
    and "archived s' = archived s @ map (\<lambda>r. (r, generationOf (generations s) (jr_runId r))) (filter (cutBy s runId frame) (records s))"
    and "n = length (filter (cutBy s runId frame) (records s))"
    and "edges s' = filter (\<lambda>e. \<not> depends (edges s) runId (fr_seq frame) (le_childRunId e)) (edges s)"
    and "snapshots s' = filter (\<lambda>x. \<not> (sn_runId x = runId \<and> fr_seq frame < fr_seq (sn_frame x)
        \<or> depends (edges s) runId (fr_seq frame) (sn_runId x))) (snapshots s)"
    and "receipts s' = receipts s @ newReceipts" "forkIntents s' = forkIntents s" "mintSequence s' = mintSequence s"
    and "orphaned = snd (descendants s runId frame)"
proof -
  let ?d = "descendantsFrom (edges s) runId frame"
  have body: "archiveBody runId frame newReceipts owner childOwners s = (Inr (n, orphaned), s')"
    using assms archive_tx.commits by (auto simp: archiveAndTruncate_def split: if_splits)
  note spec = descendantsFrom_spec[OF refl, of "edges s" runId frame]
  have ids: "c \<in> set (ds_attachedRunIds ?d) \<longleftrightarrow> depends (edges s) runId (fr_seq frame) c" for c using spec(2) by auto
  have "set (map le_childRunId (ds_attached ?d)) = set (ds_attachedRunIds ?d)" using spec(1) by (simp add: descent_ok_def)
  then have kids: "c \<in> le_childRunId ` set (ds_attached ?d) \<longleftrightarrow> depends (edges s) runId (fr_seq frame) c" for c using ids by simp
  have own: "\<not> (case map_of (runOwners s) runId of None \<Rightarrow> False | Some recorded \<Rightarrow> recorded \<noteq> owner)"
    using body by (auto simp: archiveBody_def fail_def split: if_splits)
  then show "map_of (runOwners s) runId = None \<or> map_of (runOwners s) runId = Some owner" by (auto split: option.splits)
  have find: "find (\<lambda>child. \<not> childFenced childOwners s child) (ds_attachedRunIds ?d) = None"
    using body own by (auto simp: archiveBody_def fail_def Let_def split: if_splits option.splits)
  then show "\<And>child. depends (edges s) runId (fr_seq frame) child \<Longrightarrow> childFenced childOwners s child"
    using ids by (auto simp: find_None_iff)
  have r: "n = length (filter (cutBy s runId frame) (records s)) \<and> orphaned = ds_detached ?d \<and>
    s' = s\<lparr>archived := archived s @ map (\<lambda>r. (r, generationOf (generations s) (jr_runId r))) (filter (cutBy s runId frame) (records s)),
      records := filter (\<lambda>r. \<not> cutBy s runId frame r) (records s),
      snapshots := filter (\<lambda>x. \<not> (sn_runId x = runId \<and> fr_seq frame < fr_seq (sn_frame x)
        \<or> depends (edges s) runId (fr_seq frame) (sn_runId x))) (snapshots s),
      generations := fold bumpGeneration (runId # ds_attachedRunIds ?d) (generations s),
      edges := filter (\<lambda>e. \<not> depends (edges s) runId (fr_seq frame) (le_childRunId e)) (edges s),
      receipts := receipts s @ newReceipts\<rparr>"
    using body own find
    by (auto simp: archiveBody_def fail_def Let_def doomedBy_iff cutBy_def[abs_def] kids split: if_splits)
  from r show "records s' = filter (\<lambda>r. \<not> cutBy s runId frame r) (records s)"
    "archived s' = archived s @ map (\<lambda>r. (r, generationOf (generations s) (jr_runId r))) (filter (cutBy s runId frame) (records s))"
    "n = length (filter (cutBy s runId frame) (records s))"
    "edges s' = filter (\<lambda>e. \<not> depends (edges s) runId (fr_seq frame) (le_childRunId e)) (edges s)"
    "snapshots s' = filter (\<lambda>x. \<not> (sn_runId x = runId \<and> fr_seq frame < fr_seq (sn_frame x)
        \<or> depends (edges s) runId (fr_seq frame) (sn_runId x))) (snapshots s)"
    "receipts s' = receipts s @ newReceipts" "forkIntents s' = forkIntents s" "mintSequence s' = mintSequence s"
    "orphaned = snd (descendants s runId frame)"
    by (simp_all add: descendants_def Let_def)
qed

text \<open>After a truncation nothing attached hangs off the frame.\<close>

lemma depends_filtered:
  assumes "depends (filter (\<lambda>e. \<not> depends es runId seq (le_childRunId e)) es) runId seq c"
  shows False
  using assms by induction (auto intro: depends.intros)

lemma archive_no_dependents:
  assumes "archiveAndTruncate runId frame newReceipts owner childOwners s = (Inr r, s')"
  shows "fst (descendants s' runId frame) = []"
proof -
  obtain n orphaned where "archiveAndTruncate runId frame newReceipts owner childOwners s = (Inr (n, orphaned), s')"
    using assms by (cases r) auto
  from archive_cases(6)[OF this] have "set (ds_attachedRunIds (descendantsFrom (edges s') runId frame)) = {}"
    using descendantsFrom_spec(2)[OF refl, of "edges s'" runId frame] depends_filtered by auto
  then show ?thesis
    using descendantsFrom_spec(1)[OF refl, of "edges s'" runId frame] by (simp add: descendants_def Let_def descent_ok_def)
qed

section \<open>Forks\<close>

definition forkCopy :: "ustring \<Rightarrow> journal_record \<Rightarrow> journal_record" where
  "forkCopy runId r = r\<lparr>jr_runId := runId, jr_eventId := js ''fork:'' @ runId @ js '':'' @ decimal (jr_seq r)\<rparr>"

definition forkMarker :: "ustring \<Rightarrow> lineage_frame \<Rightarrow> ustring \<Rightarrow> journal_record" where
  "forkMarker parentRunId frame runId = \<lparr>jr_runId = runId, jr_seq = fr_seq frame + 1,
     jr_eventId = js ''fork:'' @ runId @ js '':created'', jr_lineageId = Some (fr_lineageId frame),
     jr_payload = Fork_created parentRunId (fr_seq frame) runId,
     jr_eventType = Some (js ''flows.time-travel.fork-created'')\<rparr>"

definition prefixOf :: "tt_store \<Rightarrow> ustring \<Rightarrow> lineage_frame \<Rightarrow> journal_record list" where
  "prefixOf s runId frame = filter (\<lambda>r. jr_runId r = runId \<and> jr_seq r \<le> fr_seq frame) (records s)"

lemma fork_cases:
  assumes "createFork parentRunId frame childRunId s = (Inr (runId, edge, warnings), s')"
  shows "\<And>a. ancestor (edges s) parentRunId a \<Longrightarrow> a \<notin> set (liveRuns s)"
    and "0 < fr_seq frame \<Longrightarrow> \<exists>r \<in> set (records s). jr_runId r = parentRunId \<and> jr_seq r = fr_seq frame
           \<and> (jr_lineageId r = None \<or> jr_lineageId r = Some (fr_lineageId frame))"
    and "runId = (case childRunId of Some c \<Rightarrow> c | None \<Rightarrow> forkId parentRunId (mintSequence s + 1))"
    and "edge = \<lparr>le_parentRunId = parentRunId, le_parentSeq = fr_seq frame, le_childRunId = runId,
           le_kind = Fork_edge, le_attached = False\<rparr>"
    and "records s' = records s @ map (forkCopy runId) (prefixOf s parentRunId frame) @ [forkMarker parentRunId frame runId]"
    and "edges s' = edges s @ [edge]" "archived s' = archived s"
    and "snapshots s' = snapshots s @ map (\<lambda>n. n\<lparr>sn_runId := runId\<rparr>)
           (filter (\<lambda>n. sn_runId n = parentRunId \<and> fr_seq (sn_frame n) \<le> fr_seq frame) (snapshots s))"
    and "forkIntents s' = filter (\<lambda>(i, _). fi_childRunId i \<noteq> runId) (forkIntents s)"
    and "mintSequence s' = (case childRunId of Some c \<Rightarrow> mintSequence s | None \<Rightarrow> mintSequence s + 1)"
proof -
  have body: "createForkBody parentRunId frame childRunId s = (Inr (runId, edge, warnings), s')"
    using assms fork_tx.commits by (auto simp: createFork_def)
  have live: "liveAncestor (edges s) (liveRuns s) [parentRunId] [] = None"
    using body by (auto simp: createForkBody_def fail_def split: if_splits option.splits)
  then show "\<And>a. ancestor (edges s) parentRunId a \<Longrightarrow> a \<notin> set (liveRuns s)" using liveAncestor_iff by blast
  let ?addressed = "list_ex (\<lambda>r. jr_runId r = parentRunId \<and> jr_seq r = fr_seq frame
              \<and> (jr_lineageId r = None \<or> jr_lineageId r = Some (fr_lineageId frame))) (records s)"
  have ad: "\<not> (fr_seq frame > 0 \<and> \<not> ?addressed)"
    using body live by (auto simp: createForkBody_def fail_def simp del: list_ex_iff split: if_splits)
  then show "0 < fr_seq frame \<Longrightarrow> \<exists>r \<in> set (records s). jr_runId r = parentRunId \<and> jr_seq r = fr_seq frame
           \<and> (jr_lineageId r = None \<or> jr_lineageId r = Some (fr_lineageId frame))"
    by (auto simp: list_ex_iff)
  note b = body[unfolded createForkBody_def fail_def if_not_P[OF ad] live option.case]
  let ?run = "case childRunId of Some c \<Rightarrow> c | None \<Rightarrow> forkId parentRunId (mintSequence s + 1)"
  let ?edge = "\<lparr>le_parentRunId = parentRunId, le_parentSeq = fr_seq frame, le_childRunId = ?run,
           le_kind = Fork_edge, le_attached = False\<rparr>"
  let ?snaps = "snapshots s @ map (\<lambda>n. n\<lparr>sn_runId := ?run\<rparr>)
           (filter (\<lambda>n. sn_runId n = parentRunId \<and> fr_seq (sn_frame n) \<le> fr_seq frame) (snapshots s))"
  have eq: "runId = ?run \<and> edge = ?edge \<and> records s' = records s @ map (forkCopy ?run) (prefixOf s parentRunId frame)
        @ [forkMarker parentRunId frame ?run]
      \<and> edges s' = edges s @ [?edge] \<and> archived s' = archived s \<and> snapshots s' = ?snaps
      \<and> forkIntents s' = filter (\<lambda>(i, _). fi_childRunId i \<noteq> ?run) (forkIntents s)
      \<and> mintSequence s' = (case childRunId of Some c \<Rightarrow> mintSequence s | None \<Rightarrow> mintSequence s + 1)"
  proof (cases childRunId)
    case None
    show ?thesis unfolding None using b[unfolded None]
      by (clarsimp simp: Let_def forkCopy_def[abs_def] forkMarker_def prefixOf_def split: if_splits)
  next
    case (Some c)
    show ?thesis unfolding Some using b[unfolded Some]
      by (clarsimp simp: Let_def forkCopy_def[abs_def] forkMarker_def prefixOf_def split: if_splits)
  qed
  then have run: "?run = runId" by simp
  show "runId = ?run" using run by simp
  show "edge = \<lparr>le_parentRunId = parentRunId, le_parentSeq = fr_seq frame, le_childRunId = runId,
           le_kind = Fork_edge, le_attached = False\<rparr>"
    and "records s' = records s @ map (forkCopy runId) (prefixOf s parentRunId frame) @ [forkMarker parentRunId frame runId]"
    and "archived s' = archived s"
    and "snapshots s' = snapshots s @ map (\<lambda>n. n\<lparr>sn_runId := runId\<rparr>)
           (filter (\<lambda>n. sn_runId n = parentRunId \<and> fr_seq (sn_frame n) \<le> fr_seq frame) (snapshots s))"
    and "forkIntents s' = filter (\<lambda>(i, _). fi_childRunId i \<noteq> runId) (forkIntents s)"
    and "mintSequence s' = (case childRunId of Some c \<Rightarrow> mintSequence s | None \<Rightarrow> mintSequence s + 1)"
    using eq[unfolded run] by blast+
  show "edges s' = edges s @ [edge]" using eq by blast
qed

section \<open>Steps\<close>

inductive tt_step :: "tt_store \<Rightarrow> tt_store \<Rightarrow> bool" where
  snapshot: "tt_step s (snd (recordSnapshot recorded s))"
| audit: "tt_step s (snd (writeAudit audit s))"
| patch: "tt_step s (snd (updateAudit numText auditId changes s))"
| receipt: "tt_step s (snd (recordReceipt receipt s))"
| archive: "tt_step s (snd (archiveAndTruncate runId frame newReceipts owner childOwners s))"
| mint: "tt_step s (snd (nextForkId nowMs parentRunId frame s))"
| abandon: "tt_step s (snd (abandonForkIntents staleBeforeMs s))"
| fork: "tt_step s (snd (createFork parentRunId frame childRunId s))"

abbreviation tt_reaches :: "tt_store \<Rightarrow> tt_store \<Rightarrow> bool" where
  "tt_reaches \<equiv> tt_step\<^sup>*\<^sup>*"

lemma nextForkId_Inr:
  "nextForkId nowMs parentRunId frame s = (Inr runId, s') \<longleftrightarrow> failAt s \<noteq> Some (js ''nextForkId'')
     \<and> runId = forkId parentRunId (mintSequence s + 1)
     \<and> s' = s\<lparr>mintSequence := mintSequence s + 1, forkIntents := forkIntents s @
         [(\<lparr>fi_childRunId = runId, fi_parentRunId = parentRunId, fi_parentSeq = fr_seq frame, fi_reservedAtMs = nowMs\<rparr>, False)]\<rparr>"
  unfolding nextForkId_def mint_tx.commits by (auto simp: nextForkIdBody_def fail_Inr Let_def)

lemma abandon_Inr:
  "abandonForkIntents t s = (Inr given, s') \<longleftrightarrow> failAt s \<noteq> Some (js ''abandonForkIntents'')
     \<and> given = map fst (filter (staleIntent t) (forkIntents s))
     \<and> s' = s\<lparr>forkIntents := map (\<lambda>ir. if staleIntent t ir then (fst ir, True) else ir) (forkIntents s)\<rparr>"
  unfolding abandonForkIntents_def abandon_tx.commits by (auto simp: abandonBody_def fail_Inr)

text \<open>Minted ids are spelled with the ordinal; intents stay distinct and below the counter.\<close>

definition mint_inv :: "tt_store \<Rightarrow> bool" where
  "mint_inv s = (distinct (map (fi_childRunId \<circ> fst) (forkIntents s)) \<and>
     (\<forall>ir \<in> set (forkIntents s). \<exists>n. n \<le> mintSequence s \<and> fi_childRunId (fst ir) = forkId (fi_parentRunId (fst ir)) n))"

lemma decimal_no_colon: "(0x3a :: code_unit) \<notin> set (decimal n)"
proof (induction n rule: decimal.induct)
  case (1 n)
  have "(of_nat (48 + n mod 10) :: code_unit) \<noteq> 0x3a"
    using word_of_nat_eq_iff[where 'a = 16, of "48 + n mod 10" 58] by (simp add: take_bit_nat_eq_self)
  then show ?case using 1 by (subst decimal.simps) (auto split: if_splits)
qed

lemma forkId_ordinal: "forkId p m = forkId q n \<Longrightarrow> m = n"
proof -
  assume eq: "forkId p m = forkId q n"
  have tail: "takeWhile (\<lambda>u. u \<noteq> 0x3a) (rev (forkId p m)) = rev (decimal m)" for p m
  proof -
    have "rev (forkId p m) = rev (decimal m) @ 0x3a # rev (p @ js '':fork'')"
      by (simp add: forkId_def js_lits)
    moreover have "takeWhile (\<lambda>u. u \<noteq> 0x3a) (rev (decimal m) @ 0x3a # z) = rev (decimal m) @ takeWhile (\<lambda>u. u \<noteq> 0x3a) (0x3a # z)" for z :: ustring
      using decimal_no_colon[of m] by (intro takeWhile_append2) auto
    ultimately show ?thesis by (simp del: rev_append)
  qed
  have "rev (decimal m) = rev (decimal n)" using tail[of p m] tail[of q n] eq by simp
  then show "m = n" using decimal_inject by simp
qed

lemma mint_inv_shrink:
  assumes "mint_inv s" "mintSequence s \<le> mintSequence s'"
    and "distinct (map (fi_childRunId \<circ> fst) (forkIntents s'))" "fst ` set (forkIntents s') \<subseteq> fst ` set (forkIntents s)"
  shows "mint_inv s'"
proof -
  have "\<exists>n. n \<le> mintSequence s' \<and> fi_childRunId (fst ir) = forkId (fi_parentRunId (fst ir)) n"
    if ir: "ir \<in> set (forkIntents s')" for ir
  proof -
    have "fst ir \<in> fst ` set (forkIntents s)" using ir assms(4) by blast
    then obtain jr where jr: "jr \<in> set (forkIntents s)" "fst jr = fst ir" by force
    then obtain n where "n \<le> mintSequence s" "fi_childRunId (fst jr) = forkId (fi_parentRunId (fst jr)) n"
      using assms(1) by (auto simp: mint_inv_def)
    then show ?thesis using jr(2) assms(2) by (intro exI[of _ n]) simp
  qed
  then show ?thesis using assms(3) by (simp add: mint_inv_def)
qed

lemma mint_inv_same: "mint_inv s \<Longrightarrow> mintSequence s' = mintSequence s \<Longrightarrow> forkIntents s' = forkIntents s \<Longrightarrow> mint_inv s'"
  by (simp add: mint_inv_def)

definition mint_forward :: "tt_store \<Rightarrow> tt_store \<Rightarrow> bool" where
  "mint_forward s s' = (mintSequence s \<le> mintSequence s' \<and> (mint_inv s \<longrightarrow> mint_inv s'))"

lemma mint_forward_refl [simp]: "mint_forward s s"
  by (simp add: mint_forward_def)

lemma archive_failure: "archiveAndTruncate runId frame newReceipts owner childOwners s = (Inl e, s') \<Longrightarrow> s' = s"
  using archive_tx.rollback by (auto simp: archiveAndTruncate_def split: if_splits)

lemma patch_failure: "updateAudit numText auditId changes s = (Inl e, s') \<Longrightarrow> s' = s"
  using patch_tx.rollback by (auto simp: updateAudit_def split: option.splits)

lemma step_mint_forward: "tt_step s s' \<Longrightarrow> mint_forward s s'"
proof (induction rule: tt_step.induct)
  case (snapshot s recorded)
  show ?case unfolding recordSnapshot_def
    by (rule snapshot_tx.moves) (auto simp: recordSnapshotBody_def fail_Inr mint_forward_def intro: mint_inv_same)
next
  case (audit s a)
  show ?case unfolding writeAudit_def
    by (rule audit_tx.moves) (auto simp: writeAuditBody_def fail_Inr mint_forward_def intro: mint_inv_same)
next
  case (receipt s r)
  show ?case unfolding recordReceipt_def
    by (rule receipt_tx.moves) (auto simp: recordReceiptBody_def fail_Inr mint_forward_def intro: mint_inv_same)
next
  case (patch s numText auditId changes)
  show ?case
  proof (cases "validateAuditPatch numText changes")
    case None
    have "mint_forward s (snd (atomic (updateAuditBody auditId changes) s))"
      by (rule patch_tx.moves) (auto simp: updateAuditBody_def fail_Inr mint_forward_def intro: mint_inv_same split: option.splits)
    then show ?thesis using None by (simp add: updateAudit_def)
  qed (simp add: updateAudit_def)
next
  case (archive s runId frame newReceipts owner childOwners)
  show ?case
  proof (cases "archiveAndTruncate runId frame newReceipts owner childOwners s")
    case (Pair r s')
    show ?thesis
    proof (cases r)
      case (Inl e)
      then show ?thesis using Pair archive_failure by fastforce
    next
      case (Inr a)
      then have eq: "archiveAndTruncate runId frame newReceipts owner childOwners s = (Inr (fst a, snd a), s')" using Pair by simp
      show ?thesis using archive_cases(9,10)[OF eq] Pair by (auto simp: mint_forward_def intro: mint_inv_same)
    qed
  qed
next
  case (mint s nowMs parentRunId frame)
  have main: "mint_forward s s'" if body: "nextForkIdBody nowMs parentRunId frame s = (Inr runId, s')" for runId s'
  proof -
    have eq: "nextForkId nowMs parentRunId frame s = (Inr runId, s')" using body mint_tx.commits by (simp add: nextForkId_def)
    note n = eq[unfolded nextForkId_Inr]
    have "mint_inv s'" if i: "mint_inv s"
    proof -
      have fresh: "runId \<notin> (fi_childRunId \<circ> fst) ` set (forkIntents s)"
      proof
        assume "runId \<in> (fi_childRunId \<circ> fst) ` set (forkIntents s)"
        then obtain ir where "ir \<in> set (forkIntents s)" "runId = fi_childRunId (fst ir)" by auto
        then obtain k where "k \<le> mintSequence s" "runId = forkId (fi_parentRunId (fst ir)) k"
          using i by (auto simp: mint_inv_def)
        then show False using n forkId_ordinal[of parentRunId "mintSequence s + 1" "fi_parentRunId (fst ir)" k] by simp
      qed
      have old: "\<exists>k. k \<le> mintSequence s + 1 \<and> fi_childRunId (fst ir) = forkId (fi_parentRunId (fst ir)) k"
        if "ir \<in> set (forkIntents s)" for ir
        using i that unfolding mint_inv_def by (meson le_SucI Suc_eq_plus1 trans_le_add1)
      show ?thesis unfolding mint_inv_def
      proof (intro conjI ballI)
        show "distinct (map (fi_childRunId \<circ> fst) (forkIntents s'))" using i n fresh by (simp add: mint_inv_def)
        show "\<exists>k. k \<le> mintSequence s' \<and> fi_childRunId (fst ir) = forkId (fi_parentRunId (fst ir)) k"
          if "ir \<in> set (forkIntents s')" for ir
        proof (cases "ir \<in> set (forkIntents s)")
          case True
          then show ?thesis using old[OF True] n by simp
        next
          case False
          then have "ir = (\<lparr>fi_childRunId = runId, fi_parentRunId = parentRunId, fi_parentSeq = fr_seq frame,
              fi_reservedAtMs = nowMs\<rparr>, False)" using that n by auto
          then show ?thesis using n by (intro exI[of _ "mintSequence s + 1"]) simp
        qed
      qed
    qed
    then show ?thesis using n by (auto simp: mint_forward_def)
  qed
  show ?case unfolding nextForkId_def by (rule mint_tx.moves) (erule main, rule mint_forward_refl)
next
  case (abandon s t)
  have main: "mint_forward s s'" if body: "abandonBody t s = (Inr given, s')" for given s'
  proof -
    have eq: "abandonForkIntents t s = (Inr given, s')" using body abandon_tx.commits by (simp add: abandonForkIntents_def)
    note n = eq[unfolded abandon_Inr]
    have f: "map fst (forkIntents s') = map fst (forkIntents s)" using n by (auto simp: comp_def)
    have "map (fi_childRunId \<circ> fst) (forkIntents s') = map (fi_childRunId \<circ> fst) (forkIntents s)"
      using arg_cong[OF f, of "map fi_childRunId"] by (simp add: comp_def)
    moreover have "fst ` set (forkIntents s') = fst ` set (forkIntents s)" using arg_cong[OF f, of set] by simp
    moreover have m: "mintSequence s' = mintSequence s" using n by auto
    ultimately have "mint_inv s'" if "mint_inv s"
      using that by (intro mint_inv_shrink[OF that]) (simp_all add: mint_inv_def)
    then show ?thesis using m by (simp add: mint_forward_def)
  qed
  show ?case unfolding abandonForkIntents_def by (rule abandon_tx.moves) (erule main, rule mint_forward_refl)
next
  case (fork s parentRunId frame childRunId)
  have main: "mint_forward s s'" if body: "createForkBody parentRunId frame childRunId s = (Inr r, s')" for r s'
  proof -
    have eq: "createFork parentRunId frame childRunId s = (Inr r, s')" using body fork_tx.commits by (simp add: createFork_def)
    obtain runId edge w where r: "r = (runId, edge, w)" by (cases r)
    note c = fork_cases(9,10)[OF eq[unfolded r]]
    have "mint_inv s \<Longrightarrow> mint_inv s'"
      by (rule mint_inv_shrink) (use c in \<open>auto simp: mint_inv_def distinct_map_filter split: option.splits\<close>)
    then show ?thesis using c by (auto simp: mint_forward_def split: option.splits)
  qed
  show ?case unfolding createFork_def by (rule fork_tx.moves) (erule main, rule mint_forward_refl)
qed

lemma reaches_mint_forward: "tt_reaches s s' \<Longrightarrow> mint_forward s s'"
  by (induction rule: rtranclp_induct) (auto simp: mint_forward_def dest: step_mint_forward)

end
