(* ===== verification/Literal_Search.thy ===== *)
theory Literal_Search
  imports Prelude "HOL-Library.While_Combinator" "HOL-Library.Monad_Syntax"
begin

text \<open>
  The Knuth-Morris-Pratt search of \<open>packages/smithers/flows/plan/src/FileSet.ts\<close> (\<open>literalSearch\<close>).
  Its inner loops follow the fallback table, which the loop condition does not bound, so a search is an option:
  \<open>None\<close> is a loop that never ends.  The lemmas show that every search ends, and where.
\<close>

section \<open>The search\<close>

text \<open>\<open>s[i]\<close>, with \<open>None\<close> for \<open>undefined\<close>.\<close>

definition char_at :: "'a list \<Rightarrow> nat \<Rightarrow> 'a option" where
  "char_at s i = (if i < length s then Some (s ! i) else None)"

definition fallTo :: "nat list \<Rightarrow> ustring \<Rightarrow> code_unit \<Rightarrow> nat \<Rightarrow> nat option" where
  "fallTo fallback literal c =
     while_option (\<lambda>matched. matched > 0 \<and> char_at literal matched \<noteq> Some c) (\<lambda>matched. fallback ! (matched - 1))"

definition advance :: "nat list \<Rightarrow> ustring \<Rightarrow> code_unit \<Rightarrow> nat \<Rightarrow> nat option" where
  "advance fallback literal c matched = do {
     matched \<leftarrow> fallTo fallback literal c matched;
     Some (if char_at literal matched = Some c then matched + 1 else matched) }"

text \<open>The loop over \<open>literal[index]\<close>, with the units that are left.\<close>

fun tableLoop :: "ustring \<Rightarrow> nat \<Rightarrow> nat list \<Rightarrow> nat \<Rightarrow> ustring \<Rightarrow> nat list option" where
  "tableLoop literal index fallback matched [] = Some fallback"
| "tableLoop literal index fallback matched (c # cs) = do {
     matched \<leftarrow> advance fallback literal c matched;
     tableLoop literal (index + 1) (fallback[index := matched]) matched cs }"

definition fallbackTable :: "ustring \<Rightarrow> nat list option" where
  "fallbackTable literal = tableLoop literal 1 (replicate (length literal) 0) 0 (tl literal)"

text \<open>The loop over \<open>path[index]\<close>; the inner \<open>None\<close> is -1.\<close>

fun searchLoop :: "ustring \<Rightarrow> nat list \<Rightarrow> nat \<Rightarrow> nat \<Rightarrow> ustring \<Rightarrow> nat option option" where
  "searchLoop literal fallback index matched [] = Some None"
| "searchLoop literal fallback index matched (c # cs) = do {
     matched \<leftarrow> advance fallback literal c matched;
     if matched = length literal then Some (Some (index + 1))
     else searchLoop literal fallback (index + 1) matched cs }"

definition literalSearch :: "ustring \<Rightarrow> nat list \<Rightarrow> ustring \<Rightarrow> nat \<Rightarrow> nat \<Rightarrow> nat option option" where
  "literalSearch literal fallback path start end = searchLoop literal fallback start 0 (take (end - start) (drop start path))"

section \<open>Longest borders\<close>

text \<open>\<open>m\<close> is the length of the longest prefix of \<open>w\<close> that ends \<open>t\<close>.\<close>

definition longest :: "'a list \<Rightarrow> 'a list \<Rightarrow> nat \<Rightarrow> bool" where
  "longest w t m = (m \<le> length w \<and> suffix (take m w) t \<and> (\<forall>j \<le> length w. suffix (take j w) t \<longrightarrow> j \<le> m))"

definition tableUpTo :: "'a list \<Rightarrow> nat list \<Rightarrow> nat \<Rightarrow> bool" where
  "tableUpTo w fallback k = (length fallback = length w \<and> (\<forall>m. 0 < m \<and> m \<le> k \<longrightarrow>
     fallback ! (m - 1) < m \<and> suffix (take (fallback ! (m - 1)) w) (take m w) \<and>
     (\<forall>j < m. suffix (take j w) (take m w) \<longrightarrow> j \<le> fallback ! (m - 1))))"

lemma suffix_take_le: "suffix (take j w) t \<Longrightarrow> suffix (take m w) t \<Longrightarrow> j \<le> m \<Longrightarrow> suffix (take j w) (take m w)"
  by (rule suffix_length_suffix) auto

lemma suffix_snoc_take:
  assumes "j < length w"
  shows "suffix (take (Suc j) w) (t @ [c]) \<longleftrightarrow> w ! j = c \<and> suffix (take j w) t"
  using assms by (auto simp: take_Suc_conv_app_nth)

lemma advance_longest:
  assumes table: "tableUpTo w fallback k" and m: "m \<le> k" "k \<le> length w"
    and long: "suffix (take m w) t" "\<And>j. j < length w \<Longrightarrow> suffix (take j w) t \<Longrightarrow> j \<le> m"
  shows "\<exists>m'. advance fallback w c m = Some m' \<and> m' \<le> Suc m \<and> longest w (t @ [c]) m'"
proof -
  let ?b = "\<lambda>m. m > 0 \<and> char_at w m \<noteq> Some c" and ?c = "\<lambda>m. fallback ! (m - 1)"
  let ?P = "\<lambda>n. n \<le> m \<and> suffix (take n w) t \<and> (\<forall>j < length w. suffix (take j w) t \<and> n < j \<longrightarrow> w ! j \<noteq> c)"
  have dec: "?c n < n" if "?P n" "?b n" for n
    using table that m by (auto simp: tableUpTo_def)
  have keep: "?P (?c n)" if p: "?P n" and b: "?b n" for n
  proof -
    have n: "0 < n" "n \<le> k" using p b m by auto
    then have tab: "?c n < n" "suffix (take (?c n) w) (take n w)" "\<forall>j < n. suffix (take j w) (take n w) \<longrightarrow> j \<le> ?c n"
      using table by (auto simp: tableUpTo_def)
    have "w ! j \<noteq> c" if j: "j < length w" "suffix (take j w) t" "?c n < j" for j
    proof (cases "n < j")
      case True
      then show ?thesis using p j by blast
    next
      case False
      then have "\<not> j < n" using tab(3) j(3) suffix_take_le[of j w t n] p j(2) by fastforce
      with False have "j = n" by simp
      then show ?thesis using b j(1) by (simp add: char_at_def)
    qed
    then show ?thesis using p tab by (auto intro: suffix_order.trans)
  qed
  have init: "?P m" using long by fastforce
  have "\<exists>n. fallTo fallback w c m = Some n" unfolding fallTo_def
    by (rule measure_while_option_Some[of ?P _ _ id]) (use keep dec init in auto)
  then obtain n where n: "fallTo fallback w c m = Some n" by blast
  have P: "?P n" by (rule while_option_rule[of ?P, OF _ n[unfolded fallTo_def] init]) (use keep in blast)
  have stop: "n = 0 \<or> char_at w n = Some c" using while_option_stop[OF n[unfolded fallTo_def]] by auto
  let ?m' = "if char_at w n = Some c then n + 1 else n"
  have "longest w (t @ [c]) ?m'"
  proof (cases "char_at w n = Some c")
    case True
    then have nw: "n < length w" "w ! n = c" by (auto simp: char_at_def split: if_splits)
    have "j \<le> Suc n" if j: "j \<le> length w" "suffix (take j w) (t @ [c])" for j
    proof (cases j)
      case (Suc i)
      then have "w ! i = c \<and> suffix (take i w) t" using j suffix_snoc_take[of i w t c] by simp
      then have "\<not> n < i" using P Suc j(1) by (metis Suc_le_lessD)
      then show ?thesis using Suc by simp
    qed simp
    moreover have "suffix (take (Suc n) w) (t @ [c])" using suffix_snoc_take[OF nw(1)] nw(2) P by blast
    ultimately show ?thesis unfolding longest_def using True nw(1) by simp
  next
    case False
    then have n0: "n = 0" using stop by blast
    have "j = 0" if j: "j \<le> length w" "suffix (take j w) (t @ [c])" for j
    proof (cases j)
      case (Suc i)
      then have i: "w ! i = c" "suffix (take i w) t" "i < length w" using j suffix_snoc_take[of i w t c] by simp_all
      then show ?thesis using P n0 False by (cases i) (auto simp: char_at_def)
    qed
    then show ?thesis using False n0 by (auto simp: longest_def)
  qed
  moreover have "?m' \<le> Suc m" using P by simp
  ultimately show ?thesis using n by (auto simp: advance_def)
qed

lemma tableLoop_table:
  assumes "cs = drop index w" "1 \<le> index" "index \<le> length w" "tableUpTo w fallback index"
    and "longest w (take (index - 1) (tl w)) m"
  shows "\<exists>fallback'. tableLoop w index fallback m cs = Some fallback' \<and> tableUpTo w fallback' (length w)"
  using assms
proof (induction w index fallback m cs rule: tableLoop.induct)
  case (1 w index fallback m)
  then show ?case by auto
next
  case (2 w index fallback m c cs)
  then have index: "index < length w" by (cases "index < length w") auto
  then have c: "c = w ! index" "cs = drop (index + 1) w" using 2(2) Cons_nth_drop_Suc[OF index] by (metis list.inject Suc_eq_plus1)+
  let ?t = "take (index - 1) (tl w)"
  have t: "?t @ [c] = take index (tl w)" "length (take index (tl w)) = index"
    using index 2(3) c(1) by (cases index; simp add: take_Suc_conv_app_nth nth_tl)+
  have m: "m \<le> index" using 2(6) suffix_length_le[of "take m w" ?t] by (auto simp: longest_def)
  obtain m' where m': "advance fallback w c m = Some m'" "longest w (take index (tl w)) m'"
    using advance_longest[OF 2(5) m, of ?t c] index 2(6) unfolding t(1) by (auto simp: longest_def)
  have "m' \<le> index" using m'(2) suffix_length_le[of "take m' w" "take index (tl w)"] t(2) by (auto simp: longest_def)
  have sub: "suffix (take j w) (take index (tl w)) \<longleftrightarrow> suffix (take j w) (take (Suc index) w)" if "j \<le> index" for j
  proof -
    obtain x xs where w: "w = x # xs" using index by (cases w) auto
    then have "length (take j w) \<noteq> length (x # take index xs)" using that t(2) by auto
    then have "take j w \<noteq> x # take index xs" by metis
    then show ?thesis using w by (simp only: take_Suc_Cons list.sel suffix_Cons) blast
  qed
  have "tableUpTo w (fallback[index := m']) (index + 1)"
    unfolding tableUpTo_def
  proof (intro conjI allI impI)
    show "length (fallback[index := m']) = length w" using 2(5) by (simp add: tableUpTo_def)
    fix n assume n: "0 < n \<and> n \<le> index + 1"
    let ?F = "fallback[index := m']"
    have "?F ! (n - 1) < n \<and> suffix (take (?F ! (n - 1)) w) (take n w) \<and> (\<forall>j < n. suffix (take j w) (take n w) \<longrightarrow> j \<le> ?F ! (n - 1))"
    proof (cases "n = index + 1")
      case True
      have "?F ! index = m'" using 2(5) index by (simp add: tableUpTo_def)
      then show ?thesis using True \<open>m' \<le> index\<close> m'(2) sub index by (auto simp: longest_def less_Suc_eq_le)
    next
      case False
      then have "?F ! (n - 1) = fallback ! (n - 1)" "n \<le> index" using n by auto
      then show ?thesis using 2(5) n by (simp add: tableUpTo_def)
    qed
    then show "?F ! (n - 1) < n" "suffix (take (?F ! (n - 1)) w) (take n w)"
      "\<And>j. j < n \<Longrightarrow> suffix (take j w) (take n w) \<Longrightarrow> j \<le> ?F ! (n - 1)" by auto
  qed
  then show ?case using 2(1)[of m'] m' c(2) index 2(3) by simp
qed

lemma fallbackTable_table: "\<exists>fallback. fallbackTable w = Some fallback \<and> tableUpTo w fallback (length w)"
proof (cases w)
  case Nil
  then show ?thesis by (auto simp: fallbackTable_def tableUpTo_def)
next
  case (Cons x xs)
  have "tableUpTo w (replicate (length w) 0) 1" using Cons by (auto simp: tableUpTo_def)
  then show ?thesis unfolding fallbackTable_def using Cons
    by (intro tableLoop_table) (auto simp: longest_def)
qed

section \<open>Correctness\<close>

text \<open>The naive search: the first end of an occurrence.\<close>

definition firstEnd :: "'a list \<Rightarrow> 'a list \<Rightarrow> nat option" where
  "firstEnd w text = find (\<lambda>k. suffix w (take k text)) [0..<Suc (length text)]"

lemma find_upt_None: "find P [0..<n] = None \<longleftrightarrow> (\<forall>k < n. \<not> P k)"
  by (auto simp: find_None_iff)

lemma find_upt_Some: "find P [0..<n] = Some k \<longleftrightarrow> k < n \<and> P k \<and> (\<forall>j < k. \<not> P j)"
  by (auto simp: find_Some_iff)

lemma firstEnd_None: "firstEnd w text = None \<longleftrightarrow> (\<forall>k \<le> length text. \<not> suffix w (take k text))"
  unfolding firstEnd_def find_upt_None by (simp only: less_Suc_eq_le)

lemma firstEnd_Some:
  "firstEnd w text = Some k \<longleftrightarrow> k \<le> length text \<and> suffix w (take k text) \<and> (\<forall>j < k. \<not> suffix w (take j text))"
  unfolding firstEnd_def find_upt_Some by (simp only: less_Suc_eq_le)

lemma searchLoop_first:
  assumes "tableUpTo w fallback (length w)" "longest w t m" "m < length w"
    and "\<forall>k \<le> length t. \<not> suffix w (take k t)"
  shows "searchLoop w fallback i m cs = Some (map_option (\<lambda>k. i + (k - length t)) (firstEnd w (t @ cs)))"
  using assms
proof (induction cs arbitrary: t i m)
  case Nil
  then show ?case by (simp add: firstEnd_None[THEN iffD2])
next
  case (Cons c cs)
  obtain m' where m': "advance fallback w c m = Some m'" "longest w (t @ [c]) m'"
    using advance_longest[OF Cons.prems(1), of m t c] Cons.prems(2,3) by (auto simp: longest_def)
  show ?case
  proof (cases "m' = length w")
    case True
    then have "suffix w (take (Suc (length t)) (t @ c # cs))" using m'(2) by (simp add: longest_def)
    moreover have "\<not> suffix w (take j (t @ c # cs))" if "j < Suc (length t)" for j using Cons.prems(4) that by simp
    ultimately have "firstEnd w (t @ c # cs) = Some (Suc (length t))" by (simp add: firstEnd_Some)
    then show ?thesis using True m'(1) by simp
  next
    case False
    have no: "\<not> suffix w (t @ [c])" using False m'(2) by (auto simp: longest_def)
    have none: "\<forall>k \<le> length (t @ [c]). \<not> suffix w (take k (t @ [c]))"
      using Cons.prems(4) no by (auto simp: le_Suc_eq)
    have "m' < length w" using False m'(2) by (simp add: longest_def)
    then have "searchLoop w fallback (i + 1) m' cs
        = Some (map_option (\<lambda>k. i + 1 + (k - length (t @ [c]))) (firstEnd w ((t @ [c]) @ cs)))"
      using Cons.IH[OF Cons.prems(1) m'(2)] none by blast
    moreover have "Suc (length t) < k" if "firstEnd w (t @ c # cs) = Some k" for k
    proof (rule ccontr)
      assume "\<not> Suc (length t) < k"
      then have "take k (t @ c # cs) = take k (t @ [c])" "k \<le> length (t @ [c])"
        using take_append[of k "t @ [c]" cs] by simp_all
      then show False using that none by (simp add: firstEnd_Some)
    qed
    ultimately show ?thesis using m'(1) False by (cases "firstEnd w (t @ c # cs)") auto
  qed
qed

lemma literalSearch_naive:
  assumes "w \<noteq> []" "tableUpTo w fallback (length w)"
  shows "literalSearch w fallback path start end
    = Some (map_option (\<lambda>k. start + k) (firstEnd w (take (end - start) (drop start path))))"
  unfolding literalSearch_def using assms searchLoop_first[of w fallback "[]" 0 start "take (end - start) (drop start path)"]
  by (auto simp: longest_def)

end
