(* ===== verification/File_Set.thy ===== *)
theory File_Set
  imports Capability Literal_Search
begin

text \<open>
  Filesystem declarations and their matching (\<open>packages/smithers/flows/plan/src/FileSet.ts\<close>).
  \<open>nfc\<close> stands for \<open>String.prototype.normalize("NFC")\<close>, whose tables are part of the runtime.  The module
  keeps one mutable map of compiled matchers: it is the \<open>matchers\<close> state the matching functions pass on, and a
  compiled matcher is the data its closure captures.  The outer option of a match is \<open>None\<close> only if a
  literal search did not end.
\<close>

section \<open>Declared paths\<close>

definition backward_slash :: code_unit where "backward_slash = 0x5c"

definition canonical :: "(ustring \<Rightarrow> ustring) \<Rightarrow> ustring \<Rightarrow> ustring" where
  "canonical nfc path = nfc (map (\<lambda>u. if u = backward_slash then slash else u) path)"

definition workspaceRelative :: "(ustring \<Rightarrow> ustring) \<Rightarrow> ustring \<Rightarrow> bool" where
  "workspaceRelative nfc pattern =
     (if list_ex (\<lambda>code. code \<le> 0x1f \<or> code = 0x7f) pattern then False
      else if startsWith pattern [slash] then False
      else let segments = js_split slash (canonical nfc pattern) in
        if endsWith (hd segments) (js '':'') then False
        else list_all (\<lambda>segment. segment \<noteq> js ''..'' \<and> segment \<noteq> js ''.'' \<and> segment \<noteq> []) segments)"

text \<open>The schema filter \<open>Pattern\<close>.\<close>

definition is_file_pattern :: "(ustring \<Rightarrow> ustring) \<Rightarrow> ustring \<Rightarrow> bool" where
  "is_file_pattern nfc pattern = (pattern \<noteq> [] \<and> workspaceRelative nfc pattern)"

record file_glob =
  gl_include :: "ustring list"
  gl_exclude :: "ustring list option"

datatype file_entry = File_pattern ustring | Glob_entry file_glob | Tree_artifact (tree_path: ustring)

datatype read_entry = Read_pattern ustring | Read_glob file_glob

datatype 'e file_declaration = Entry 'e | Filegroup (group_name: ustring) (group_entries: "'e list")

definition is_file_glob :: "(ustring \<Rightarrow> ustring) \<Rightarrow> file_glob \<Rightarrow> bool" where
  "is_file_glob nfc g = (gl_include g \<noteq> [] \<and> list_all (is_file_pattern nfc) (gl_include g)
     \<and> (case gl_exclude g of None \<Rightarrow> True | Some ps \<Rightarrow> list_all (is_file_pattern nfc) ps))"

fun is_file_entry :: "(ustring \<Rightarrow> ustring) \<Rightarrow> file_entry \<Rightarrow> bool" where
  "is_file_entry nfc (File_pattern p) = is_file_pattern nfc p"
| "is_file_entry nfc (Glob_entry g) = is_file_glob nfc g"
| "is_file_entry nfc (Tree_artifact p) = is_file_pattern nfc p"

definition makeFilegroup :: "ustring \<Rightarrow> 'e list \<Rightarrow> 'e file_declaration" where
  "makeFilegroup name entries = Filegroup name entries"

definition expand :: "file_entry file_declaration list \<Rightarrow> file_entry list" where
  "expand declarations = concat (map (\<lambda>d. case d of Filegroup name entries \<Rightarrow> entries | Entry e \<Rightarrow> [e]) declarations)"

definition expandReads :: "read_entry file_declaration list \<Rightarrow> read_entry list" where
  "expandReads declarations = concat (map (\<lambda>d. case d of Filegroup name entries \<Rightarrow> entries | Entry e \<Rightarrow> [e]) declarations)"

definition isGlob :: "file_entry \<Rightarrow> bool" where
  "isGlob value = (case value of Glob_entry g \<Rightarrow> True | _ \<Rightarrow> False)"

definition isTreeArtifact :: "file_entry \<Rightarrow> bool" where
  "isTreeArtifact value = (case value of Tree_artifact p \<Rightarrow> True | _ \<Rightarrow> False)"

section \<open>Segments\<close>

text \<open>\<open>segment.split(/\*+/)\<close>: the parts between maximal runs of stars.\<close>

fun splitStars :: "ustring \<Rightarrow> ustring list" where
  "splitStars [] = [[]]"
| "splitStars (c # cs) =
     (if c = star then (case cs of [] \<Rightarrow> [[], []] | d # ds \<Rightarrow> if d = star then splitStars cs else [] # splitStars cs)
      else (case splitStars cs of [] \<Rightarrow> [[c]] | chunk # chunks \<Rightarrow> (c # chunk) # chunks))"

datatype segment_matcher =
    Exact_segment ustring
  | Anchored_segment (sm_prefix: ustring) (sm_suffix: ustring) (sm_searches: "(ustring \<times> nat list) list")

definition segmentMatcher :: "ustring \<Rightarrow> segment_matcher option" where
  "segmentMatcher segment =
     (let chunks = splitStars segment; pre = hd chunks; chunks = tl chunks in
      if chunks = [] then Some (Exact_segment pre)
      else let suf = last chunks; chunks = butlast chunks in do {
        searches \<leftarrow> mapM (\<lambda>chunk. map_option (Pair chunk) (fallbackTable chunk)) chunks;
        Some (Anchored_segment pre suf searches) })"

fun runSearches :: "(ustring \<times> nat list) list \<Rightarrow> ustring \<Rightarrow> nat \<Rightarrow> nat \<Rightarrow> bool option" where
  "runSearches [] path position end = Some True"
| "runSearches ((literal, fallback) # searches) path position end =
     (case literalSearch literal fallback path position end of
        None \<Rightarrow> None
      | Some None \<Rightarrow> Some False
      | Some (Some position) \<Rightarrow> runSearches searches path position end)"

fun runSegment :: "segment_matcher \<Rightarrow> ustring \<Rightarrow> bool option" where
  "runSegment (Exact_segment pre) path = Some (path = pre)"
| "runSegment (Anchored_segment pre suf searches) path =
     (let end = int (length path) - int (length suf) in
      if int (length pre) > end \<or> \<not> startsWith path pre \<or> \<not> endsWith path suf then Some False
      else runSearches searches path (length pre) (nat end))"

section \<open>Patterns\<close>

type_synonym path_matcher = "segment_matcher option list" \<comment> \<open>\<open>None\<close> is \<open>**\<close>\<close>
type_synonym matchers = "(ustring \<times> path_matcher) list"

definition compilePattern :: "ustring \<Rightarrow> path_matcher option" where
  "compilePattern key =
     mapM (\<lambda>segment. if segment = js ''**'' then Some None else map_option Some (segmentMatcher segment))
       (js_split slash key)"

text \<open>One pass of the loop over \<open>part\<close>, from the last path segment down; the arrays end with index \<open>parts.length\<close>.\<close>

fun matchRow :: "segment_matcher option \<Rightarrow> bool \<Rightarrow> ustring list \<Rightarrow> bool list \<Rightarrow> bool list option" where
  "matchRow segment lastSegment [] next = Some [False]"
| "matchRow segment lastSegment (part # parts) next = do {
     current \<leftarrow> matchRow segment lastSegment parts (tl next);
     cell \<leftarrow> (case segment of
        None \<Rightarrow> Some (lastSegment \<or> hd next \<or> part \<noteq> [] \<and> hd current)
      | Some m \<Rightarrow> if hd (tl next) then runSegment m part else Some False);
     Some (cell # current) }"

fun matchRows :: "path_matcher \<Rightarrow> ustring list \<Rightarrow> bool list option" where
  "matchRows [] parts = Some (replicate (length parts) False @ [True])"
| "matchRows (segment # segments) parts = do {
     next \<leftarrow> matchRows segments parts;
     matchRow segment (segments = []) parts next }"

definition runMatcher :: "path_matcher \<Rightarrow> ustring \<Rightarrow> bool option" where
  "runMatcher segments path = map_option hd (matchRows segments (js_split slash path))"

definition patternMatcher :: "(ustring \<Rightarrow> ustring) \<Rightarrow> ustring \<Rightarrow> matchers \<Rightarrow> path_matcher option \<times> matchers" where
  "patternMatcher nfc pattern matchers =
     (let key = canonical nfc pattern in
      case map_of matchers key of
        Some cached \<Rightarrow> (Some cached, matchers)
      | None \<Rightarrow>
          (case compilePattern key of
             None \<Rightarrow> (None, matchers)
           | Some matcher \<Rightarrow> (Some matcher, jsmap_set matchers key matcher)))"

definition matchesPattern :: "(ustring \<Rightarrow> ustring) \<Rightarrow> ustring \<Rightarrow> ustring \<Rightarrow> matchers \<Rightarrow> bool option \<times> matchers" where
  "matchesPattern nfc pattern path matchers =
     (case patternMatcher nfc pattern matchers of
        (None, matchers) \<Rightarrow> (None, matchers)
      | (Some matcher, matchers) \<Rightarrow> (runMatcher matcher path, matchers))"

text \<open>\<open>patterns.some((pattern) => matchesPattern(pattern, path))\<close>.\<close>

fun somePattern :: "(ustring \<Rightarrow> ustring) \<Rightarrow> ustring list \<Rightarrow> ustring \<Rightarrow> matchers \<Rightarrow> bool option \<times> matchers" where
  "somePattern nfc [] path matchers = (Some False, matchers)"
| "somePattern nfc (pattern # patterns) path matchers =
     (case matchesPattern nfc pattern path matchers of
        (Some False, matchers) \<Rightarrow> somePattern nfc patterns path matchers
      | (found, matchers) \<Rightarrow> (found, matchers))"

definition matchesGlob :: "(ustring \<Rightarrow> ustring) \<Rightarrow> file_glob \<Rightarrow> ustring \<Rightarrow> matchers \<Rightarrow> bool option \<times> matchers" where
  "matchesGlob nfc g path matchers =
     (case somePattern nfc (gl_include g) path matchers of
        (Some True, matchers) \<Rightarrow>
          (case somePattern nfc (case gl_exclude g of None \<Rightarrow> [] | Some ps \<Rightarrow> ps) path matchers of
             (excluded, matchers) \<Rightarrow> (map_option Not excluded, matchers))
      | (included, matchers) \<Rightarrow> (included, matchers))"

section \<open>Overlap\<close>

definition beneath :: "(ustring \<Rightarrow> ustring) \<Rightarrow> ustring \<Rightarrow> ustring \<Rightarrow> bool" where
  "beneath nfc tree path =
     (let root = canonical nfc tree; inside = canonical nfc path in
      inside = root \<or> startsWith inside (root @ [slash]))"

function overlaps :: "(ustring \<Rightarrow> ustring) \<Rightarrow> file_entry \<Rightarrow> file_entry \<Rightarrow> matchers \<Rightarrow> bool option \<times> matchers" where
  "overlaps nfc (File_pattern l) (File_pattern r) matchers = (Some (canonical nfc l = canonical nfc r), matchers)"
| "overlaps nfc (File_pattern l) (Glob_entry r) matchers = matchesGlob nfc r (canonical nfc l) matchers"
| "overlaps nfc (Glob_entry l) (File_pattern r) matchers = matchesGlob nfc l (canonical nfc r) matchers"
| "overlaps nfc (Glob_entry l) (Glob_entry r) matchers = (Some True, matchers)"
| "overlaps nfc (Tree_artifact l) (File_pattern r) matchers = (Some (beneath nfc l r), matchers)"
| "overlaps nfc (File_pattern l) (Tree_artifact r) matchers = (Some (beneath nfc r l), matchers)"
| "overlaps nfc (Tree_artifact l) (Tree_artifact r) matchers = (Some (beneath nfc l r \<or> beneath nfc r l), matchers)"
| "overlaps nfc (Tree_artifact l) (Glob_entry r) matchers = (Some True, matchers)"
| "overlaps nfc (Glob_entry l) (Tree_artifact r) matchers = overlaps nfc (Tree_artifact r) (Glob_entry l) matchers"
  by pat_completeness auto
termination by (relation "measure (\<lambda>(nfc, l, r, matchers). if isGlob l then 1 else 0)") (simp_all add: isGlob_def)

end
