(* ===== verification/File_Set_Lemmas.thy ===== *)
theory File_Set_Lemmas
  imports File_Set
begin

text \<open>
  The meaning of file patterns by recursion, and that the compiled matchers compute it: chunks between stars,
  greedy disjoint searches, rows of the suffix table, and the map of compiled matchers.
\<close>

section \<open>The meaning of a segment\<close>

fun segmentGlob :: "ustring \<Rightarrow> ustring \<Rightarrow> bool" where
  "segmentGlob [] s = (s = [])"
| "segmentGlob (c # p) [] = (c = star \<and> segmentGlob p [])"
| "segmentGlob (c # p) (x # r) =
     (if c = star then segmentGlob p (x # r) \<or> segmentGlob (c # p) r else c = x \<and> segmentGlob p r)"

lemma segmentGlob_star: "segmentGlob (star # p) s \<longleftrightarrow> (\<exists>x y. s = x @ y \<and> segmentGlob p y)"
proof (induction s)
  case (Cons a s)
  have "(\<exists>x y. a # s = x @ y \<and> segmentGlob p y) \<longleftrightarrow> segmentGlob p (a # s) \<or> (\<exists>x y. s = x @ y \<and> segmentGlob p y)"
    by (auto simp: Cons_eq_append_conv)
  with Cons show ?case by simp
qed simp

lemma segmentGlob_literal: "c \<noteq> star \<Longrightarrow> segmentGlob (c # p) s \<longleftrightarrow> (\<exists>r. s = c # r \<and> segmentGlob p r)"
  by (cases s) auto

fun chunksMatch :: "ustring list \<Rightarrow> ustring \<Rightarrow> bool" where
  "chunksMatch [] s = False"
| "chunksMatch [p] s = (s = p)"
| "chunksMatch (p # q # chunks) s = (\<exists>x y. s = p @ x @ y \<and> chunksMatch (q # chunks) y)"

lemma chunksMatch_star: "chunks \<noteq> [] \<Longrightarrow> chunksMatch ([] # chunks) s \<longleftrightarrow> (\<exists>x y. s = x @ y \<and> chunksMatch chunks y)"
  by (cases chunks) auto

lemma chunksMatch_literal: "chunksMatch ((c # p) # chunks) s \<longleftrightarrow> (\<exists>r. s = c # r \<and> chunksMatch (p # chunks) r)"
  by (cases chunks) auto

lemma splitStars_literal:
  "c \<noteq> star \<Longrightarrow> splitStars (c # cs) = (case splitStars cs of [] \<Rightarrow> [[c]] | chunk # chunks \<Rightarrow> (c # chunk) # chunks)"
  by simp

lemma splitStars_star:
  "splitStars [star] = [[], []]"
  "splitStars (star # star # ds) = splitStars (star # ds)"
  "d \<noteq> star \<Longrightarrow> splitStars (star # d # ds) = [] # splitStars (d # ds)"
  by simp_all

declare splitStars.simps(2) [simp del]

lemma stars_induct [case_names Nil literal last run one]:
  assumes "P []" "\<And>c cs. c \<noteq> star \<Longrightarrow> P cs \<Longrightarrow> P (c # cs)" "P [star]" "\<And>ds. P (star # ds) \<Longrightarrow> P (star # star # ds)"
    "\<And>d ds. d \<noteq> star \<Longrightarrow> P (d # ds) \<Longrightarrow> P (star # d # ds)"
  shows "P s"
proof (induction s rule: length_induct)
  case (1 s)
  then have IH: "length y < length s \<Longrightarrow> P y" for y by blast
  consider "s = []" | c cs where "s = c # cs" "c \<noteq> star" | "s = [star]" | ds where "s = star # star # ds"
    | d ds where "s = star # d # ds" "d \<noteq> star"
    by (metis neq_Nil_conv)
  then show ?case by cases (use assms IH in auto)
qed

lemma splitStars_not_Nil [simp]: "splitStars s \<noteq> []"
  by (induction s rule: stars_induct) (simp_all add: splitStars_literal splitStars_star split: list.split)

lemma chunksMatch_split: "chunksMatch (splitStars seg) s \<longleftrightarrow> segmentGlob seg s"
proof (induction seg arbitrary: s rule: stars_induct)
  case (literal c cs)
  obtain chunk chunks where "splitStars cs = chunk # chunks" by (cases "splitStars cs") auto
  then show ?case using literal by (simp add: splitStars_literal chunksMatch_literal segmentGlob_literal)
next
  case last
  then show ?case by (simp add: splitStars_star segmentGlob_star)
next
  case (run ds)
  have "segmentGlob (star # star # ds) s \<longleftrightarrow> segmentGlob (star # ds) s"
    unfolding segmentGlob_star[of "star # ds"] segmentGlob_star[of ds]
    by (metis append.assoc append_Nil)
  then show ?case using run by (simp only: splitStars_star)
next
  case (one d ds)
  then show ?case by (simp only: splitStars_star(3)[OF one(1)] chunksMatch_star[OF splitStars_not_Nil] segmentGlob_star)
qed simp

lemma splitStars_middle: "chunk \<in> set (butlast (tl (splitStars seg))) \<Longrightarrow> chunk \<noteq> []"
proof (induction seg rule: stars_induct)
  case (literal c cs)
  then show ?case by (cases "splitStars cs") (simp_all add: splitStars_literal)
next
  case (one d ds)
  obtain h t where "splitStars (d # ds) = (d # h) # t" using one(1) by (cases "splitStars ds") (auto simp: splitStars_literal)
  then show ?case using one by (cases t) (auto simp: splitStars_star)
qed (simp_all add: splitStars_star)

section \<open>Greedy searches\<close>

fun occurs :: "'a list list \<Rightarrow> 'a list \<Rightarrow> bool" where
  "occurs [] u = True"
| "occurs (w # ws) u = (\<exists>x y. u = x @ w @ y \<and> occurs ws y)"

lemma occurs_prepend: "occurs ws y \<Longrightarrow> occurs ws (x @ y)"
  by (cases ws) (auto, metis append.assoc)

fun greedy :: "'a list list \<Rightarrow> 'a list \<Rightarrow> bool" where
  "greedy [] u = True"
| "greedy (w # ws) u = (case firstEnd w u of None \<Rightarrow> False | Some k \<Rightarrow> greedy ws (drop k u))"

lemma greedy_occurs: "greedy ws u \<longleftrightarrow> occurs ws u"
proof (induction ws arbitrary: u)
  case (Cons w ws)
  show ?case
  proof (cases "firstEnd w u")
    case None
    have "u \<noteq> x @ w @ y" for x y
    proof
      assume u: "u = x @ w @ y"
      then have "suffix w (take (length x + length w) u)" "length x + length w \<le> length u" by (simp_all add: suffix_def)
      then show False using None unfolding firstEnd_None by blast
    qed
    then show ?thesis using None by auto
  next
    case (Some k)
    then have k: "k \<le> length u" "suffix w (take k u)" "\<And>j. j < k \<Longrightarrow> \<not> suffix w (take j u)"
      by (auto simp: firstEnd_Some)
    have "occurs ws (drop k u)" if u: "u = x @ w @ y" and o: "occurs ws y" for x y
    proof -
      have "suffix w (take (length x + length w) u)" using u by (simp add: suffix_def)
      then have le: "k \<le> length x + length w" using k(3) not_less by blast
      have "y = drop (length x + length w) u" using u by simp
      also have "\<dots> = drop (length x + length w - k) (drop k u)" using le by simp
      finally have "drop k u = take (length x + length w - k) (drop k u) @ y" by (metis append_take_drop_id)
      then show ?thesis using occurs_prepend[OF o] by metis
    qed
    moreover have "\<exists>x. u = x @ w @ drop k u" using k(2) by (metis append.assoc append_take_drop_id suffix_def)
    ultimately have "occurs (w # ws) u \<longleftrightarrow> occurs ws (drop k u)" unfolding occurs.simps by metis
    then show ?thesis using Some Cons by simp
  qed
qed simp

lemma anchored_chunks:
  "chunksMatch (pre # ms @ [suf]) s \<longleftrightarrow> (\<exists>u. s = pre @ u @ suf \<and> occurs ms u)"
proof (induction ms arbitrary: pre s)
  case (Cons w ws)
  show ?case by (auto simp: Cons) (metis append.assoc)+
qed auto

section \<open>Segment matchers\<close>

lemma compiled_searches:
  "\<exists>searches. mapM (\<lambda>chunk. map_option (Pair chunk) (fallbackTable chunk)) chunks = Some searches
     \<and> map fst searches = chunks \<and> (\<forall>(w, fallback) \<in> set searches. tableUpTo w fallback (length w))"
proof (induction chunks)
  case (Cons w ws)
  then show ?case using fallbackTable_table[of w] by auto
qed simp

lemma runSearches_greedy:
  assumes "\<forall>(w, fallback) \<in> set searches. w \<noteq> [] \<and> tableUpTo w fallback (length w)" "stop \<le> length path"
  shows "runSearches searches path position stop = Some (greedy (map fst searches) (take (stop - position) (drop position path)))"
  using assms(1)
proof (induction searches arbitrary: position)
  case (Cons search searches)
  obtain w fallback where s: "search = (w, fallback)" by (cases search)
  let ?text = "take (stop - position) (drop position path)"
  have "take (stop - (position + k)) (drop (position + k) path) = drop k ?text" for k
    by (simp add: drop_take add.commute diff_diff_left)
  then show ?case using Cons s literalSearch_naive[of w fallback path position stop]
    by (auto split: option.splits)
qed simp

lemma segmentMatcher_glob: "\<exists>m. segmentMatcher seg = Some m \<and> (\<forall>path. runSegment m path = Some (segmentGlob seg path))"
proof -
  obtain pre chunks where sp: "splitStars seg = pre # chunks" by (cases "splitStars seg") auto
  show ?thesis
  proof (cases "chunks = []")
    case True
    then have "segmentGlob seg path \<longleftrightarrow> path = pre" for path using chunksMatch_split[of seg path] sp by simp
    then show ?thesis using True sp by (auto simp: segmentMatcher_def)
  next
    case False
    let ?ms = "butlast chunks" and ?suf = "last chunks"
    have sp': "splitStars seg = pre # ?ms @ [?suf]" using sp False by simp
    obtain searches where s: "mapM (\<lambda>chunk. map_option (Pair chunk) (fallbackTable chunk)) ?ms = Some searches"
      "map fst searches = ?ms" "\<forall>(w, fallback) \<in> set searches. tableUpTo w fallback (length w)"
      using compiled_searches[of ?ms] by auto
    have m: "segmentMatcher seg = Some (Anchored_segment pre ?suf searches)"
      using s(1) sp False by (simp add: segmentMatcher_def)
    have ne: "\<forall>(w, fallback) \<in> set searches. w \<noteq> [] \<and> tableUpTo w fallback (length w)"
      using s(2,3) splitStars_middle[of _ seg] sp by (metis (mono_tags, lifting) case_prodD case_prodI2 fst_conv image_eqI list.sel(3) list.set_map)
    have "runSegment (Anchored_segment pre ?suf searches) path = Some (segmentGlob seg path)" for path
    proof -
      let ?stop = "length path - length ?suf"
      let ?bad = "int (length pre) > int (length path) - int (length ?suf) \<or> \<not> startsWith path pre \<or> \<not> endsWith path ?suf"
      have spec: "segmentGlob seg path \<longleftrightarrow> (\<exists>u. path = pre @ u @ ?suf \<and> occurs ?ms u)"
        using chunksMatch_split[of seg path] anchored_chunks[of pre ?ms ?suf path] sp' by simp
      show ?thesis
      proof (cases ?bad)
        case True
        then have "\<not> segmentGlob seg path" unfolding spec by auto (metis append.assoc endsWith_append)
        then show ?thesis using True by (simp add: Let_def)
      next
        case False
        then have len: "length pre + length ?suf \<le> length path" and "startsWith path pre" "endsWith path ?suf" by auto
        then obtain r q where path: "path = pre @ r" "path = q @ ?suf" by (meson endsWithE startsWithE)
        let ?u = "take (?stop - length pre) (drop (length pre) path)"
        have "length ?suf \<le> length r" using len path(1) by simp
        then have "suffix ?suf r" using path by (metis suffix_append suffix_length_suffix suffixI)
        then have u: "path = pre @ ?u @ ?suf" using path(1) by (auto elim!: suffixE)
        then have "segmentGlob seg path \<longleftrightarrow> occurs ?ms ?u" unfolding spec
          by (metis append_same_eq same_append_eq)
        moreover have "nat (int (length path) - int (length ?suf)) = ?stop" by simp
        ultimately show ?thesis
          using False runSearches_greedy[OF ne, of ?stop path "length pre"] s(2) by (simp add: Let_def greedy_occurs)
      qed
    qed
    then show ?thesis using m by blast
  qed
qed

section \<open>Patterns\<close>

text \<open>
  The meaning of a pattern on path segments: a final \<open>**\<close> takes everything that is left, which has to be
  something, any other \<open>**\<close> takes zero or more non-empty segments.
\<close>

fun pathGlob :: "ustring list \<Rightarrow> ustring list \<Rightarrow> bool" where
  "pathGlob [] parts = (parts = [])"
| "pathGlob (seg # segs) [] = False"
| "pathGlob (seg # segs) (part # parts) =
     (if seg = js ''**''
      then segs = [] \<or> pathGlob segs (part # parts) \<or> part \<noteq> [] \<and> pathGlob (seg # segs) parts
      else segmentGlob seg part \<and> pathGlob segs parts)"

definition patternGlob :: "(ustring \<Rightarrow> ustring) \<Rightarrow> ustring \<Rightarrow> ustring \<Rightarrow> bool" where
  "patternGlob nfc pattern path = pathGlob (js_split slash (canonical nfc pattern)) (js_split slash path)"

text \<open>The values of a predicate at all suffixes.\<close>

fun rowOf :: "('a list \<Rightarrow> bool) \<Rightarrow> 'a list \<Rightarrow> bool list" where
  "rowOf P [] = [P []]"
| "rowOf P (x # xs) = P (x # xs) # rowOf P xs"

lemma hd_rowOf [simp]: "hd (rowOf P xs) = P xs"
  by (cases xs) simp_all

lemma rowOf_initial: "rowOf (\<lambda>parts. parts = []) parts = replicate (length parts) False @ [True]"
  by (induction parts) simp_all

definition segment_ok :: "ustring \<Rightarrow> segment_matcher option \<Rightarrow> bool" where
  "segment_ok seg segment = (case segment of None \<Rightarrow> seg = js ''**''
     | Some m \<Rightarrow> seg \<noteq> js ''**'' \<and> (\<forall>path. runSegment m path = Some (segmentGlob seg path)))"

lemma matchRow_row:
  assumes "segment_ok seg segment"
  shows "matchRow segment (segs = []) parts (rowOf (pathGlob segs) parts) = Some (rowOf (pathGlob (seg # segs)) parts)"
  using assms by (induction parts) (auto simp: segment_ok_def split: option.splits)

lemma matchRows_row:
  assumes "list_all2 segment_ok segs segments"
  shows "matchRows segments parts = Some (rowOf (pathGlob segs) parts)"
  using assms
proof (induction segs segments rule: list_all2_induct)
  case (Cons seg segs segment segments)
  have "segments = [] \<longleftrightarrow> segs = []" using Cons(2) by (cases segs; cases segments) auto
  then show ?case using Cons matchRow_row[OF Cons(1), of segs] by simp
qed (simp add: rowOf_initial)

lemma compilePattern_ok:
  "\<exists>m. compilePattern key = Some m \<and> (\<forall>path. runMatcher m path = Some (pathGlob (js_split slash key) (js_split slash path)))"
proof -
  let ?f = "\<lambda>segment. if segment = js ''**'' then Some None else map_option Some (segmentMatcher segment)"
  have "\<exists>m. mapM ?f segs = Some m \<and> list_all2 segment_ok segs m" for segs
  proof (induction segs)
    case (Cons seg segs)
    obtain m where "segmentMatcher seg = Some m" "\<forall>path. runSegment m path = Some (segmentGlob seg path)"
      using segmentMatcher_glob by blast
    then show ?case using Cons by (auto simp: segment_ok_def)
  qed simp
  then obtain m where "compilePattern key = Some m" "list_all2 segment_ok (js_split slash key) m"
    unfolding compilePattern_def by blast
  then show ?thesis by (auto simp: runMatcher_def matchRows_row)
qed

text \<open>Every cached matcher is the one compiled from its key.\<close>

definition matchers_ok :: "matchers \<Rightarrow> bool" where
  "matchers_ok matchers = (\<forall>(key, m) \<in> set matchers. compilePattern key = Some m)"

lemma matchers_ok_Nil [simp]: "matchers_ok []"
  by (simp add: matchers_ok_def)

lemma jsmap_set_subset: "set (jsmap_set m k v) \<subseteq> insert (k, v) (set m)"
  by (induction m k v rule: jsmap_set.induct) auto

text \<open>A memoised function answers what the function answers and keeps the map.\<close>

definition answers :: "'a option \<times> matchers \<Rightarrow> 'a \<Rightarrow> bool" where
  "answers r a = (fst r = Some a \<and> matchers_ok (snd r))"

lemma answersE: "answers r a \<Longrightarrow> (\<And>matchers. r = (Some a, matchers) \<Longrightarrow> matchers_ok matchers \<Longrightarrow> P) \<Longrightarrow> P"
  by (cases r) (auto simp: answers_def)

lemma matchesPattern_answers:
  assumes "matchers_ok matchers"
  shows "answers (matchesPattern nfc pattern path matchers) (patternGlob nfc pattern path)"
proof -
  let ?key = "canonical nfc pattern"
  obtain m where m: "compilePattern ?key = Some m"
    "runMatcher m path = Some (pathGlob (js_split slash ?key) (js_split slash path))"
    using compilePattern_ok by blast
  have "cached = m" if "map_of matchers ?key = Some cached" for cached
    using that assms m(1) map_of_SomeD by (fastforce simp: matchers_ok_def)
  moreover have "matchers_ok (jsmap_set matchers ?key m)"
    using assms m(1) jsmap_set_subset[of matchers ?key m] by (auto simp: matchers_ok_def)
  ultimately show ?thesis using m assms
    by (cases "map_of matchers ?key") (auto simp: matchesPattern_def patternMatcher_def answers_def patternGlob_def)
qed

lemma somePattern_answers:
  "matchers_ok matchers \<Longrightarrow> answers (somePattern nfc patterns path matchers) (\<exists>p \<in> set patterns. patternGlob nfc p path)"
proof (induction patterns arbitrary: matchers)
  case (Cons p patterns)
  show ?case
    by (rule answersE[OF matchesPattern_answers[OF Cons.prems, of nfc p path]])
      (use Cons.IH in \<open>auto simp: answers_def split: bool.split\<close>)
qed (simp add: answers_def)

definition globMatches :: "(ustring \<Rightarrow> ustring) \<Rightarrow> file_glob \<Rightarrow> ustring \<Rightarrow> bool" where
  "globMatches nfc g path = ((\<exists>p \<in> set (gl_include g). patternGlob nfc p path)
     \<and> \<not> (case gl_exclude g of None \<Rightarrow> False | Some ps \<Rightarrow> \<exists>p \<in> set ps. patternGlob nfc p path))"

lemma matchesGlob_answers:
  assumes "matchers_ok matchers"
  shows "answers (matchesGlob nfc g path matchers) (globMatches nfc g path)"
proof (rule answersE[OF somePattern_answers[OF assms, of nfc "gl_include g" path]])
  fix matchers' assume inc: "somePattern nfc (gl_include g) path matchers = (Some (\<exists>p \<in> set (gl_include g). patternGlob nfc p path), matchers')"
    and ok: "matchers_ok matchers'"
  show ?thesis
    by (rule answersE[OF somePattern_answers[OF ok, of nfc "case gl_exclude g of None \<Rightarrow> [] | Some ps \<Rightarrow> ps" path]])
      (use inc ok in \<open>auto simp: matchesGlob_def globMatches_def answers_def split: option.splits bool.split\<close>)
qed

section \<open>Overlap\<close>

text \<open>The paths, in canonical form, that a declaration owns.\<close>

fun owns :: "(ustring \<Rightarrow> ustring) \<Rightarrow> file_entry \<Rightarrow> ustring \<Rightarrow> bool" where
  "owns nfc (File_pattern p) path = (path = canonical nfc p)"
| "owns nfc (Glob_entry g) path = globMatches nfc g path"
| "owns nfc (Tree_artifact t) path = (path = canonical nfc t \<or> prefix (canonical nfc t @ [slash]) path)"

fun mayOverlap :: "(ustring \<Rightarrow> ustring) \<Rightarrow> file_entry \<Rightarrow> file_entry \<Rightarrow> bool" where
  "mayOverlap nfc (File_pattern l) r = (case r of Glob_entry g \<Rightarrow> globMatches nfc g (canonical nfc l) | _ \<Rightarrow> owns nfc r (canonical nfc l))"
| "mayOverlap nfc l (File_pattern r) = owns nfc l (canonical nfc r)"
| "mayOverlap nfc (Tree_artifact l) (Tree_artifact r) = (beneath nfc l r \<or> beneath nfc r l)"
| "mayOverlap nfc l r = True"

lemma beneath_owns: "beneath nfc tree path \<longleftrightarrow> owns nfc (Tree_artifact tree) (canonical nfc path)"
  by (auto simp: beneath_def Let_def startsWith_def)

lemma overlaps_answers:
  assumes "matchers_ok matchers"
  shows "answers (overlaps nfc l r matchers) (mayOverlap nfc l r)"
  using matchesGlob_answers[OF assms] assms
  by (cases l; cases r) (auto simp: answers_def beneath_owns)

lemma tree_prefixes:
  assumes "prefix (a @ [c]) p \<or> p = a" "prefix (b @ [c]) p \<or> p = b"
  shows "a = b \<or> prefix (a @ [c]) b \<or> prefix (b @ [c]) a"
proof -
  have "prefix a p" "prefix b p" using assms by (auto dest: append_prefixD)
  then consider "prefix a b" "a \<noteq> b" | "prefix b a" "a \<noteq> b" | "a = b" using prefix_same_cases by blast
  then show ?thesis
  proof cases
    case 1
    then obtain x xs where b: "b = a @ x # xs" by (metis append_Nil2 list.exhaust prefixE)
    then have "prefix (a @ [c]) p" using assms \<open>prefix b p\<close> by (auto simp: prefix_def)
    then have "x = c" using b \<open>prefix b p\<close> by (auto simp: prefix_def)
    then show ?thesis using b by simp
  next
    case 2
    then obtain x xs where a: "a = b @ x # xs" by (metis append_Nil2 list.exhaust prefixE)
    then have "prefix (b @ [c]) p" using assms \<open>prefix a p\<close> by (auto simp: prefix_def)
    then have "x = c" using a \<open>prefix a p\<close> by (auto simp: prefix_def)
    then show ?thesis using a by simp
  qed simp
qed

lemma overlap_sound: "owns nfc l path \<Longrightarrow> owns nfc r path \<Longrightarrow> mayOverlap nfc l r"
  using tree_prefixes[of "canonical nfc (tree_path l)" slash path "canonical nfc (tree_path r)"]
  by (cases l; cases r) (auto simp: beneath_owns)

lemma overlap_exact:
  assumes "\<not> isGlob l \<or> (\<exists>p. r = File_pattern p)" "\<not> isGlob r \<or> (\<exists>p. l = File_pattern p)" "mayOverlap nfc l r"
  shows "\<exists>path. owns nfc l path \<and> owns nfc r path"
  using assms by (cases l; cases r) (auto simp: isGlob_def beneath_owns)

lemma mayOverlap_sym: "mayOverlap nfc l r = mayOverlap nfc r l"
  by (cases l; cases r) auto

end
