(* ===== verification/Effect_Candidates.thy ===== *)
theory Effect_Candidates
  imports File_Set_Lemmas
begin

text \<open>
  The candidate index of the plan compiler (\<open>packages/smithers/flows/plan/src/internal/EffectCandidates.ts\<close>):
  a trie over canonical path segments that preselects the producers a declaration may overlap.  A \<open>Set\<close> of owners
  is a list in insertion order; the trie the code updates in place is rebuilt along the path.
\<close>

section \<open>The index\<close>

datatype branch = Branch (children: "(ustring \<times> branch) list") (exact: "nat list") (trees: "nat list")

definition new_branch :: branch where
  "new_branch = Branch [] [] []"

definition set_add :: "nat \<Rightarrow> nat list \<Rightarrow> nat list" where
  "set_add x xs = (if x \<in> set xs then xs else xs @ [x])"

definition add :: "nat list \<Rightarrow> nat list \<Rightarrow> nat list" where
  "add target values = fold set_add values target"

definition ordered :: "nat list \<Rightarrow> nat list" where
  "ordered values = sort values"

record candidate_index =
  ci_root :: branch
  ci_all :: "nat list"
  ci_globs :: "nat list"

text \<open>The walk that creates missing children, and the insertion into the set at its end.\<close>

fun place :: "bool \<Rightarrow> nat \<Rightarrow> ustring list \<Rightarrow> branch \<Rightarrow> branch" where
  "place tree owner [] (Branch cs ex tr) = (if tree then Branch cs ex (set_add owner tr) else Branch cs (set_add owner ex) tr)"
| "place tree owner (segment # segments) (Branch cs ex tr) =
     (let child = (case map_of cs segment of None \<Rightarrow> new_branch | Some child \<Rightarrow> child) in
      Branch (jsmap_set cs segment (place tree owner segments child)) ex tr)"

definition pathSegments :: "(ustring \<Rightarrow> ustring) \<Rightarrow> ustring \<Rightarrow> ustring list" where
  "pathSegments nfc path = js_split slash (canonical nfc path)"

definition indexEntry :: "(ustring \<Rightarrow> ustring) \<Rightarrow> nat \<Rightarrow> file_entry \<Rightarrow> candidate_index \<Rightarrow> candidate_index" where
  "indexEntry nfc owner entry ix =
     (let ix = ix\<lparr>ci_all := set_add owner (ci_all ix)\<rparr> in
      case entry of
        Glob_entry g \<Rightarrow> ix\<lparr>ci_globs := set_add owner (ci_globs ix)\<rparr>
      | File_pattern path \<Rightarrow> ix\<lparr>ci_root := place False owner (pathSegments nfc path) (ci_root ix)\<rparr>
      | Tree_artifact path \<Rightarrow> ix\<lparr>ci_root := place True owner (pathSegments nfc path) (ci_root ix)\<rparr>)"

definition make_candidates :: "(ustring \<Rightarrow> ustring) \<Rightarrow> file_entry list list \<Rightarrow> candidate_index" where
  "make_candidates nfc produced =
     fold (\<lambda>(owner, entries) ix. fold (indexEntry nfc owner) entries ix) (enumerate 0 produced)
       \<lparr>ci_root = new_branch, ci_all = [], ci_globs = []\<rparr>"

section \<open>The query\<close>

text \<open>The walk along existing children; \<open>None\<close> when it breaks off.\<close>

fun walk :: "ustring list \<Rightarrow> branch \<Rightarrow> nat list \<Rightarrow> branch option \<times> nat list" where
  "walk [] current found = (Some current, found)"
| "walk (segment # segments) current found =
     (case map_of (children current) segment of
        None \<Rightarrow> (None, found)
      | Some child \<Rightarrow> walk segments child (add found (trees child)))"

lemma branch_children_size: "sum_list (map size (map snd cs)) < size (Branch cs ex tr)"
  by (induction cs) auto

lemma sum_list_last: "xs \<noteq> [] \<Longrightarrow> sum_list (map f xs) = sum_list (map f (butlast xs)) + f (last xs)"
  for f :: "'a \<Rightarrow> nat"
  by (induction xs rule: rev_induct) auto

function drainStack :: "branch list \<Rightarrow> nat list \<Rightarrow> nat list" where
  "drainStack stack found =
     (if stack = [] then found
      else let descendant = last stack in
        drainStack (butlast stack @ map snd (children descendant)) (add (add found (exact descendant)) (trees descendant)))"
  by auto
termination
proof (relation "measure (\<lambda>(stack, found). sum_list (map size stack))")
  fix stack :: "branch list" and found descendant
  assume s: "stack \<noteq> []" "descendant = last stack"
  have "sum_list (map size stack) = sum_list (map size (butlast stack)) + size descendant"
    using s sum_list_last by blast
  then show "((butlast stack @ map snd (children descendant), add (add found (exact descendant)) (trees descendant)), stack, found)
      \<in> measure (\<lambda>(stack, found). sum_list (map size stack))"
    using branch_children_size[of "children descendant" "exact descendant" "trees descendant"] by simp
qed simp

declare drainStack.simps [simp del]

definition isExact :: "file_entry \<Rightarrow> bool" where
  "isExact entry = (case entry of File_pattern path \<Rightarrow> True | _ \<Rightarrow> False)"

definition entryPath :: "file_entry \<Rightarrow> ustring" where
  "entryPath entry = (case entry of File_pattern path \<Rightarrow> path | Tree_artifact path \<Rightarrow> path | Glob_entry g \<Rightarrow> [])"

fun selectFrom :: "(ustring \<Rightarrow> ustring) \<Rightarrow> candidate_index \<Rightarrow> file_entry list \<Rightarrow> nat list \<Rightarrow> nat list" where
  "selectFrom nfc ix [] found = ordered found"
| "selectFrom nfc ix (entry # entries) found =
     (if isGlob entry then ordered (ci_all ix)
      else case walk (pathSegments nfc (entryPath entry)) (ci_root ix) (add found (ci_globs ix)) of
        (None, found) \<Rightarrow> selectFrom nfc ix entries found
      | (Some current, found) \<Rightarrow>
          (let found = add found (exact current) in
           if isExact entry then selectFrom nfc ix entries found
           else selectFrom nfc ix entries (drainStack (map snd (children current)) found)))"

definition candidates :: "(ustring \<Rightarrow> ustring) \<Rightarrow> candidate_index \<Rightarrow> file_entry list \<Rightarrow> nat list" where
  "candidates nfc ix entries = selectFrom nfc ix entries []"

section \<open>Owner sets\<close>

lemma set_set_add [simp]: "set (set_add x xs) = insert x (set xs)"
  by (auto simp: set_add_def)

lemma distinct_set_add [simp]: "distinct (set_add x xs) = distinct xs"
  by (simp add: set_add_def)

lemma set_add_all [simp]: "set (add xs ys) = set xs \<union> set ys"
  unfolding add_def by (induction ys arbitrary: xs) auto

lemma distinct_add [simp]: "distinct (add xs ys) = distinct xs"
  unfolding add_def by (induction ys arbitrary: xs) auto

section \<open>The trie\<close>

text \<open>The owners a path reaches in a branch.\<close>

fun ownersAt :: "bool \<Rightarrow> branch \<Rightarrow> ustring list \<Rightarrow> nat set" where
  "ownersAt tree b [] = set (if tree then trees b else exact b)"
| "ownersAt tree b (segment # segments) = (case map_of (children b) segment of None \<Rightarrow> {} | Some child \<Rightarrow> ownersAt tree child segments)"

inductive trie_ok :: "branch \<Rightarrow> bool" where
  "distinct (map fst cs) \<Longrightarrow> (\<And>k child. (k, child) \<in> set cs \<Longrightarrow> trie_ok child) \<Longrightarrow> trie_ok (Branch cs ex tr)"

inductive_simps trie_ok_Branch: "trie_ok (Branch cs ex tr)"

lemma new_branch_ok [simp]: "trie_ok new_branch" "ownersAt tree new_branch q = {}"
  by (cases q; simp add: new_branch_def trie_ok_Branch)+

lemma place_ok: "trie_ok b \<Longrightarrow> trie_ok (place tree owner p b)"
proof (induction tree owner p b rule: place.induct)
  case (1 tree owner cs ex tr)
  then show ?case by (simp add: trie_ok_Branch)
next
  case (2 tree owner seg segs cs ex tr)
  have "trie_ok (case map_of cs seg of None \<Rightarrow> new_branch | Some child \<Rightarrow> child)"
    using 2(2) map_of_SomeD[of cs seg] by (auto simp: trie_ok_Branch split: option.split)
  then show ?case using 2 jsmap_set_subset[of cs seg] by (auto simp: trie_ok_Branch Let_def dest!: subsetD)
qed

lemma ownersAt_place:
  "ownersAt t (place tree owner p b) q = ownersAt t b q \<union> (if t = tree \<and> q = p then {owner} else {})"
proof (induction tree owner p b arbitrary: q rule: place.induct)
  case (1 tree owner cs ex tr)
  then show ?case by (cases q) auto
next
  case (2 tree owner seg segs cs ex tr)
  then show ?case
  proof (cases q)
    case (Cons s q')
    then show ?thesis using 2[OF refl, of q'] by (auto simp: Let_def split: option.splits if_splits)
  qed simp
qed

lemma walk_None:
  "walk p b found = (None, found') \<Longrightarrow> distinct found' = distinct found
     \<and> set found' = set found \<union> (\<Union>q \<in> {q. prefix q p \<and> q \<noteq> []}. ownersAt True b q) \<and> (\<forall>q r. prefix p q \<longrightarrow> ownersAt r b q = {})"
proof (induction p arbitrary: b found)
  case (Cons s p)
  show ?case
  proof (cases "map_of (children b) s")
    case None
    have "ownersAt r b q = {}" if "prefix q (s # p) \<and> q \<noteq> [] \<or> prefix (s # p) q" for q r
      using that None by (cases q) auto
    then show ?thesis using Cons.prems None by auto
  next
    case (Some child)
    have split: "{q. prefix q (s # p) \<and> q \<noteq> []} = insert [s] (Cons s ` {q. prefix q p \<and> q \<noteq> []})"
      by (auto simp: prefix_Cons)
    have "ownersAt r b q = {}" if "prefix (s # p) q" for q r
      using that Some Cons.IH[of child "add found (trees child)"] Cons.prems by (cases q) auto
    then show ?thesis using Some Cons.IH[of child "add found (trees child)"] Cons.prems unfolding split by auto
  qed
qed simp

lemma walk_Some:
  "walk p b found = (Some c, found') \<Longrightarrow> distinct found' = distinct found
     \<and> set found' = set found \<union> (\<Union>q \<in> {q. prefix q p \<and> q \<noteq> []}. ownersAt True b q)
     \<and> (\<forall>q r. ownersAt r b (p @ q) = ownersAt r c q) \<and> (trie_ok b \<longrightarrow> trie_ok c)"
proof (induction p arbitrary: b found)
  case (Cons s p)
  obtain child where child: "map_of (children b) s = Some child" using Cons.prems by (auto split: option.splits)
  have split: "{q. prefix q (s # p) \<and> q \<noteq> []} = insert [s] (Cons s ` {q. prefix q p \<and> q \<noteq> []})"
    by (auto simp: prefix_Cons)
  have "trie_ok b \<longrightarrow> trie_ok child" using map_of_SomeD[OF child] by (cases b) (auto simp: trie_ok_Branch)
  then show ?case using child Cons.IH[of child "add found (trees child)"] Cons.prems unfolding split by auto
qed simp

definition below :: "branch \<Rightarrow> nat set" where
  "below b = (\<Union>q. ownersAt True b q \<union> ownersAt False b q)"

lemma belowI: "x \<in> ownersAt t b q \<Longrightarrow> x \<in> below b"
  by (cases t) (auto simp: below_def)

lemma below_children:
  assumes "trie_ok b"
  shows "below b = set (exact b) \<union> set (trees b) \<union> (\<Union>c \<in> set (map snd (children b)). below c)"
proof -
  obtain cs ex tr where b: "b = Branch cs ex tr" by (cases b)
  have key: "map_of cs k = Some c" if "(k, c) \<in> set cs" for k c using that assms b by (simp add: trie_ok_Branch)
  have "below b \<subseteq> set ex \<union> set tr \<union> (\<Union>c \<in> set (map snd cs). below c)"
  proof
    fix x assume "x \<in> below b"
    then obtain q t where q: "x \<in> ownersAt t b q" by (auto simp: below_def)
    show "x \<in> set ex \<union> set tr \<union> (\<Union>c \<in> set (map snd cs). below c)"
    proof (cases q)
      case Nil
      then show ?thesis using q b by (auto split: if_splits)
    next
      case (Cons s q')
      then obtain c where c: "map_of cs s = Some c" "x \<in> ownersAt t c q'" using q b by (auto split: option.splits)
      then have "x \<in> below c" by (intro belowI)
      then show ?thesis using map_of_SomeD[OF c(1)] by force
    qed
  qed
  moreover have "set ex \<union> set tr \<subseteq> below b" using b using belowI[of _ False b "[]"] belowI[of _ True b "[]"] by auto
  moreover have "below c \<subseteq> below b" if c: "(k, c) \<in> set cs" for k c
  proof
    fix x assume "x \<in> below c"
    then obtain q t where "x \<in> ownersAt t c q" by (auto simp: below_def)
    then have "x \<in> ownersAt t b (k # q)" using key[OF c] b by simp
    then show "x \<in> below b" by (rule belowI)
  qed
  ultimately show ?thesis using b by fastforce
qed

lemma drainStack_below:
  assumes "\<forall>b \<in> set stack. trie_ok b"
  shows "set (drainStack stack found) = set found \<union> (\<Union>b \<in> set stack. below b) \<and> distinct (drainStack stack found) = distinct found"
  using assms
proof (induction stack found rule: drainStack.induct)
  case (1 stack found)
  show ?case
  proof (cases "stack = []")
    case True
    then show ?thesis by (simp add: drainStack.simps)
  next
    case False
    let ?d = "last stack"
    obtain cs ex tr where d: "?d = Branch cs ex tr" by (cases ?d)
    have ok: "trie_ok ?d" "\<forall>b \<in> set (butlast stack). trie_ok b" using False 1(2) by (auto dest: in_set_butlastD)
    then have "\<forall>b \<in> set (butlast stack @ map snd (children ?d)). trie_ok b" using d by (auto simp: trie_ok_Branch)
    note IH = 1(1)[OF False refl this]
    have "set stack = set (butlast stack) \<union> {?d}" using append_butlast_last_id[OF False] by (metis set_append list.set(1,2))
    then show ?thesis using IH below_children[OF ok(1)] False by (subst (1 2) drainStack.simps) (auto simp: Let_def)
  qed
qed

section \<open>Correctness\<close>

text \<open>Entries that share no glob relate as their segment lists do.\<close>

lemma prefix_split: "prefix (js_split c a) (js_split c b) \<longleftrightarrow> b = a \<or> prefix (a @ [c]) b"
proof
  assume "prefix (js_split c a) (js_split c b)"
  then obtain r where r: "js_split c b = js_split c a @ r" by (auto elim: prefixE)
  show "b = a \<or> prefix (a @ [c]) b"
  proof (cases "r = []")
    case True
    then show ?thesis using r js_join_split by (metis append_Nil2)
  next
    case False
    then have "js_join [c] (js_split c b) = js_join [c] (js_split c a) @ [c] @ js_join [c] r"
      using r by (simp add: join_append)
    then show ?thesis by (simp add: prefix_def)
  qed
next
  assume "b = a \<or> prefix (a @ [c]) b"
  then show "prefix (js_split c a) (js_split c b)"
    by (auto simp: js_split_append_sep elim!: prefixE)
qed

lemma split_inject: "js_split c a = js_split c b \<longleftrightarrow> a = b"
  by (metis js_join_split)

definition candidate :: "(ustring \<Rightarrow> ustring) \<Rightarrow> file_entry \<Rightarrow> file_entry \<Rightarrow> bool" where
  "candidate nfc e f = (isGlob e \<or> isGlob f \<or> mayOverlap nfc e f)"

definition related :: "bool \<Rightarrow> ustring list \<Rightarrow> bool \<Rightarrow> ustring list \<Rightarrow> bool" where
  "related te p tf q = (p = q \<or> tf \<and> prefix q p \<or> te \<and> prefix p q)"

lemma mayOverlap_related:
  "\<not> isGlob e \<Longrightarrow> \<not> isGlob f \<Longrightarrow> mayOverlap nfc e f \<longleftrightarrow>
     related (\<not> isExact e) (pathSegments nfc (entryPath e)) (\<not> isExact f) (pathSegments nfc (entryPath f))"
  by (cases e; cases f)
    (auto simp: isGlob_def isExact_def entryPath_def related_def pathSegments_def prefix_split split_inject beneath_owns)

text \<open>What the index holds after some entries of some owners.\<close>

definition index_inv :: "(ustring \<Rightarrow> ustring) \<Rightarrow> (nat \<times> file_entry) set \<Rightarrow> candidate_index \<Rightarrow> bool" where
  "index_inv nfc ps ix = (set (ci_all ix) = fst ` ps \<and> distinct (ci_all ix)
     \<and> set (ci_globs ix) = {i. \<exists>f. (i, f) \<in> ps \<and> isGlob f} \<and> trie_ok (ci_root ix)
     \<and> (\<forall>t q. ownersAt t (ci_root ix) q =
          {i. \<exists>f. (i, f) \<in> ps \<and> \<not> isGlob f \<and> t = (\<not> isExact f) \<and> q = pathSegments nfc (entryPath f)}))"

lemma index_inv_entry: "index_inv nfc ps ix \<Longrightarrow> index_inv nfc (insert (i, f) ps) (indexEntry nfc i f ix)"
  by (cases f) (auto simp: index_inv_def indexEntry_def Let_def isGlob_def isExact_def entryPath_def place_ok ownersAt_place)

lemma index_inv_entries:
  "index_inv nfc ps ix \<Longrightarrow> index_inv nfc (ps \<union> Pair i ` set entries) (fold (indexEntry nfc i) entries ix)"
proof (induction entries arbitrary: ps ix)
  case (Cons f entries)
  from Cons.IH[OF index_inv_entry[OF Cons.prems, of i f]] show ?case by simp
qed simp

lemma index_inv_owners:
  "index_inv nfc ps ix \<Longrightarrow> index_inv nfc (ps \<union> {(i, f). n \<le> i \<and> i < n + length produced \<and> f \<in> set (produced ! (i - n))})
     (fold (\<lambda>(owner, entries) ix. fold (indexEntry nfc owner) entries ix) (enumerate n produced) ix)"
proof (induction produced arbitrary: ps ix n)
  case (Cons entries produced)
  let ?rest = "{(i, f). Suc n \<le> i \<and> i < Suc n + length produced \<and> f \<in> set (produced ! (i - Suc n))}"
  have d: "i - Suc n = x" if "i - n = Suc x" for i x using that by simp
  have eq: "{(i, f). n \<le> i \<and> i < n + length (entries # produced) \<and> f \<in> set ((entries # produced) ! (i - n))}
      = Pair n ` set entries \<union> ?rest"
    by (auto simp: nth_Cons split: nat.splits dest!: d)
  have "index_inv nfc ((ps \<union> Pair n ` set entries) \<union> ?rest)
     (fold (\<lambda>(owner, entries) ix. fold (indexEntry nfc owner) entries ix) (enumerate (Suc n) produced)
        (fold (indexEntry nfc n) entries ix))"
    by (rule Cons.IH[OF index_inv_entries[OF Cons.prems]])
  then show ?case by (simp only: eq enumerate_simps fold.simps prod.case comp_def Un_assoc)
qed (auto simp: index_inv_def)

lemma make_candidates_inv:
  "index_inv nfc {(i, f). i < length produced \<and> f \<in> set (produced ! i)} (make_candidates nfc produced)"
proof -
  have "index_inv nfc {} \<lparr>ci_root = new_branch, ci_all = [], ci_globs = []\<rparr>" by (simp add: index_inv_def)
  from index_inv_owners[OF this, of 0 produced] show ?thesis by (simp add: make_candidates_def)
qed

text \<open>The owners a query for \<open>p\<close> has to find: in the tree above it, at it, and below it for a tree query.\<close>

definition reach :: "(bool \<Rightarrow> 'a list \<Rightarrow> nat set) \<Rightarrow> bool \<Rightarrow> 'a list \<Rightarrow> nat set" where
  "reach own tree p = {i. \<exists>t q. q \<noteq> [] \<and> i \<in> own t q \<and> (p = q \<or> t \<and> prefix q p \<or> tree \<and> prefix p q)}"

definition above :: "(bool \<Rightarrow> 'a list \<Rightarrow> nat set) \<Rightarrow> 'a list \<Rightarrow> nat set" where
  "above own p = (\<Union>q \<in> {q. prefix q p \<and> q \<noteq> []}. own True q)"

lemma reach_nothing:
  assumes "\<And>t q. prefix p q \<Longrightarrow> own t q = {}"
  shows "reach own tree p = above own p"
proof (intro equalityI subsetI)
  fix i assume "i \<in> reach own tree p"
  then obtain t q where i: "q \<noteq> []" "i \<in> own t q" "p = q \<or> t \<and> prefix q p \<or> tree \<and> prefix p q" by (auto simp: reach_def)
  then have "\<not> prefix p q" using assms by blast
  then show "i \<in> above own p" using i by (cases t) (auto simp: above_def)
qed (auto simp: reach_def above_def)

lemma reach_exact:
  assumes "p \<noteq> []"
  shows "reach own False p = above own p \<union> own False p"
proof (intro equalityI subsetI)
  fix i assume "i \<in> reach own False p"
  then obtain t q where "q \<noteq> []" "i \<in> own t q" "p = q \<or> t \<and> prefix q p" by (auto simp: reach_def)
  then show "i \<in> above own p \<union> own False p" by (cases t) (auto simp: above_def)
next
  fix i assume "i \<in> above own p \<union> own False p"
  then show "i \<in> reach own False p" using assms by (auto simp: reach_def above_def)
qed

lemma reach_tree:
  assumes "p \<noteq> []"
  shows "reach own True p = above own p \<union> {i. \<exists>t q. prefix p q \<and> i \<in> own t q}"
proof (intro equalityI subsetI)
  fix i assume "i \<in> reach own True p"
  then obtain t q where "q \<noteq> []" "i \<in> own t q" "p = q \<or> t \<and> prefix q p \<or> prefix p q" by (auto simp: reach_def)
  then show "i \<in> above own p \<union> {i. \<exists>t q. prefix p q \<and> i \<in> own t q}" by (auto simp: above_def)
next
  fix i assume "i \<in> above own p \<union> {i. \<exists>t q. prefix p q \<and> i \<in> own t q}"
  then consider q where "prefix q p" "q \<noteq> []" "i \<in> own True q" | t q where "prefix p q" "i \<in> own t q"
    by (auto simp: above_def)
  then show "i \<in> reach own True p"
  proof cases
    case (2 t q)
    then have "q \<noteq> []" using assms by auto
    then show ?thesis using 2 by (auto simp: reach_def)
  qed (auto simp: reach_def)
qed

lemma candidate_owners:
  assumes "index_inv nfc ps ix" "\<not> isGlob e"
  shows "{i. \<exists>f. (i, f) \<in> ps \<and> candidate nfc e f}
    = set (ci_globs ix) \<union> reach (\<lambda>t. ownersAt t (ci_root ix)) (\<not> isExact e) (pathSegments nfc (entryPath e))"
proof -
  have at: "ownersAt t (ci_root ix) q = {i. \<exists>f. (i, f) \<in> ps \<and> \<not> isGlob f \<and> t = (\<not> isExact f) \<and> q = pathSegments nfc (entryPath f)}" for t q
    using assms(1) unfolding index_inv_def by blast
  have globs: "set (ci_globs ix) = {i. \<exists>f. (i, f) \<in> ps \<and> isGlob f}" using assms(1) unfolding index_inv_def by blast
  have "pathSegments nfc q \<noteq> []" for q by (simp add: pathSegments_def)
  then have "reach (\<lambda>t. ownersAt t (ci_root ix)) (\<not> isExact e) (pathSegments nfc (entryPath e))
      = {i. \<exists>f. (i, f) \<in> ps \<and> \<not> isGlob f \<and> related (\<not> isExact e) (pathSegments nfc (entryPath e)) (\<not> isExact f) (pathSegments nfc (entryPath f))}"
    unfolding reach_def at related_def by blast
  then show ?thesis unfolding globs using assms(2) mayOverlap_related[of e] by (auto simp: candidate_def)
qed

lemma selectFrom_entry:
  assumes inv: "index_inv nfc ps ix" and e: "\<not> isGlob e"
  obtains found' where "selectFrom nfc ix (e # entries) found = selectFrom nfc ix entries found'"
    "set found' = set found \<union> {i. \<exists>f. (i, f) \<in> ps \<and> candidate nfc e f}" "distinct found' = distinct found"
proof -
  let ?p = "pathSegments nfc (entryPath e)" and ?found = "add found (ci_globs ix)" and ?own = "\<lambda>t. ownersAt t (ci_root ix)"
  have ne: "?p \<noteq> []" by (simp add: pathSegments_def)
  have trie: "trie_ok (ci_root ix)" using inv by (simp add: index_inv_def)
  note here = candidate_owners[OF inv e]
  obtain r found' where w: "walk ?p (ci_root ix) ?found = (r, found')" by (cases "walk ?p (ci_root ix) ?found")
  show thesis
  proof (cases r)
    case None
    note n = walk_None[OF w[unfolded None]]
    then have "reach ?own (\<not> isExact e) ?p = above ?own ?p" by (intro reach_nothing) blast
    then show thesis using that[of found'] w None e n unfolding here above_def by auto
  next
    case (Some c)
    note s = walk_Some[OF w[unfolded Some]]
    have c: "?own t (?p @ q) = ownersAt t c q" for t q using s by blast
    have ex: "set (exact c) = ?own False ?p" and tr: "set (trees c) = ?own True ?p"
      using c[of False "[]"] c[of True "[]"] by simp_all
    show thesis
    proof (cases "isExact e")
      case True
      then have "set (add found' (exact c)) = set found \<union> {i. \<exists>f. (i, f) \<in> ps \<and> candidate nfc e f}"
        using s ex reach_exact[OF ne, of ?own] unfolding here above_def by auto
      then show thesis using that[of "add found' (exact c)"] w Some e True s by simp
    next
      case False
      let ?drained = "drainStack (map snd (children c)) (add found' (exact c))"
      have ok: "trie_ok c" using s trie by blast
      then have "\<forall>b \<in> set (map snd (children c)). trie_ok b" by (cases c) (auto simp: trie_ok_Branch)
      note drained = drainStack_below[OF this, of "add found' (exact c)"]
      have "below c = {i. \<exists>t q. prefix ?p q \<and> i \<in> ?own t q}"
      proof
        show "below c \<subseteq> {i. \<exists>t q. prefix ?p q \<and> i \<in> ?own t q}"
          unfolding below_def c[symmetric] by (auto intro: prefixI)
        show "{i. \<exists>t q. prefix ?p q \<and> i \<in> ?own t q} \<subseteq> below c"
          by (auto elim!: prefixE simp: c intro: belowI)
      qed
      then have "reach ?own True ?p = above ?own ?p \<union> below c" using reach_tree[OF ne, of ?own] by simp
      moreover have "?own True ?p \<subseteq> above ?own ?p" using ne by (auto simp: above_def)
      moreover have "set found' = set found \<union> set (ci_globs ix) \<union> above ?own ?p" using s by (simp add: above_def Un_assoc)
      ultimately have "set ?drained = set found \<union> {i. \<exists>f. (i, f) \<in> ps \<and> candidate nfc e f}"
        using ex tr drained below_children[OF ok] False unfolding here by auto
      then show thesis using that[of ?drained] w Some e False s drained by (simp add: Let_def)
    qed
  qed
qed

lemma selectFrom_set:
  assumes "index_inv nfc ps ix" "distinct found" "set found \<subseteq> fst ` ps"
  shows "sorted (selectFrom nfc ix entries found) \<and> distinct (selectFrom nfc ix entries found)
     \<and> set (selectFrom nfc ix entries found) = set found \<union> {i. \<exists>f. (i, f) \<in> ps \<and> (\<exists>e \<in> set entries. candidate nfc e f)}"
  using assms(2,3)
proof (induction entries arbitrary: found)
  case Nil
  then show ?case by (simp add: ordered_def)
next
  case (Cons e entries)
  show ?case
  proof (cases "isGlob e")
    case True
    then have "{i. \<exists>f. (i, f) \<in> ps \<and> (\<exists>e \<in> set (e # entries). candidate nfc e f)} = fst ` ps"
      by (force simp: candidate_def image_iff)
    then show ?thesis using assms(1) Cons.prems True by (simp add: index_inv_def ordered_def Un_absorb1)
  next
    case False
    obtain found' where f': "selectFrom nfc ix (e # entries) found = selectFrom nfc ix entries found'"
      "set found' = set found \<union> {i. \<exists>f. (i, f) \<in> ps \<and> candidate nfc e f}" "distinct found' = distinct found"
      by (rule selectFrom_entry[OF assms(1) False, of entries found])
    have "set found' \<subseteq> fst ` ps" using f'(2) Cons.prems(2) by force
    note IH = Cons.IH[OF f'(3)[THEN iffD2, OF Cons.prems(1)] this]
    have "{i. \<exists>f. (i, f) \<in> ps \<and> (\<exists>e' \<in> set (e # entries). candidate nfc e' f)}
        = {i. \<exists>f. (i, f) \<in> ps \<and> candidate nfc e f} \<union> {i. \<exists>f. (i, f) \<in> ps \<and> (\<exists>e' \<in> set entries. candidate nfc e' f)}"
      by auto
    then show ?thesis using IH unfolding f'(1,2) by (simp only: Un_assoc)
  qed
qed

lemma candidates_set:
  "candidates nfc (make_candidates nfc produced) entries
   = filter (\<lambda>i. list_ex (\<lambda>e. list_ex (candidate nfc e) (produced ! i)) entries) [0..<length produced]"
proof (rule sorted_distinct_set_unique)
  note s = selectFrom_set[OF make_candidates_inv[of nfc produced], of "[]" entries, folded candidates_def]
  show "sorted (candidates nfc (make_candidates nfc produced) entries)"
    and "distinct (candidates nfc (make_candidates nfc produced) entries)" using s by simp_all
  show "set (candidates nfc (make_candidates nfc produced) entries)
      = set (filter (\<lambda>i. list_ex (\<lambda>e. list_ex (candidate nfc e) (produced ! i)) entries) [0..<length produced])"
    using s by (auto simp: list_ex_iff)
qed (simp_all add: sorted_wrt_filter)

end
