(* ===== verification/File_Set_Properties.thy ===== *)
theory File_Set_Properties
  imports Effect_Candidates
begin

text \<open>
  The properties of filesystem declarations: a literal search is the naive one, a compiled pattern means what its
  recursive reading says, overlap is sound, and the candidate index selects what overlap asks for.
\<close>

text \<open>
  The Knuth-Morris-Pratt search always ends and finds what the naive search finds: the table of every literal is
  built, and the search of a non-empty literal returns the end of its first occurrence in the given part of the path.
\<close>

theorem literalSearch_is_naive:
  "\<exists>fallback. fallbackTable (c # literal) = Some fallback \<and>
     literalSearch (c # literal) fallback path start stop
       = Some (map_option (\<lambda>k. start + k) (firstEnd (c # literal) (take (stop - start) (drop start path))))"
  using fallbackTable_table[of "c # literal"] literalSearch_naive[of "c # literal"] by blast

text \<open>
  (C27) Matching a path against a pattern always ends and answers the recursive reading of the pattern: a star takes any
  text within a segment, a final double star everything that is left, any other double star zero or more
  non-empty segments.  The map of compiled matchers never changes an answer.
\<close>

theorem matchesPattern_meets_spec:
  assumes "matchers_ok matchers"
  shows "\<exists>matchers'. matchesPattern nfc pattern path matchers
      = (Some (pathGlob (js_split slash (canonical nfc pattern)) (js_split slash path)), matchers') \<and> matchers_ok matchers'"
  using matchesPattern_answers[OF assms, of nfc pattern path] by (auto simp: answers_def patternGlob_def intro!: exI[of _ "snd _"] prod_eqI)

theorem matchesPattern_meets_spec_witness:
  "fst (matchesPattern id (js ''src/**/*.t*s'') (js ''src/lib/a.test.ts'') []) = Some True"
proof -
  have "pathGlob (js_split slash (canonical id (js ''src/**/*.t*s''))) (js_split slash (js ''src/lib/a.test.ts''))"
    by code_simp
  then show ?thesis
    using matchesPattern_meets_spec[OF matchers_ok_Nil, of id "js ''src/**/*.t*s''" "js ''src/lib/a.test.ts''"] by auto
qed

text \<open>
  (C26) Overlap is sound, symmetric and, away from globs, exact: a negative answer proves that no canonical path
  belongs to both declarations, and a positive answer that does not rest on the blanket answer for a glob against
  a glob or a tree has a path that belongs to both.
\<close>

theorem overlaps_sound:
  assumes "matchers_ok matchers"
  shows "\<exists>b. fst (overlaps nfc l r matchers) = Some b \<and> fst (overlaps nfc r l matchers) = Some b
     \<and> (\<not> b \<longrightarrow> {path. owns nfc l path} \<inter> {path. owns nfc r path} = {})
     \<and> (b \<and> (isGlob l \<longrightarrow> isExact r) \<and> (isGlob r \<longrightarrow> isExact l) \<longrightarrow> {path. owns nfc l path} \<inter> {path. owns nfc r path} \<noteq> {})"
proof (intro exI conjI impI)
  let ?b = "mayOverlap nfc l r"
  show "fst (overlaps nfc l r matchers) = Some ?b" using overlaps_answers[OF assms] by (simp add: answers_def)
  show "fst (overlaps nfc r l matchers) = Some ?b" using overlaps_answers[OF assms, of nfc r l] unfolding answers_def mayOverlap_sym[of nfc r l] by simp
  show "{path. owns nfc l path} \<inter> {path. owns nfc r path} = {}" if "\<not> ?b" using that overlap_sound by blast
  show "{path. owns nfc l path} \<inter> {path. owns nfc r path} \<noteq> {}" if "?b \<and> (isGlob l \<longrightarrow> isExact r) \<and> (isGlob r \<longrightarrow> isExact l)"
    using that overlap_exact[of l r nfc] by (cases l; cases r) (auto simp: isGlob_def isExact_def)
qed

definition distTree :: file_entry where "distTree = Tree_artifact (js ''dist'')"
definition distFile :: file_entry where "distFile = File_pattern (js ''dist2/a.js'')"

theorem overlaps_sound_witness:
  "{path. owns id distTree path} \<inter> {path. owns id distFile path} = {}"
proof -
  have "fst (overlaps id distTree distFile []) = Some False" by code_simp
  then show ?thesis using overlaps_sound[OF matchers_ok_Nil, of id distTree distFile] by auto
qed

text \<open>
  (C25) The candidate index is exact: a query selects, in declaration order and once each, the producers with an entry
  that overlaps a queried one or where one of the two is a glob.  No overlapping producer is missed.
\<close>

theorem candidates_exact:
  "candidates nfc (make_candidates nfc produced) entries
   = filter (\<lambda>i. list_ex (\<lambda>e. list_ex (\<lambda>f. isGlob e \<or> isGlob f \<or> fst (overlaps nfc e f []) = Some True) (produced ! i)) entries)
       [0..<length produced]"
proof -
  have "fst (overlaps nfc e f []) = Some True \<longleftrightarrow> mayOverlap nfc e f" for e f
    using overlaps_answers[OF matchers_ok_Nil, of nfc e f] by (simp add: answers_def)
  then show ?thesis by (simp add: candidates_set candidate_def[abs_def])
qed

end
