(* ===== verification/Scheduling.thy ===== *)
theory Scheduling
  imports Prelude "HOL-Library.Multiset" "HOL-Library.Product_Lexorder"
begin

text \<open>
  Ready-work admission (\<open>packages/smithers/flows/plan/src/Scheduling.ts\<close>).  The policy only asks of a number whether
  it is a safe integer, so a number is an integer or something else.  Sums of a priority and an age are \<open>BigInt\<close>s; every
  other sum and difference stays within the exact range of a double.
\<close>

section \<open>Model\<close>

datatype js_integer = Whole (wholeOf: int) | Not_whole

definition maxSafeInteger :: int where
  "maxSafeInteger = 2 ^ 53 - 1"

definition isSafeInteger :: "js_integer \<Rightarrow> bool" where
  "isSafeInteger value = (case value of Whole v \<Rightarrow> \<bar>v\<bar> \<le> maxSafeInteger | Not_whole \<Rightarrow> False)"

datatype range_error = RangeError ustring

record concurrency =
  cc_steps :: "js_integer option"
  cc_agents :: "js_integer option"

record usage =
  us_steps :: js_integer
  us_agents :: js_integer

record plan_candidate =
  ca_id :: ustring
  ca_kind :: ustring
  ca_priority :: js_integer
  ca_order :: js_integer
  ca_waited :: js_integer

record admission =
  ad_admitted :: "plan_candidate list"
  ad_deferred :: "plan_candidate list"
  ad_agents :: nat

text \<open>\<open>integer\<close>: the value, or the error thrown.\<close>

definition integer :: "ustring \<Rightarrow> js_integer \<Rightarrow> int \<Rightarrow> range_error + int" where
  "integer name value minimum =
     (if \<not> isSafeInteger value \<or> wholeOf value < minimum
      then Inl (RangeError (name @ js '' must be a '' @ (if minimum = 1 then js ''positive'' else js ''non-negative'') @ js '' safe integer''))
      else Inr (wholeOf value))"

definition make_policy :: "concurrency \<Rightarrow> range_error + int \<times> int" where
  "make_policy c =
     (case integer (js ''concurrency.steps'') (case cc_steps c of None \<Rightarrow> Whole maxSafeInteger | Some n \<Rightarrow> n) 1 of
        Inl e \<Rightarrow> Inl e
      | Inr steps \<Rightarrow>
          (case integer (js ''concurrency.agents'') (case cc_agents c of None \<Rightarrow> Whole maxSafeInteger | Some n \<Rightarrow> n) 1 of
             Inl e \<Rightarrow> Inl e
           | Inr agents \<Rightarrow> Inr (steps, agents)))"

definition isAgent :: "plan_candidate \<Rightarrow> bool" where
  "isAgent candidate = (ca_kind candidate = js ''agent'')"

text \<open>The callback of \<open>ready.map\<close> with its two sets.\<close>

fun rankLoop :: "ustring list \<Rightarrow> int list \<Rightarrow> plan_candidate list \<Rightarrow> range_error + (plan_candidate \<times> int) list" where
  "rankLoop ids positions [] = Inr []"
| "rankLoop ids positions (candidate # rest) =
     (case integer (js ''candidate.order'') (ca_order candidate) 0 of Inl e \<Rightarrow> Inl e | Inr order \<Rightarrow>
      case integer (js ''candidate.waited'') (ca_waited candidate) 0 of Inl e \<Rightarrow> Inl e | Inr waited \<Rightarrow>
      if \<not> isSafeInteger (ca_priority candidate) then Inl (RangeError (js ''candidate.priority must be a safe integer''))
      else if ca_kind candidate \<noteq> js ''step'' \<and> ca_kind candidate \<noteq> js ''agent'' \<and> ca_kind candidate \<noteq> js ''merge''
      then Inl (RangeError (js ''invalid candidate kind''))
      else if ca_id candidate = [] \<or> ca_id candidate \<in> set ids
      then Inl (RangeError (js ''candidate ids must be non-empty and unique''))
      else if order \<in> set positions then Inl (RangeError (js ''candidate plan positions must be unique''))
      else map_sum id (\<lambda>ranked. (candidate, wholeOf (ca_priority candidate) + waited) # ranked)
             (rankLoop (ids @ [ca_id candidate]) (positions @ [order]) rest))"

text \<open>The order of the comparator: higher priority first, ties by plan position.\<close>

definition rankKey :: "plan_candidate \<times> int \<Rightarrow> int \<times> int" where
  "rankKey ranked = (- snd ranked, wholeOf (ca_order (fst ranked)))"

definition aged :: "plan_candidate \<Rightarrow> plan_candidate" where
  "aged candidate = candidate\<lparr>ca_waited := Whole (min maxSafeInteger (wholeOf (ca_waited candidate) + 1))\<rparr>"

text \<open>The admission loop; \<open>steps\<close> and \<open>agents\<close> are the permits that are free.\<close>

fun admitLoop :: "int \<Rightarrow> int \<Rightarrow> plan_candidate list \<Rightarrow> admission \<Rightarrow> admission" where
  "admitLoop freeSteps freeAgents [] a = a"
| "admitLoop freeSteps freeAgents (candidate # rest) a =
     (if int (length (ad_admitted a)) \<ge> freeSteps \<or> isAgent candidate \<and> int (ad_agents a) \<ge> freeAgents
      then admitLoop freeSteps freeAgents rest (a\<lparr>ad_deferred := ad_deferred a @ [aged candidate]\<rparr>)
      else admitLoop freeSteps freeAgents rest
             (a\<lparr>ad_admitted := ad_admitted a @ [candidate], ad_agents := (if isAgent candidate then ad_agents a + 1 else ad_agents a)\<rparr>))"

definition admit :: "int \<times> int \<Rightarrow> plan_candidate list \<Rightarrow> usage \<Rightarrow> range_error + admission" where
  "admit limits ready active =
     (case integer (js ''active.steps'') (us_steps active) 0 of Inl e \<Rightarrow> Inl e | Inr activeSteps \<Rightarrow>
      case integer (js ''active.agents'') (us_agents active) 0 of Inl e \<Rightarrow> Inl e | Inr activeAgents \<Rightarrow>
      if activeAgents > activeSteps then Inl (RangeError (js ''active.agents cannot exceed active.steps''))
      else map_sum id (\<lambda>ranked. admitLoop (fst limits - activeSteps) (snd limits - activeAgents) (map fst (sort_key rankKey ranked))
                 \<lparr>ad_admitted = [], ad_deferred = [], ad_agents = 0\<rparr>)
             (rankLoop [] [] ready))"

section \<open>Lemmas\<close>

definition valid_candidate :: "plan_candidate \<Rightarrow> bool" where
  "valid_candidate c = (isSafeInteger (ca_order c) \<and> 0 \<le> wholeOf (ca_order c) \<and> isSafeInteger (ca_waited c) \<and> 0 \<le> wholeOf (ca_waited c)
     \<and> isSafeInteger (ca_priority c) \<and> ca_kind c \<in> {js ''step'', js ''agent'', js ''merge''} \<and> ca_id c \<noteq> [])"

text \<open>The effective priority and the total order of the admission.\<close>

definition urgency :: "plan_candidate \<Rightarrow> int" where
  "urgency c = wholeOf (ca_priority c) + wholeOf (ca_waited c)"

definition ranks_before :: "plan_candidate \<Rightarrow> plan_candidate \<Rightarrow> bool" where
  "ranks_before a b = (urgency b < urgency a \<or> urgency a = urgency b \<and> wholeOf (ca_order a) < wholeOf (ca_order b))"

lemma integer_Inr: "integer name value minimum = Inr v \<longleftrightarrow> isSafeInteger value \<and> minimum \<le> wholeOf value \<and> v = wholeOf value"
  by (auto simp: integer_def)

lemma integer_cases: "integer name value minimum = Inr (wholeOf value) \<or> (\<exists>e. integer name value minimum = Inl e)"
  by (auto simp: integer_def)

lemma rankLoop_Inr:
  "rankLoop ids positions ready = Inr ranked \<longleftrightarrow> ranked = map (\<lambda>c. (c, urgency c)) ready \<and> list_all valid_candidate ready
     \<and> distinct (map ca_id ready) \<and> distinct (map (wholeOf \<circ> ca_order) ready)
     \<and> set (map ca_id ready) \<inter> set ids = {} \<and> set (map (wholeOf \<circ> ca_order) ready) \<inter> set positions = {}"
proof (induction ids positions ready arbitrary: ranked rule: rankLoop.induct)
  case (2 ids positions c rest)
  have eq: "map_sum id (\<lambda>r. x # r) y = Inr z \<longleftrightarrow> (\<exists>r. y = Inr r \<and> z = x # r)" for x :: "plan_candidate \<times> int" and y :: "range_error + (plan_candidate \<times> int) list" and z
    by (cases y) auto
  show ?case
  proof (cases "valid_candidate c \<and> ca_id c \<notin> set ids \<and> wholeOf (ca_order c) \<notin> set positions")
    case True
    then have o: "integer (js ''candidate.order'') (ca_order c) 0 = Inr (wholeOf (ca_order c))"
      and w: "integer (js ''candidate.waited'') (ca_waited c) 0 = Inr (wholeOf (ca_waited c))"
      by (simp_all add: integer_Inr valid_candidate_def)
    have "rankLoop ids positions (c # rest) = map_sum id (\<lambda>r. (c, urgency c) # r) (rankLoop (ids @ [ca_id c]) (positions @ [wholeOf (ca_order c)]) rest)"
      using True o w by (auto simp: valid_candidate_def urgency_def)
    then show ?thesis
      using True 2[OF o w] by (auto simp: eq valid_candidate_def)
  next
    case False
    then have "\<exists>e. rankLoop ids positions (c # rest) = Inl e"
      by (auto simp: valid_candidate_def integer_def split: sum.split)
    then show ?thesis using False by auto
  qed
qed auto

lemma admit_Inr:
  "admit limits ready active = Inr a \<longleftrightarrow>
     isSafeInteger (us_steps active) \<and> isSafeInteger (us_agents active) \<and> 0 \<le> wholeOf (us_agents active)
     \<and> wholeOf (us_agents active) \<le> wholeOf (us_steps active) \<and> list_all valid_candidate ready
     \<and> distinct (map ca_id ready) \<and> distinct (map (wholeOf \<circ> ca_order) ready)
     \<and> a = admitLoop (fst limits - wholeOf (us_steps active)) (snd limits - wholeOf (us_agents active))
             (map fst (sort_key rankKey (map (\<lambda>c. (c, urgency c)) ready))) \<lparr>ad_admitted = [], ad_deferred = [], ad_agents = 0\<rparr>"
proof (cases "integer (js ''active.steps'') (us_steps active) 0 = Inr (wholeOf (us_steps active))
    \<and> integer (js ''active.agents'') (us_agents active) 0 = Inr (wholeOf (us_agents active))")
  case True
  then have safe: "isSafeInteger (us_steps active)" "isSafeInteger (us_agents active)" "0 \<le> wholeOf (us_agents active)"
    by (auto simp: integer_Inr)
  let ?ranked = "map (\<lambda>c. (c, urgency c)) ready"
  let ?go = "\<lambda>ranked. admitLoop (fst limits - wholeOf (us_steps active)) (snd limits - wholeOf (us_agents active))
      (map fst (sort_key rankKey ranked)) \<lparr>ad_admitted = [], ad_deferred = [], ad_agents = 0\<rparr>"
  have eq: "admit limits ready active = (if wholeOf (us_agents active) > wholeOf (us_steps active)
      then Inl (RangeError (js ''active.agents cannot exceed active.steps'')) else map_sum id ?go (rankLoop [] [] ready))"
    using True by (simp add: admit_def)
  show ?thesis
  proof (cases "rankLoop [] [] ready")
    case (Inl e)
    then show ?thesis using rankLoop_Inr[of "[]" "[]" ready ?ranked] eq by auto
  next
    case (Inr ranked)
    then have "ranked = ?ranked" "list_all valid_candidate ready" "distinct (map ca_id ready)" "distinct (map (wholeOf \<circ> ca_order) ready)"
      using rankLoop_Inr[of "[]" "[]" ready ranked] by simp_all
    then show ?thesis unfolding eq Inr using safe by (auto simp del: map_map)
  qed
next
  case False
  then have "\<exists>e. admit limits ready active = Inl e"
    using integer_cases[of "js ''active.steps''" "us_steps active" 0] integer_cases[of "js ''active.agents''" "us_agents active" 0]
    by (auto simp: admit_def split: sum.split)
  then show ?thesis using False by (auto simp: integer_Inr)
qed

lemma sorted_ranked:
  assumes "distinct (map (wholeOf \<circ> ca_order) ready)"
  shows "sorted_wrt ranks_before (map fst (sort_key rankKey (map (\<lambda>c. (c, urgency c)) ready)))"
proof -
  let ?xs = "sort_key rankKey (map (\<lambda>c. (c, urgency c)) ready)"
  have "distinct (map (wholeOf \<circ> ca_order \<circ> fst) (map (\<lambda>c. (c, urgency c)) ready))" using assms by (simp add: comp_def)
  moreover have "mset (map (wholeOf \<circ> ca_order \<circ> fst) ?xs) = mset (map (wholeOf \<circ> ca_order \<circ> fst) (map (\<lambda>c. (c, urgency c)) ready))"
    by (simp only: mset_map mset_sort)
  ultimately have d: "distinct (map (wholeOf \<circ> ca_order \<circ> fst) ?xs)" by (metis mset_eq_imp_distinct_iff)
  have s: "sorted (map rankKey ?xs)" by simp
  have u: "\<forall>x \<in> set ?xs. snd x = urgency (fst x)" by auto
  have "sorted_wrt ranks_before (map fst xs)"
    if "sorted (map rankKey xs)" "distinct (map (wholeOf \<circ> ca_order \<circ> fst) xs)" "\<forall>x \<in> set xs. snd x = urgency (fst x)" for xs
    using that
  proof (induction xs)
    case (Cons x xs)
    have "ranks_before (fst x) (fst y)" if y: "y \<in> set xs" for y
    proof -
      have "rankKey x \<le> rankKey y" using Cons.prems(1) y by simp
      moreover have "wholeOf (ca_order (fst x)) \<noteq> wholeOf (ca_order (fst y))" using Cons.prems(2) y by (auto simp: image_iff)
      ultimately show ?thesis using Cons.prems(3) y by (auto simp: rankKey_def ranks_before_def less_eq_prod_def)
    qed
    then show ?case using Cons by auto
  qed simp
  from this[OF s d u] show ?thesis .
qed

lemma subseq_sorted_wrt: "subseq ys xs \<Longrightarrow> sorted_wrt P xs \<Longrightarrow> sorted_wrt P ys"
  by (induction rule: list_emb.induct) (auto dest: list_emb_set)

lemma ranks_before_asym: "ranks_before a b \<Longrightarrow> \<not> ranks_before b a"
  by (auto simp: ranks_before_def)

text \<open>What a run of the loop adds to an admission, with the permits it starts from.\<close>

definition run_ok :: "int \<Rightarrow> int \<Rightarrow> plan_candidate list \<Rightarrow> admission \<Rightarrow> plan_candidate list \<Rightarrow> plan_candidate list \<Rightarrow> admission \<Rightarrow> bool" where
  "run_ok freeSteps freeAgents cs a adm passed a' =
     (ad_admitted a' = ad_admitted a @ adm \<and> ad_deferred a' = ad_deferred a @ map aged passed
     \<and> mset cs = mset adm + mset passed \<and> subseq adm cs \<and> subseq passed cs
     \<and> ad_agents a' = ad_agents a + length (filter isAgent adm)
     \<and> (adm \<noteq> [] \<longrightarrow> int (length (ad_admitted a')) \<le> freeSteps)
     \<and> (filter isAgent adm \<noteq> [] \<longrightarrow> int (ad_agents a') \<le> freeAgents)
     \<and> (\<forall>c \<in> set passed. int (length (ad_admitted a')) \<ge> freeSteps \<or> isAgent c \<and> int (ad_agents a') \<ge> freeAgents)
     \<and> (sorted_wrt ranks_before cs \<longrightarrow> (\<forall>c \<in> set passed. \<forall>x \<in> set adm. ranks_before c x \<longrightarrow> isAgent c \<and> \<not> isAgent x)))"

lemma admitLoop_run: "\<exists>adm passed. run_ok freeSteps freeAgents cs a adm passed (admitLoop freeSteps freeAgents cs a)"
proof (induction freeSteps freeAgents cs a rule: admitLoop.induct)
  case (1 freeSteps freeAgents a)
  show ?case by (intro exI[of _ "[]"]) (simp add: run_ok_def)
next
  case (2 freeSteps freeAgents c rest a)
  show ?case
  proof (cases "int (length (ad_admitted a)) \<ge> freeSteps \<or> isAgent c \<and> int (ad_agents a) \<ge> freeAgents")
    case True
    let ?a = "a\<lparr>ad_deferred := ad_deferred a @ [aged c]\<rparr>"
    obtain adm passed where r: "run_ok freeSteps freeAgents rest ?a adm passed (admitLoop freeSteps freeAgents rest ?a)"
      using 2(1)[OF True] by blast
    have none: "adm = []" if "int (length (ad_admitted a)) \<ge> freeSteps" using r that by (cases adm) (auto simp: run_ok_def)
    have noagent: "\<not> isAgent x" if "int (ad_agents a) \<ge> freeAgents" "x \<in> set adm" for x
    proof
      assume "isAgent x"
      then have "filter isAgent adm \<noteq> []" using that(2) by (auto simp: filter_empty_conv)
      moreover from this have "0 < length (filter isAgent adm)" by simp
      moreover have "int (ad_agents a + length (filter isAgent adm)) \<le> freeAgents"
        using r \<open>filter isAgent adm \<noteq> []\<close> by (simp add: run_ok_def)
      ultimately show False using that(1) by linarith
    qed
    have "run_ok freeSteps freeAgents (c # rest) a adm (c # passed) (admitLoop freeSteps freeAgents rest ?a)"
      unfolding run_ok_def
    proof (intro conjI impI)
      show "subseq adm (c # rest)" using r by (simp add: run_ok_def list_emb_Cons)
      show "\<forall>c \<in> set (c # passed). \<forall>x \<in> set adm. ranks_before c x \<longrightarrow> isAgent c \<and> \<not> isAgent x" if "sorted_wrt ranks_before (c # rest)"
      proof (intro ballI impI)
        fix p x assume p: "p \<in> set (c # passed)" and x: "x \<in> set adm" and before: "ranks_before p x"
        have "adm \<noteq> []" using x by auto
        then have agents: "isAgent c \<and> int (ad_agents a) \<ge> freeAgents" using True none by blast
        show "isAgent p \<and> \<not> isAgent x"
        proof (cases "p = c")
          case False
          then have "p \<in> set passed" "sorted_wrt ranks_before rest" using p that by auto
          then show ?thesis using r x before unfolding run_ok_def by blast
        qed (use agents noagent x in blast)
      qed
    qed (use r True in \<open>auto simp: run_ok_def\<close>)
    then show ?thesis using True by auto
  next
    case False
    let ?a = "a\<lparr>ad_admitted := ad_admitted a @ [c], ad_agents := (if isAgent c then ad_agents a + 1 else ad_agents a)\<rparr>"
    obtain adm passed where r: "run_ok freeSteps freeAgents rest ?a adm passed (admitLoop freeSteps freeAgents rest ?a)"
      using 2(2)[OF False] by blast
    have sub: "set passed \<subseteq> set rest" using r by (auto simp: run_ok_def dest: set_mset_mono list_emb_set)
    have "run_ok freeSteps freeAgents (c # rest) a (c # adm) passed (admitLoop freeSteps freeAgents rest ?a)"
      unfolding run_ok_def
    proof (intro conjI impI)
      show "subseq passed (c # rest)" using r by (simp add: run_ok_def list_emb_Cons)
      show "int (length (ad_admitted (admitLoop freeSteps freeAgents rest ?a))) \<le> freeSteps"
        using r False by (cases adm) (auto simp: run_ok_def)
      show "int (ad_agents (admitLoop freeSteps freeAgents rest ?a)) \<le> freeAgents" if "filter isAgent (c # adm) \<noteq> []"
        using r False that by (cases "filter isAgent adm = []") (auto simp: run_ok_def split: if_splits)
      show "\<forall>p \<in> set passed. \<forall>x \<in> set (c # adm). ranks_before p x \<longrightarrow> isAgent p \<and> \<not> isAgent x" if "sorted_wrt ranks_before (c # rest)"
      proof (intro ballI impI)
        fix p x assume p: "p \<in> set passed" and x: "x \<in> set (c # adm)" and before: "ranks_before p x"
        have "ranks_before c p" using that p sub by auto
        then have "x \<in> set adm" using x before ranks_before_asym by auto
        moreover have "sorted_wrt ranks_before rest" using that by simp
        ultimately show "isAgent p \<and> \<not> isAgent x" using r p before unfolding run_ok_def by blast
      qed
    qed (use r in \<open>auto simp: run_ok_def\<close>)
    then show ?thesis unfolding admitLoop.simps(2) if_not_P[OF False] by blast
  qed
qed

section \<open>Admission\<close>

text \<open>
  (C30) An admission pass loses no candidate, keeps to the free permits, and is fair: candidates go by urgency, the sum of
  priority and age, with ties by plan position; whoever is passed over found the steps used up or is an agent
  that found the agents used up; and only an agent is overtaken, by work that is not an agent.  The pass refuses exactly
  the states that are not valid.
\<close>

theorem admission_is_fair:
  "(case admit (steps, agents) ready active of
      Inl e \<Rightarrow> \<not> (isSafeInteger (us_steps active) \<and> isSafeInteger (us_agents active) \<and> 0 \<le> wholeOf (us_agents active)
          \<and> wholeOf (us_agents active) \<le> wholeOf (us_steps active) \<and> list_all valid_candidate ready
          \<and> distinct (map ca_id ready) \<and> distinct (map (wholeOf \<circ> ca_order) ready))
    | Inr a \<Rightarrow> (\<exists>passed. ad_deferred a = map aged passed \<and> mset (ad_admitted a) + mset passed = mset ready
        \<and> sorted_wrt ranks_before (ad_admitted a) \<and> sorted_wrt ranks_before passed
        \<and> int (length (ad_admitted a)) \<le> max 0 (steps - wholeOf (us_steps active))
        \<and> ad_agents a = length (filter isAgent (ad_admitted a)) \<and> int (ad_agents a) \<le> max 0 (agents - wholeOf (us_agents active))
        \<and> list_all (\<lambda>c. int (length (ad_admitted a)) \<ge> steps - wholeOf (us_steps active)
             \<or> isAgent c \<and> int (ad_agents a) \<ge> agents - wholeOf (us_agents active)) passed
        \<and> {(c, x). c \<in> set passed \<and> x \<in> set (ad_admitted a) \<and> ranks_before c x} \<subseteq> {(c, x). isAgent c \<and> \<not> isAgent x}))"
proof (cases "admit (steps, agents) ready active")
  case (Inl e)
  then show ?thesis using admit_Inr[of "(steps, agents)" ready active] by (simp, blast)
next
  case (Inr a)
  let ?cs = "map fst (sort_key rankKey (map (\<lambda>c. (c, urgency c)) ready))"
  note valid = Inr[unfolded admit_Inr]
  have sorted: "sorted_wrt ranks_before ?cs" using sorted_ranked valid by blast
  have "mset ?cs = image_mset fst (mset (map (\<lambda>c. (c, urgency c)) ready))" by (simp only: mset_map mset_sort)
  also have "\<dots> = mset (map fst (map (\<lambda>c. (c, urgency c)) ready))" by (simp only: mset_map)
  also have "\<dots> = mset ready" by (simp only: map_map comp_def fst_conv map_ident)
  finally have cs: "mset ?cs = mset ready" .
  obtain adm passed where r: "run_ok (steps - wholeOf (us_steps active)) (agents - wholeOf (us_agents active)) ?cs
      \<lparr>ad_admitted = [], ad_deferred = [], ad_agents = 0\<rparr> adm passed a"
    using admitLoop_run valid by (metis fst_conv snd_conv)
  then have "sorted_wrt ranks_before adm" "sorted_wrt ranks_before passed"
    using sorted by (auto simp: run_ok_def intro: subseq_sorted_wrt)
  then show ?thesis using r sorted cs unfolding Inr
    by (auto simp: run_ok_def list_all_iff intro!: exI[of _ passed])
qed

end
