(* ===== verification/Effect_Boundary.thy ===== *)
theory Effect_Boundary
  imports Time_Travel_Store "HOL-Library.Multiset"
begin

text \<open>
  The journaled boundary of effects (\<open>packages/smithers/flows/time-travel/src/EffectBoundary.ts\<close>): the guard that runs an
  action between two durable records, the decoding of these records and the fold that rebuilds one record per effect.
  The journal's \<open>emitDurable\<close> is an argument over an abstract journal state, the action a function on the world it changes,
  and the schema codecs are arguments; an absent key is \<open>None\<close>.
\<close>

section \<open>Records\<close>

datatype boundary_tier = Sealed_tier | Compensable_tier | Irreversible_tier

datatype effect_status = Intended | Succeeded | Unknown_outcome

record effect_fields =
  ef_id :: ustring
  ef_kind :: ustring
  ef_tier :: boundary_tier
  ef_runId :: ustring
  ef_lineageId :: ustring
  ef_input :: "json option"
  ef_cacheKey :: "ustring option"
  ef_changeId :: "ustring option"
  ef_idempotencyKey :: "ustring option"
  ef_compensation :: "ustring option"
  ef_residue :: "ustring option"
  ef_attempt :: "nat option"
  ef_nonce :: "ustring option"

record effect_record = effect_fields +
  er_status :: effect_status
  er_seq :: nat
  er_output :: "json option"
  er_durableBoundary :: bool
  er_providerStream :: bool

record effect_description = effect_fields +
  de_owner :: owner_id
  de_sourceId :: ustring
  de_sourceSeq :: nat
  de_durableBoundary :: "bool option"
  de_providerStream :: "bool option"
  de_metadata :: "json option"

record boundary_record = effect_fields +
  br_status :: effect_status
  br_output :: "json option"
  br_durableBoundary :: "bool option"
  br_providerStream :: "bool option"

definition boundaryEventType :: ustring where
  "boundaryEventType = js ''flows.time-travel.effect-boundary''"

definition statusText :: "effect_status \<Rightarrow> ustring" where
  "statusText status = (case status of Intended \<Rightarrow> js ''intended'' | Succeeded \<Rightarrow> js ''succeeded'' | Unknown_outcome \<Rightarrow> js ''unknown'')"

definition tierText :: "boundary_tier \<Rightarrow> ustring" where
  "tierText tier = (case tier of Sealed_tier \<Rightarrow> js ''sealed'' | Compensable_tier \<Rightarrow> js ''compensable'' | Irreversible_tier \<Rightarrow> js ''irreversible'')"

section \<open>Emission\<close>

record boundary_event =
  be_runId :: ustring
  be_sourceId :: ustring
  be_sourceSeq :: nat
  be_eventType :: ustring
  be_effect :: boundary_record
  be_meta :: "(ustring \<times> json) list"

datatype durable_receipt = Accepted_receipt | Duplicate_receipt

text \<open>\<open>additive\<close>: \<open>isMetadata\<close> is the schema check for a record; its fields are spread.\<close>

fun spreadFields :: "json \<Rightarrow> (ustring \<times> json) list" where
  "spreadFields (JObject kvs) = kvs"
| "spreadFields (JArray xs) = map (\<lambda>(i, x). (decimal i, x)) (enumerate 0 xs)"
| "spreadFields _ = []"

definition additive :: "(json \<Rightarrow> bool) \<Rightarrow> effect_description \<Rightarrow> (ustring \<times> json) list" where
  "additive isMetadata description =
     (case de_metadata description of
        None \<Rightarrow> []
      | Some m \<Rightarrow> if isMetadata m then spreadFields m else [(js ''upstream'', m)])"

definition boundaryMetadata :: "(json \<Rightarrow> bool) \<Rightarrow> effect_description \<Rightarrow> effect_status \<Rightarrow> (ustring \<times> json) list" where
  "boundaryMetadata isMetadata description status =
     fold (\<lambda>(k, v) m. jsmap_set m k v)
       ((js ''lineageId'', JString (ef_lineageId description))
        # (case ef_cacheKey description of None \<Rightarrow> [] | Some c \<Rightarrow> [(js ''cacheKey'', JString c)])
        @ [(js ''timeTravel'', JObject
             [(js ''effectId'', JString (ef_id description)), (js ''kind'', JString (ef_kind description)),
              (js ''tier'', JString (tierText (ef_tier description))), (js ''status'', JString (statusText status))])])
       (additive isMetadata description)"

definition boundaryRecord :: "effect_description \<Rightarrow> effect_status \<Rightarrow> json option \<Rightarrow> boundary_record" where
  "boundaryRecord description status output =
     \<lparr>ef_id = ef_id description, ef_kind = ef_kind description, ef_tier = ef_tier description, ef_runId = ef_runId description,
      ef_lineageId = ef_lineageId description, ef_input = ef_input description, ef_cacheKey = ef_cacheKey description,
      ef_changeId = ef_changeId description, ef_idempotencyKey = ef_idempotencyKey description,
      ef_compensation = ef_compensation description, ef_residue = ef_residue description,
      ef_attempt = ef_attempt description, ef_nonce = ef_nonce description, br_status = status, br_output = output,
      br_durableBoundary = Some (case de_durableBoundary description of None \<Rightarrow> True | Some b \<Rightarrow> b),
      br_providerStream = Some (case de_providerStream description of None \<Rightarrow> False | Some b \<Rightarrow> b)\<rparr>"

type_synonym 'j emit_durable = "boundary_event \<Rightarrow> owner_id \<Rightarrow> 'j \<Rightarrow> (ustring + durable_receipt) \<times> 'j"

definition boundaryEvent :: "(json \<Rightarrow> bool) \<Rightarrow> effect_description \<Rightarrow> effect_status \<Rightarrow> json option \<Rightarrow> boundary_event" where
  "boundaryEvent isMetadata description status output =
     \<lparr>be_runId = ef_runId description, be_sourceId = de_sourceId description,
      be_sourceSeq = de_sourceSeq description + (if status = Intended then 0 else 1), be_eventType = boundaryEventType,
      be_effect = boundaryRecord description status output, be_meta = boundaryMetadata isMetadata description status\<rparr>"

definition emit ::
  "(json \<Rightarrow> bool) \<Rightarrow> 'j emit_durable \<Rightarrow> effect_description \<Rightarrow> effect_status \<Rightarrow> json option \<Rightarrow> 'j
    \<Rightarrow> (tt_error + durable_receipt) \<times> 'j" where
  "emit isMetadata emitDurable description status output j =
     (case emitDurable (boundaryEvent isMetadata description status output) (de_owner description) j of
        (Inl cause, j) \<Rightarrow> (Inl (TimeTravelError Unknown_failure
          (js ''could not record '' @ statusText status @ js '' boundary for effect '' @ ef_id description)), j)
      | (Inr receipt, j) \<Rightarrow> (Inr receipt, j))"

section \<open>The guard\<close>

text \<open>The schema of \<open>Description\<close> on typed fields: the non-empty strings.\<close>

definition nonEmptyOption :: "ustring option \<Rightarrow> bool" where
  "nonEmptyOption s = (s \<noteq> Some [])"

definition validDescription :: "effect_description \<Rightarrow> bool" where
  "validDescription d = (ef_id d \<noteq> [] \<and> ef_kind d \<noteq> [] \<and> ef_runId d \<noteq> [] \<and> ef_lineageId d \<noteq> [] \<and> nonEmptyOption (ef_cacheKey d)
     \<and> nonEmptyOption (ef_changeId d) \<and> nonEmptyOption (ef_idempotencyKey d) \<and> nonEmptyOption (ef_compensation d)
     \<and> nonEmptyOption (ef_nonce d) \<and> de_sourceId d \<noteq> [])"

definition maxSourceSeq :: nat where
  "maxSourceSeq = 2 ^ 53 - 1"

datatype 'c guard_exit = Guard_failed tt_error | Action_failed 'c | Action_done "json option"

text \<open>An action takes the world to its exit, a cause or a value, and to a new world.\<close>

definition guard ::
  "(json \<Rightarrow> bool) \<Rightarrow> 'j emit_durable \<Rightarrow> effect_description \<Rightarrow> ('w \<Rightarrow> ('c + json option) \<times> 'w) \<Rightarrow> 'j \<times> 'w
    \<Rightarrow> 'c guard_exit \<times> 'j \<times> 'w" where
  "guard isMetadata emitDurable description action jw =
     (case jw of (j, w) \<Rightarrow>
      if \<not> validDescription description
      then (Guard_failed (TimeTravelError Invalid_input (js ''effect boundary description is invalid'')), j, w)
      else if de_sourceSeq description = maxSourceSeq
      then (Guard_failed (TimeTravelError Invalid_input (js ''effect '' @ ef_id description @ js '' has no terminal source sequence'')), j, w)
      else if ef_tier description = Irreversible_tier \<and> ef_idempotencyKey description = None
      then (Guard_failed (TimeTravelError Invalid_input
              (js ''irreversible effect '' @ ef_id description @ js '' requires an idempotency key'')), j, w)
      else case emit isMetadata emitDurable description Intended None j of
          (Inl e, j) \<Rightarrow> (Guard_failed e, j, w)
        | (Inr Duplicate_receipt, j) \<Rightarrow>
            (Guard_failed (TimeTravelError Already_crossed
               (js ''effect '' @ ef_id description @ js '' already crossed its durable boundary; refusing to execute it again'')), j, w)
        | (Inr Accepted_receipt, j) \<Rightarrow>
            (case action w of
               (Inr value, w) \<Rightarrow>
                 (case emit isMetadata emitDurable description Succeeded value j of
                    (Inl e, j) \<Rightarrow> (Guard_failed e, j, w)
                  | (Inr receipt, j) \<Rightarrow> (Action_done value, j, w))
             | (Inl cause, w) \<Rightarrow>
                 (case emit isMetadata emitDurable description Unknown_outcome None j of
                    (ignored, j) \<Rightarrow> (Action_failed cause, j, w))))"

section \<open>Decoding\<close>

record 'p boundary_entry =
  en_eventType :: ustring
  en_eventId :: ustring
  en_seq :: nat
  en_payload :: 'p

definition decodeEntry :: "('p \<Rightarrow> boundary_record option) \<Rightarrow> 'p boundary_entry \<Rightarrow> tt_error + effect_record option" where
  "decodeEntry decodePayload entry =
     (if en_eventType entry \<noteq> boundaryEventType then Inr None
      else case decodePayload (en_payload entry) of
        None \<Rightarrow> Inl (TimeTravelError Invalid_input
          (js ''boundary event '' @ en_eventId entry @ js '' has an invalid or unsupported payload''))
      | Some e \<Rightarrow> Inr (Some
          \<lparr>ef_id = ef_id e, ef_kind = ef_kind e, ef_tier = ef_tier e, ef_runId = ef_runId e, ef_lineageId = ef_lineageId e,
           ef_input = ef_input e, ef_cacheKey = ef_cacheKey e, ef_changeId = ef_changeId e,
           ef_idempotencyKey = ef_idempotencyKey e, ef_compensation = ef_compensation e, ef_residue = ef_residue e,
           ef_attempt = ef_attempt e, ef_nonce = ef_nonce e, er_status = br_status e, er_seq = en_seq entry,
           er_output = br_output e, er_durableBoundary = (br_durableBoundary e \<noteq> Some False),
           er_providerStream = (br_providerStream e = Some True)\<rparr>))"

section \<open>The fold\<close>

datatype field_value = Text_value ustring | Count_value nat | Flag_value bool | Absent_value

definition valueText :: "field_value \<Rightarrow> ustring" where
  "valueText v = (case v of Text_value s \<Rightarrow> s | Count_value n \<Rightarrow> decimal n | Flag_value True \<Rightarrow> js ''true''
     | Flag_value False \<Rightarrow> js ''false'' | Absent_value \<Rightarrow> js ''undefined'')"

definition optionalText :: "ustring option \<Rightarrow> field_value" where
  "optionalText s = (case s of None \<Rightarrow> Absent_value | Some s \<Rightarrow> Text_value s)"

definition identityFields :: "(ustring \<times> (effect_record \<Rightarrow> field_value)) list" where
  "identityFields =
     [(js ''kind'', \<lambda>r. Text_value (ef_kind r)), (js ''tier'', \<lambda>r. Text_value (tierText (ef_tier r))),
      (js ''runId'', \<lambda>r. Text_value (ef_runId r)), (js ''lineageId'', \<lambda>r. Text_value (ef_lineageId r)),
      (js ''cacheKey'', \<lambda>r. optionalText (ef_cacheKey r)), (js ''changeId'', \<lambda>r. optionalText (ef_changeId r)),
      (js ''idempotencyKey'', \<lambda>r. optionalText (ef_idempotencyKey r)),
      (js ''compensation'', \<lambda>r. optionalText (ef_compensation r)),
      (js ''attempt'', \<lambda>r. case ef_attempt r of None \<Rightarrow> Absent_value | Some n \<Rightarrow> Count_value n),
      (js ''nonce'', \<lambda>r. optionalText (ef_nonce r)), (js ''durableBoundary'', \<lambda>r. Flag_value (er_durableBoundary r)),
      (js ''providerStream'', \<lambda>r. Flag_value (er_providerStream r))]"

definition conflict :: "ustring \<Rightarrow> ustring \<Rightarrow> tt_error" where
  "conflict effectId detail = TimeTravelError Invalid_input (js ''effect '' @ effectId @ js '' has conflicting boundary evidence: '' @ detail)"

definition groupRecord :: "effect_record \<Rightarrow> (ustring \<times> effect_record list) list \<Rightarrow> (ustring \<times> effect_record list) list" where
  "groupRecord r grouped =
     (case map_of grouped (ef_id r) of
        None \<Rightarrow> jsmap_set grouped (ef_id r) [r]
      | Some rs \<Rightarrow> jsmap_set grouped (ef_id r) (rs @ [r]))"

fun foldGroup :: "ustring \<Rightarrow> effect_record \<Rightarrow> effect_record list \<Rightarrow> tt_error + effect_record" where
  "foldGroup effectId latest [] = Inr latest"
| "foldGroup effectId latest (r # rest) =
     (case find (\<lambda>(field, value). value latest \<noteq> value r) identityFields of
        Some (field, value) \<Rightarrow> Inl (conflict effectId (field @ js '' is '' @ valueText (value latest) @ js '' at seq '' @ decimal (er_seq latest)
          @ js '' and '' @ valueText (value r) @ js '' at seq '' @ decimal (er_seq r)))
      | None \<Rightarrow>
          if er_seq r = er_seq latest
          then if er_status r \<noteq> er_status latest
            then Inl (conflict effectId (js ''records at seq '' @ decimal (er_seq r) @ js '' report both '' @ statusText (er_status latest)
                   @ js '' and '' @ statusText (er_status r)))
            else foldGroup effectId latest rest
          else if er_status latest \<noteq> Intended
          then Inl (conflict effectId (statusText (er_status r) @ js '' at seq '' @ decimal (er_seq r) @ js '' follows terminal ''
                 @ statusText (er_status latest) @ js '' at seq '' @ decimal (er_seq latest)))
          else if er_status r = Intended
          then Inl (conflict effectId (js ''intended at seq '' @ decimal (er_seq r) @ js '' repeats intended at seq '' @ decimal (er_seq latest)))
          else foldGroup effectId r rest)"

fun foldGroups :: "(ustring \<times> effect_record list) list \<Rightarrow> effect_record list \<Rightarrow> tt_error + effect_record list" where
  "foldGroups [] folded = Inr folded"
| "foldGroups ((effectId, rs) # groups) folded =
     (let rs = sort_key er_seq rs in
      case foldGroup effectId (hd rs) (tl rs) of
        Inl e \<Rightarrow> Inl e
      | Inr latest \<Rightarrow> foldGroups groups (folded @ [latest]))"

definition fromRecords :: "effect_record list \<Rightarrow> tt_error + effect_record list" where
  "fromRecords recs = map_sum id (sort_key er_seq) (foldGroups (fold groupRecord recs []) [])"

fun decodeEntries :: "('p \<Rightarrow> boundary_record option) \<Rightarrow> 'p boundary_entry list \<Rightarrow> tt_error + effect_record list" where
  "decodeEntries decodePayload [] = Inr []"
| "decodeEntries decodePayload (entry # entries) =
     (case decodeEntry decodePayload entry of
        Inl e \<Rightarrow> Inl e
      | Inr decoded \<Rightarrow> map_sum id (\<lambda>rs. (case decoded of None \<Rightarrow> rs | Some r \<Rightarrow> r # rs)) (decodeEntries decodePayload entries))"

definition fromEntries :: "('p \<Rightarrow> boundary_record option) \<Rightarrow> 'p boundary_entry list \<Rightarrow> tt_error + effect_record list" where
  "fromEntries decodePayload entries =
     (case decodeEntries decodePayload entries of Inl e \<Rightarrow> Inl e | Inr recs \<Rightarrow> fromRecords recs)"

end
