(* ===== verification/Effect_Boundary_Properties.thy ===== *)
theory Effect_Boundary_Properties
  imports Effect_Boundary
begin

text \<open>
  What boundary records prove: the fold accepts exactly the histories of one monotonic crossing per effect, and a guarded
  action runs at most once per source position.
\<close>

section \<open>Legal histories\<close>

definition agree :: "effect_record \<Rightarrow> effect_record \<Rightarrow> bool" where
  "agree a b = list_all (\<lambda>(field, value). value a = value b) identityFields"

text \<open>A later record is the terminal one of an effect whose earlier record is \<open>intended\<close>.\<close>

definition compatible :: "effect_record \<Rightarrow> effect_record \<Rightarrow> bool" where
  "compatible a b = (agree a b \<and> (er_seq a = er_seq b \<longrightarrow> er_status a = er_status b)
     \<and> (er_seq a < er_seq b \<longrightarrow> er_status a = Intended \<and> er_status b \<noteq> Intended)
     \<and> (er_seq b < er_seq a \<longrightarrow> er_status b = Intended \<and> er_status a \<noteq> Intended))"


lemma agree_refl [simp]: "agree a a"
  by (auto simp: agree_def list_all_iff)



lemma compatible_refl [simp]: "compatible a a"
  by (simp add: compatible_def)







section \<open>Grouping\<close>









section \<open>Guarded actions\<close>

text \<open>
  The contract of the durable channel: a write commits its source position once, answers a duplicate when the position
  is taken, or fails; it never takes back what is committed.
\<close>

definition position :: "boundary_event \<Rightarrow> ustring \<times> ustring \<times> nat" where
  "position ev = (be_runId ev, be_sourceId ev, be_sourceSeq ev)"

definition durable_journal :: "'j emit_durable \<Rightarrow> ('j \<Rightarrow> (ustring \<times> ustring \<times> nat) set) \<Rightarrow> bool" where
  "durable_journal emitDurable committed = (\<forall>ev owner j. case emitDurable ev owner j of
      (Inl cause, j') \<Rightarrow> committed j \<subseteq> committed j'
    | (Inr Accepted_receipt, j') \<Rightarrow> position ev \<notin> committed j \<and> committed j' = insert (position ev) (committed j)
    | (Inr Duplicate_receipt, j') \<Rightarrow> position ev \<in> committed j \<and> committed j' = committed j)"

definition crossing :: "effect_description \<Rightarrow> effect_status \<Rightarrow> ustring \<times> ustring \<times> nat" where
  "crossing d status = (ef_runId d, de_sourceId d, de_sourceSeq d + (if status = Intended then 0 else 1))"

lemma position_event [simp]: "position (boundaryEvent isMetadata d status out) = crossing d status"
  by (simp add: position_def boundaryEvent_def crossing_def)

lemma emit_law:
  assumes "durable_journal emitDurable committed" "emit isMetadata emitDurable d status out j = (x, j')"
  shows "committed j \<subseteq> committed j'" "x = Inr receipt \<Longrightarrow> crossing d status \<in> committed j'"
    "x = Inr Accepted_receipt \<Longrightarrow> crossing d status \<notin> committed j"
proof -
  let ?ev = "boundaryEvent isMetadata d status out"
  have law: "case emitDurable ?ev (de_owner d) j of
      (Inl cause, j') \<Rightarrow> committed j \<subseteq> committed j'
    | (Inr Accepted_receipt, j') \<Rightarrow> position ?ev \<notin> committed j \<and> committed j' = insert (position ?ev) (committed j)
    | (Inr Duplicate_receipt, j') \<Rightarrow> position ?ev \<in> committed j \<and> committed j' = committed j"
    using assms(1)[unfolded durable_journal_def, THEN spec, of ?ev, THEN spec, of "de_owner d", THEN spec, of j] .
  show "committed j \<subseteq> committed j'" "x = Inr receipt \<Longrightarrow> crossing d status \<in> committed j'"
    "x = Inr Accepted_receipt \<Longrightarrow> crossing d status \<notin> committed j"
    using law assms(2) by (auto simp: emit_def split: prod.splits sum.splits durable_receipt.splits)
qed

text \<open>Either nothing ran, or the intended record was accepted, the action ran once and its end was put on record.\<close>

lemma guard_cases:
  assumes "guard isMetadata emitDurable d action (j, w) = (r, j', w')"
  obtains (refused) e where "r = Guard_failed e" "w' = w"
  | (ran) j1 status out x where "emit isMetadata emitDurable d Intended None j = (Inr Accepted_receipt, j1)"
      "validDescription d" "ef_tier d = Irreversible_tier \<longrightarrow> ef_idempotencyKey d \<noteq> None" "snd (action w) = w'"
      "emit isMetadata emitDurable d status out j1 = (x, j')" "status \<noteq> Intended"
      "\<And>v. r = Action_done v \<longleftrightarrow> (\<exists>receipt. x = Inr receipt) \<and> fst (action w) = Inr v"
  using assms
  by (auto simp: guard_def split: if_splits prod.splits sum.splits durable_receipt.splits)

text \<open>
  (C14) A guarded action runs at most once per source position.  Once a guard has run its action, or reported its outcome, every
  later guard at the same position, with any description and action, fails and leaves the world alone; the first
  one has its intended record durable, a terminal one too when it reports success, and is never an irreversible effect
  without an idempotency key.
\<close>

theorem guarded_action_runs_once:
  assumes "durable_journal emitDurable committed"
    and "guard isMetadata emitDurable d action (j, w) = (r, j', w')" "w' \<noteq> w \<or> (\<nexists>e. r = Guard_failed e)"
    and "committed j' \<subseteq> committed j2" "crossing d2 Intended = crossing d Intended"
  shows "(\<exists>e j3. guard isMetadata emitDurable d2 action2 (j2, w2) = (Guard_failed e, j3, w2))
     \<and> crossing d Intended \<in> committed j' \<and> ({v. r = Action_done v} = {} \<or> crossing d Succeeded \<in> committed j')
     \<and> (ef_tier d \<noteq> Irreversible_tier \<or> ef_idempotencyKey d \<noteq> None)"
  using assms(2)
proof (cases rule: guard_cases)
  case (refused e)
  then show ?thesis using assms(3) by blast
next
  case (ran j1 status out x)
  have "crossing d Intended \<in> committed j1" using emit_law(2)[OF assms(1) ran(1)] by blast
  then have c: "crossing d Intended \<in> committed j'" using emit_law(1)[OF assms(1) ran(5)] by blast
  have tm: "crossing d Succeeded = crossing d status" using ran(6) by (simp add: crossing_def)
  have "{v. r = Action_done v} = {} \<or> crossing d Succeeded \<in> committed j'"
    unfolding tm using ran(7) emit_law(2)[OF assms(1) ran(5)] by blast
  moreover have "\<exists>e j3. guard isMetadata emitDurable d2 action2 (j2, w2) = (Guard_failed e, j3, w2)"
  proof (cases "guard isMetadata emitDurable d2 action2 (j2, w2)")
    case (fields r2 j3 w3)
    from fields show ?thesis
    proof (cases rule: guard_cases)
      case (ran j4 status out x)
      then have "crossing d2 Intended \<notin> committed j2" using emit_law(3)[OF assms(1) ran(1)] by simp
      then show ?thesis using c assms(4,5) by auto
    next
      case (refused e)
      then show ?thesis using fields by blast
    qed
  qed
  ultimately show ?thesis using c ran(3) by blast
qed

text \<open>An instance: a journal that keeps the list of its positions.\<close>

definition listJournal :: "(ustring \<times> ustring \<times> nat) list emit_durable" where
  "listJournal ev owner j = (if position ev \<in> set j then (Inr Duplicate_receipt, j) else (Inr Accepted_receipt, position ev # j))"

lemma listJournal_durable: "durable_journal listJournal set"
  by (auto simp: durable_journal_def listJournal_def)

definition sampleEffect :: effect_description where
  "sampleEffect = \<lparr>ef_id = js ''e'', ef_kind = js ''charge'', ef_tier = Irreversible_tier, ef_runId = js ''run'', ef_lineageId = js ''line'',
     ef_input = None, ef_cacheKey = None, ef_changeId = None, ef_idempotencyKey = Some (js ''key''), ef_compensation = None,
     ef_residue = None, ef_attempt = None, ef_nonce = None, de_owner = \<lparr>ow_hostId = [], ow_pid = 0, ow_nonce = []\<rparr>,
     de_sourceId = js ''source'', de_sourceSeq = 4, de_durableBoundary = None, de_providerStream = None, de_metadata = None\<rparr>"

definition charge :: "nat \<Rightarrow> (unit + json option) \<times> nat" where
  "charge n = (Inr None, n + 1)"

theorem guarded_action_runs_once_witness:
  "\<exists>e j j3. guard (\<lambda>_. True) listJournal sampleEffect charge ([], 0) = (Action_done None, j, 1)
     \<and> guard (\<lambda>_. True) listJournal sampleEffect charge (j, 1) = (Guard_failed e, j3, 1)"
proof -
  have first: "guard (\<lambda>_. True) listJournal sampleEffect charge ([], 0) = (Action_done None, [crossing sampleEffect Succeeded, crossing sampleEffect Intended], 1)"
    by (simp add: guard_def emit_def listJournal_def charge_def crossing_def sampleEffect_def validDescription_def
        nonEmptyOption_def maxSourceSeq_def js_def)
  have "(1 :: nat) \<noteq> 0 \<or> (\<nexists>e. Action_done None = (Guard_failed e :: unit guard_exit))" by simp
  from guarded_action_runs_once[OF listJournal_durable first this order_refl refl, of charge 1] first
  show ?thesis by blast
qed

end
