(* ===== verification/Effect_Handlers.thy ===== *)
theory Effect_Handlers
  imports Effect_Boundary
begin

text \<open>
  The registry of compensation handlers (\<open>packages/smithers/flows/time-travel/src/internal/EffectHandlerRegistry.ts\<close>, with the
  preflight schemas of \<open>CompensationHandlers.ts\<close>).  A handler's effects are functions on an abstract world \<open>'w\<close> that
  return an exit and a world: the exit is a failure or a value.  Rollback material is of type \<open>'d\<close>, and what other
  services fail or die with of type \<open>'x\<close>.
\<close>

section \<open>Failures\<close>

datatype classification = Revertible_effect | Warning_effect | Blocking_effect

record handler_assessment =
  as_classification :: classification
  as_reason :: ustring
  as_residue :: ustring

record blocking_summary =
  bs_id :: ustring
  bs_kind :: ustring
  bs_tier :: boundary_tier
  bs_seq :: nat
  bs_classification :: classification
  bs_reason :: ustring

text \<open>
  A cause has one reason: a \<open>TimeTravelError\<close> with its \<open>cause\<close> field, the typed failure of another service (the timeout's
  included), or a defect or interruption, which \<open>Effect.mapError\<close> leaves alone.
\<close>

datatype 'x comp_failure =
    Comp_failure (cf_error: tt_error) (cf_detail: "'x comp_detail")
  | Service_failure 'x
  | Defect 'x
and 'x comp_detail =
    No_detail
  | Blocked_by "blocking_summary list"
  | Caused "'x comp_failure"
  | Failed_operations "'x comp_failure list"
  | Compensation_detail "'x comp_failure" "'x comp_failure option"
  | Snapshot_detail "'x comp_failure" "'x comp_failure"
  | Restore_detail "'x comp_failure" "'x comp_failure option" "'x comp_failure option"

type_synonym ('w, 'x, 'a) work = "'w \<Rightarrow> ('x comp_failure + 'a) \<times> 'w"

definition plainFailure :: "tt_code \<Rightarrow> ustring \<Rightarrow> 'x comp_failure" where
  "plainFailure code message = Comp_failure (TimeTravelError code message) No_detail"

definition causedFailure :: "tt_code \<Rightarrow> ustring \<Rightarrow> 'x comp_failure \<Rightarrow> 'x comp_failure" where
  "causedFailure code message c = Comp_failure (TimeTravelError code message) (Caused c)"

text \<open>\<open>Effect.succeed\<close>, \<open>Effect.fail\<close> and \<open>Effect.mapError\<close> of the library.\<close>

definition succeed :: "'a \<Rightarrow> ('w, 'x, 'a) work" where
  "succeed a w = (Inr a, w)"

definition failWith :: "'x comp_failure \<Rightarrow> ('w, 'x, 'a) work" where
  "failWith f w = (Inl f, w)"

definition mapFailure :: "('x comp_failure \<Rightarrow> 'x comp_failure) \<Rightarrow> ('w, 'x, 'a) work \<Rightarrow> ('w, 'x, 'a) work" where
  "mapFailure g work w =
     (case work w of
        (Inl (Defect x), w) \<Rightarrow> (Inl (Defect x), w)
      | (Inl f, w) \<Rightarrow> (Inl (g f), w)
      | (Inr a, w) \<Rightarrow> (Inr a, w))"

section \<open>Handlers\<close>

record ('w, 'x, 'd) handler =
  hd_kind :: ustring
  hd_tier :: boundary_tier
  hd_requiresIdempotencyKey :: bool
  hd_compensation :: "ustring option"
  hd_residue :: "effect_record \<Rightarrow> ustring"
  hd_assess :: "(effect_record \<Rightarrow> ('w, 'x, json) work) option"
  hd_revert :: "effect_record \<Rightarrow> ('w, 'x, 'd) work"
  hd_rollback :: "effect_record \<Rightarrow> 'd \<Rightarrow> ('w, 'x, unit) work"

text \<open>A registration as untyped configuration can offer it: a member may be absent or of the wrong type.\<close>

datatype 'a member = Absent_member | Wrong_member | Member 'a

record ('w, 'x, 'd) offered_handler =
  of_kind :: "ustring member"
  of_tier :: "boundary_tier member"
  of_requiresIdempotencyKey :: "bool member"
  of_compensation :: "ustring member"
  of_residue :: "(effect_record \<Rightarrow> ustring) member"
  of_assess :: "(effect_record \<Rightarrow> ('w, 'x, json) work) option"
  of_revert :: "(effect_record \<Rightarrow> ('w, 'x, 'd) work) member"
  of_rollback :: "(effect_record \<Rightarrow> 'd \<Rightarrow> ('w, 'x, unit) work) member"

text \<open>
  \<open>validate\<close> answers the handler it was given; here the typed form of it.  The declaration is decoded first, then the
  three functions in order.
\<close>

definition validateHandler :: "('w, 'x, 'd) offered_handler \<Rightarrow> tt_error + ('w, 'x, 'd) handler" where
  "validateHandler offered =
     (let invalid = Inl (TimeTravelError Invalid_input (js ''effect handler declaration is invalid'')) in
      case (of_kind offered, of_tier offered, of_requiresIdempotencyKey offered) of
        (Member kind, Member tier, Member required) \<Rightarrow>
          (case (case of_compensation offered of Absent_member \<Rightarrow> Some None | Wrong_member \<Rightarrow> None
                 | Member c \<Rightarrow> if c = [] then None else Some (Some c)) of
             None \<Rightarrow> invalid
           | Some compensation \<Rightarrow>
               if kind = [] then invalid
               else
                 let lacks = (\<lambda>name. Inl (TimeTravelError Invalid_input
                                (js ''effect handler '' @ kind @ js '' has no '' @ name @ js '' function''))) in
                 case of_residue offered of
                   Member residue \<Rightarrow>
                     (case of_revert offered of
                        Member revert \<Rightarrow>
                          (case of_rollback offered of
                             Member rollback \<Rightarrow> Inr \<lparr>hd_kind = kind, hd_tier = tier, hd_requiresIdempotencyKey = required,
                               hd_compensation = compensation, hd_residue = residue, hd_assess = of_assess offered,
                               hd_revert = revert, hd_rollback = rollback\<rparr>
                           | _ \<Rightarrow> lacks (js ''rollback''))
                      | _ \<Rightarrow> lacks (js ''revert''))
                 | _ \<Rightarrow> lacks (js ''residue''))
      | _ \<Rightarrow> invalid)"

definition duplicateHandler :: "ustring \<Rightarrow> tt_error" where
  "duplicateHandler kind = TimeTravelError Unknown_failure (js ''effect handler '' @ kind @ js '' is already registered'')"

definition missingHandler :: "ustring \<Rightarrow> tt_error" where
  "missingHandler kind =
     TimeTravelError Irreversible_effect (js ''no compensation handler is registered for effect kind '' @ kind)"

type_synonym ('w, 'x, 'd) registry = "(ustring \<times> ('w, 'x, 'd) handler) list"

section \<open>Registration\<close>

definition register :: "('w, 'x, 'd) registry \<Rightarrow> ('w, 'x, 'd) offered_handler \<Rightarrow> tt_error + ('w, 'x, 'd) registry" where
  "register handlers offered =
     (case validateHandler offered of
        Inl e \<Rightarrow> Inl e
      | Inr valid \<Rightarrow>
          if map_of handlers (hd_kind valid) \<noteq> None then Inl (duplicateHandler (hd_kind valid))
          else Inr (jsmap_set handlers (hd_kind valid) valid))"

fun registerAll :: "('w, 'x, 'd) registry \<Rightarrow> ('w, 'x, 'd) offered_handler list \<Rightarrow> tt_error + ('w, 'x, 'd) registry" where
  "registerAll handlers [] = Inr handlers"
| "registerAll handlers (offered # rest) =
     (case validateHandler offered of
        Inl e \<Rightarrow> Inl e
      | Inr valid \<Rightarrow>
          if map_of handlers (hd_kind valid) \<noteq> None then Inl (duplicateHandler (hd_kind valid))
          else registerAll (jsmap_set handlers (hd_kind valid) valid) rest)"

definition makeRegistry :: "('w, 'x, 'd) offered_handler list \<Rightarrow> tt_error + ('w, 'x, 'd) registry" where
  "makeRegistry offered = registerAll [] offered"

definition resolve :: "('w, 'x, 'd) registry \<Rightarrow> ustring \<Rightarrow> ('w, 'x, 'd) handler option" where
  "resolve handlers kind = map_of handlers kind"

section \<open>Refusals\<close>

definition descriptorMismatch :: "('w, 'x, 'd) handler \<Rightarrow> effect_record \<Rightarrow> ustring option" where
  "descriptorMismatch h e =
     (if ef_compensation e = None \<or> hd_compensation h = ef_compensation e then None
      else let recorded = (case ef_compensation e of None \<Rightarrow> [] | Some c \<Rightarrow> c) in
        Some (case hd_compensation h of
          None \<Rightarrow> js ''Effect '' @ ef_id e @ js '' recorded compensation '' @ recorded @ js '', which handler '' @ hd_kind h
                   @ js '' does not declare.''
        | Some own \<Rightarrow> js ''Effect '' @ ef_id e @ js '' recorded compensation '' @ recorded @ js '', but handler '' @ hd_kind h
                   @ js '' implements '' @ own @ js ''.''))"

definition missingKey :: "('w, 'x, 'd) handler \<Rightarrow> effect_record \<Rightarrow> ustring option" where
  "missingKey h e =
     (if hd_requiresIdempotencyKey h \<and> ef_idempotencyKey e = None
      then Some (js ''Effect '' @ ef_id e @ js '' recorded no idempotency key, which handler '' @ hd_kind h @ js '' requires.'')
      else None)"

definition refusalOf :: "('w, 'x, 'd) handler \<Rightarrow> effect_record \<Rightarrow> ustring option" where
  "refusalOf h e = (case descriptorMismatch h e of Some r \<Rightarrow> Some r | None \<Rightarrow> missingKey h e)"

section \<open>Operations\<close>

text \<open>
  The schema of an assessment: a handler's verdict is decoded before anything acts on it.  \<open>issueText\<close> renders the
  message of a schema issue.
\<close>

definition decodeClassification :: "json \<Rightarrow> classification option" where
  "decodeClassification j =
     (if j = JString (js ''revertible'') then Some Revertible_effect
      else if j = JString (js ''warning'') then Some Warning_effect
      else if j = JString (js ''blocking'') then Some Blocking_effect else None)"

definition decodeAssessment :: "(json \<Rightarrow> ustring) \<Rightarrow> json \<Rightarrow> ustring + handler_assessment" where
  "decodeAssessment issueText verdict =
     (case verdict of
        JObject members \<Rightarrow>
          (case (Option.bind (map_of members (js ''classification'')) decodeClassification,
                 map_of members (js ''reason''), map_of members (js ''residue'')) of
             (Some c, Some (JString reason), Some (JString residue)) \<Rightarrow>
               Inr \<lparr>as_classification = c, as_reason = reason, as_residue = residue\<rparr>
           | _ \<Rightarrow> Inl (issueText verdict))
      | _ \<Rightarrow> Inl (issueText verdict))"

definition registryAssess ::
  "(json \<Rightarrow> ustring) \<Rightarrow> ('w, 'x, 'd) registry \<Rightarrow> effect_record \<Rightarrow> ('w, 'x, handler_assessment) work" where
  "registryAssess issueText handlers e w =
     (case resolve handlers (ef_kind e) of
        None \<Rightarrow> succeed \<lparr>as_classification = Blocking_effect,
                  as_reason = js ''No compensation handler is registered for '' @ ef_kind e @ js ''.'',
                  as_residue = (case ef_residue e of Some r \<Rightarrow> r
                                | None \<Rightarrow> js ''The '' @ ef_kind e @ js '' effect remains outside the journal.'')\<rparr> w
      | Some h \<Rightarrow>
          let blocking = (\<lambda>reason. \<lparr>as_classification = Blocking_effect, as_reason = reason, as_residue = hd_residue h e\<rparr>) in
          if hd_tier h \<noteq> ef_tier e
          then succeed (blocking (js ''Handler '' @ ef_kind e @ js '' is registered for '' @ tierText (hd_tier h) @ js '', not ''
                 @ tierText (ef_tier e) @ js ''.'')) w
          else if er_status e \<noteq> Succeeded
          then succeed (blocking (js ''Effect '' @ ef_id e @ js '' has '' @ statusText (er_status e) @ js '' completion state.'')) w
          else case refusalOf h e of
            Some refusal \<Rightarrow> succeed (blocking refusal) w
          | None \<Rightarrow>
              (case hd_assess h of
                 None \<Rightarrow> succeed \<lparr>as_classification = Revertible_effect,
                   as_reason = js ''Handler '' @ ef_kind e @ js '' can compensate the recorded effect.'',
                   as_residue = hd_residue h e\<rparr> w
               | Some own \<Rightarrow>
                   (case own e w of
                      (Inl f, w) \<Rightarrow> (Inl f, w)
                    | (Inr verdict, w) \<Rightarrow>
                        (case decodeAssessment issueText verdict of
                           Inl issue \<Rightarrow> succeed (blocking (js ''Handler '' @ ef_kind e @ js '' returned a malformed assessment: '' @ issue)) w
                         | Inr a \<Rightarrow> succeed a w))))"

record 'd rollback_receipt =
  rr_id :: ustring
  rr_effect :: effect_record
  rr_data :: 'd

definition registryRevert :: "('w, 'x, 'd) registry \<Rightarrow> effect_record \<Rightarrow> ('w, 'x, 'd rollback_receipt) work" where
  "registryRevert handlers e w =
     (case resolve handlers (ef_kind e) of
        None \<Rightarrow> failWith (Comp_failure (missingHandler (ef_kind e)) No_detail) w
      | Some h \<Rightarrow>
          if hd_tier h \<noteq> ef_tier e
          then failWith (plainFailure Irreversible_effect
                 (js ''handler '' @ ef_kind e @ js '' cannot compensate '' @ tierText (ef_tier e) @ js '' effect '' @ ef_id e)) w
          else case refusalOf h e of
            Some refusal \<Rightarrow> failWith (plainFailure Irreversible_effect
              (js ''handler '' @ ef_kind e @ js '' cannot compensate '' @ ef_id e @ js '': '' @ refusal)) w
          | None \<Rightarrow>
              mapFailure (causedFailure Compensation_failed (js ''handler '' @ ef_kind e @ js '' could not revert '' @ ef_id e))
                (\<lambda>w. case hd_revert h e w of
                   (Inl f, w) \<Rightarrow> (Inl f, w)
                 | (Inr data, w) \<Rightarrow> (Inr \<lparr>rr_id = ef_id e @ js '':rollback'', rr_effect = e, rr_data = data\<rparr>, w)) w)"

definition registryRollback :: "('w, 'x, 'd) registry \<Rightarrow> 'd rollback_receipt \<Rightarrow> ('w, 'x, unit) work" where
  "registryRollback handlers receipt w =
     (let e = rr_effect receipt in
      case resolve handlers (ef_kind e) of
        None \<Rightarrow> failWith (Comp_failure (missingHandler (ef_kind e)) No_detail) w
      | Some h \<Rightarrow>
          (case (if hd_tier h \<noteq> ef_tier e
                 then Some (js ''handler '' @ ef_kind e @ js '' is registered for '' @ tierText (hd_tier h)
                        @ js '', and the receipt records '' @ tierText (ef_tier e))
                 else descriptorMismatch h e) of
             Some refusal \<Rightarrow> failWith (plainFailure Compensation_failed
               (js ''handler '' @ ef_kind e @ js '' cannot roll back '' @ ef_id e @ js '': '' @ refusal)) w
           | None \<Rightarrow>
               mapFailure (causedFailure Compensation_failed
                   (js ''handler '' @ ef_kind e @ js '' could not roll back compensation for '' @ ef_id e))
                 (hd_rollback h e (rr_data receipt)) w))"

end
