(* ===== verification/Compensation.thy ===== *)
theory Compensation
  imports Effect_Handlers
begin

text \<open>
  Rewind preflight, compensation and rollback (\<open>packages/smithers/flows/time-travel/src/internal/Compensation.ts\<close>).  The cache
  store, the jj service and the clock are arguments.  A protocol step is \<open>Effect.exit\<close> of a bounded operation, so that each
  failure is a branch; the failures carry what \<open>cause\<close> carries.
\<close>

section \<open>Plans and results\<close>

record assessment = handler_assessment +
  as_effect :: effect_record

record compensation_plan =
  pl_effects :: "effect_record list"
  pl_assessments :: "assessment list"
  pl_targetChangeId :: "ustring option"

record workspace_receipt =
  wr_currentChangeId :: ustring
  wr_targetChangeId :: ustring

record 'd compensation_result =
  cr_handlerReceipts :: "'d rollback_receipt list"
  cr_workspace :: "workspace_receipt option"

definition blockingSummary :: "assessment \<Rightarrow> blocking_summary" where
  "blockingSummary a =
     \<lparr>bs_id = ef_id (as_effect a), bs_kind = ef_kind (as_effect a), bs_tier = ef_tier (as_effect a),
      bs_seq = er_seq (as_effect a), bs_classification = as_classification a, bs_reason = as_reason a\<rparr>"

text \<open>
  The services a plan runs against.  \<open>expires timeout w w'\<close> tells whether the deadline passes while the work that would take
  \<open>w\<close> to \<open>w'\<close> runs: then the result is the timeout's failure and the world the interrupted work leaves.
\<close>

record ('w, 'x, 'd) compensation_services =
  sv_registry :: "('w, 'x, 'd) registry"
  sv_issueText :: "json \<Rightarrow> ustring"
  sv_cacheGet :: "ustring \<Rightarrow> ('w, 'x, json option) work"
  sv_snapshot :: "ustring \<Rightarrow> ('w, 'x, ustring) work"
  sv_restore :: "ustring \<Rightarrow> ('w, 'x, unit) work"
  sv_expires :: "nat \<Rightarrow> 'w \<Rightarrow> 'w \<Rightarrow> ('x \<times> 'w) option"
  sv_describe :: "'x \<Rightarrow> ustring"

definition defaultTimeout :: nat where
  "defaultTimeout = 3 * 60 * 1000"

definition bounded :: "('w, 'x, 'd) compensation_services \<Rightarrow> nat \<Rightarrow> ('w, 'x, 'a) work \<Rightarrow> ('w, 'x, 'a) work" where
  "bounded sv timeout work w =
     (case work w of (exit, w') \<Rightarrow>
        (case sv_expires sv timeout w w' of
           None \<Rightarrow> (exit, w')
         | Some (x, w'') \<Rightarrow> (Inl (Service_failure x), w'')))"

section \<open>Preflight\<close>

definition sealedAssessment :: "effect_record \<Rightarrow> classification \<Rightarrow> ustring \<Rightarrow> assessment" where
  "sealedAssessment e c reason =
     \<lparr>as_classification = c, as_reason = reason,
      as_residue = (case ef_residue e of Some r \<Rightarrow> r
                    | None \<Rightarrow> js ''The sealed result cannot be re-derived without its recorded cache entry.''),
      as_effect = e\<rparr>"

definition compensableAssessment :: "effect_record \<Rightarrow> ustring option \<Rightarrow> assessment" where
  "compensableAssessment e targetChangeId =
     (case targetChangeId of
        None \<Rightarrow> \<lparr>as_classification = Blocking_effect,
                  as_reason = js ''The target frame has no recorded jj snapshot pointer.'',
                  as_residue = js ''Workspace mutations cannot be restored to the selected frame.'', as_effect = e\<rparr>
      | Some c \<Rightarrow> \<lparr>as_classification = Revertible_effect,
                  as_reason = js ''The workspace will be restored to jj change '' @ c @ js ''.'',
                  as_residue = js ''Workspace state after the target frame is discarded into jj history.'', as_effect = e\<rparr>)"

definition assessEffect ::
  "('w, 'x, 'd) compensation_services \<Rightarrow> ustring option \<Rightarrow> effect_record \<Rightarrow> ('w, 'x, assessment) work" where
  "assessEffect sv targetChangeId e w =
     (case ef_tier e of
        Sealed_tier \<Rightarrow>
          (case ef_cacheKey e of
             None \<Rightarrow> succeed (sealedAssessment e Blocking_effect (js ''The sealed effect has no content-addressed cache key.'')) w
           | Some key \<Rightarrow>
               (case mapFailure (causedFailure Unknown_failure (js ''could not consult sealed result '' @ key)) (sv_cacheGet sv key) w of
                  (Inl f, w) \<Rightarrow> (Inl f, w)
                | (Inr cached, w) \<Rightarrow>
                    succeed (if cached \<noteq> None
                       then sealedAssessment e Warning_effect (js ''The sealed result is present and replay remains a cache hit.'')
                       else sealedAssessment e Blocking_effect (js ''Sealed cache entry '' @ key @ js '' is missing.'')) w))
      | Compensable_tier \<Rightarrow> succeed (compensableAssessment e targetChangeId) w
      | Irreversible_tier \<Rightarrow>
          (case registryAssess (sv_issueText sv) (sv_registry sv) e w of
             (Inl f, w) \<Rightarrow> (Inl f, w)
           | (Inr a, w) \<Rightarrow> succeed \<lparr>as_classification = as_classification a, as_reason = as_reason a,
                              as_residue = as_residue a, as_effect = e\<rparr> w))"

fun assessAll ::
  "('w, 'x, 'd) compensation_services \<Rightarrow> ustring option \<Rightarrow> effect_record list \<Rightarrow> ('w, 'x, assessment list) work" where
  "assessAll sv targetChangeId [] w = (Inr [], w)"
| "assessAll sv targetChangeId (e # es) w =
     (case assessEffect sv targetChangeId e w of
        (Inl f, w) \<Rightarrow> (Inl f, w)
      | (Inr a, w) \<Rightarrow>
          (case assessAll sv targetChangeId es w of
             (Inl f, w) \<Rightarrow> (Inl f, w)
           | (Inr as, w) \<Rightarrow> (Inr (a # as), w)))"

definition assess ::
  "('w, 'x, 'd) compensation_services \<Rightarrow> effect_record list \<Rightarrow> ustring option \<Rightarrow> ('w, 'x, compensation_plan) work" where
  "assess sv effects targetChangeId w =
     (let ordered = sort_key er_seq effects in
      case assessAll sv targetChangeId ordered w of
        (Inl f, w) \<Rightarrow> (Inl f, w)
      | (Inr assessments, w) \<Rightarrow>
          (Inr \<lparr>pl_effects = ordered, pl_assessments = assessments, pl_targetChangeId = targetChangeId\<rparr>, w))"

section \<open>Compensation\<close>

definition causeMessage :: "('w, 'x, 'd) compensation_services \<Rightarrow> 'x comp_failure \<Rightarrow> ustring" where
  "causeMessage sv f = (case f of Comp_failure e d \<Rightarrow> tt_message e | Service_failure x \<Rightarrow> sv_describe sv x
     | Defect x \<Rightarrow> sv_describe sv x)"

fun rollbackEach ::
  "('w, 'x, 'd) compensation_services \<Rightarrow> nat \<Rightarrow> 'd rollback_receipt list \<Rightarrow> 'x comp_failure list \<Rightarrow> 'w
    \<Rightarrow> 'x comp_failure list \<times> 'w" where
  "rollbackEach sv timeout [] failures w = (failures, w)"
| "rollbackEach sv timeout (r # rs) failures w =
     (case bounded sv timeout (registryRollback (sv_registry sv) r) w of
        (Inl f, w) \<Rightarrow> rollbackEach sv timeout rs
          (failures @ [causedFailure Compensation_failed (js ''could not roll back compensation for '' @ ef_id (rr_effect r)
             @ js '': '' @ causeMessage sv f) f]) w
      | (Inr u, w) \<Rightarrow> rollbackEach sv timeout rs failures w)"

definition rollbackHandlers ::
  "('w, 'x, 'd) compensation_services \<Rightarrow> nat \<Rightarrow> 'd rollback_receipt list \<Rightarrow> ('w, 'x, unit) work" where
  "rollbackHandlers sv timeout collected w =
     (case rollbackEach sv timeout (rev collected) [] w of (failures, w) \<Rightarrow>
        if failures \<noteq> []
        then (Inl (Comp_failure (TimeTravelError Compensation_failed
               (decimal (length failures) @ js '' compensation rollback operation(s) failed'')) (Failed_operations failures)), w)
        else (Inr (), w))"

definition assertExecutable :: "compensation_plan \<Rightarrow> 'x comp_failure option" where
  "assertExecutable plan =
     (let blocking = filter (\<lambda>a. as_classification a = Blocking_effect) (pl_assessments plan) in
      if length blocking = 0 then None
      else Some (Comp_failure (TimeTravelError Irreversible_effect
             (js ''rewind is blocked by '' @ decimal (length blocking) @ js '' crossed effect(s)''))
             (Blocked_by (map blockingSummary blocking))))"

definition failureOf :: "'x comp_failure + 'a \<Rightarrow> 'x comp_failure option" where
  "failureOf exit = (case exit of Inl f \<Rightarrow> Some f | Inr a \<Rightarrow> None)"

text \<open>\<open>onReceipts\<close> is \<open>None\<close> where the caller passes none.\<close>

fun revertEach ::
  "('w, 'x, 'd) compensation_services \<Rightarrow> ('d rollback_receipt list \<Rightarrow> ('w, 'x, unit) work) option \<Rightarrow> nat
    \<Rightarrow> effect_record list \<Rightarrow> 'd rollback_receipt list \<Rightarrow> ('w, 'x, 'd rollback_receipt list) work" where
  "revertEach sv onReceipts timeout [] collected w = (Inr collected, w)"
| "revertEach sv onReceipts timeout (e # es) collected w =
     (case bounded sv timeout (registryRevert (sv_registry sv) e) w of
        (Inl f, w) \<Rightarrow>
          (case rollbackHandlers sv timeout collected w of (exit, w) \<Rightarrow>
             (Inl (Comp_failure (TimeTravelError Compensation_failed
                (js ''could not compensate '' @ ef_id e @ js '': '' @ causeMessage sv f)) (Compensation_detail f (failureOf exit))), w))
      | (Inr receipt, w) \<Rightarrow>
          (case (case onReceipts of None \<Rightarrow> (Inr (), w) | Some persist \<Rightarrow> persist (collected @ [receipt]) w) of
             (Inl f, w) \<Rightarrow>
               (case rollbackHandlers sv timeout (collected @ [receipt]) w of (exit, w) \<Rightarrow>
                  (Inl (Comp_failure (TimeTravelError Compensation_failed
                     (js ''could not persist compensation receipt for '' @ ef_id e @ js '': '' @ causeMessage sv f))
                     (Compensation_detail f (failureOf exit))), w))
           | (Inr u, w) \<Rightarrow> revertEach sv onReceipts timeout es (collected @ [receipt]) w))"

definition compensationOrder :: "compensation_plan \<Rightarrow> effect_record list" where
  "compensationOrder plan =
     sort_key (\<lambda>e. - int (er_seq e))
       (map as_effect (filter (\<lambda>a. ef_tier (as_effect a) = Irreversible_tier \<and> as_classification a = Revertible_effect)
          (pl_assessments plan)))"

definition compensate ::
  "('w, 'x, 'd) compensation_services \<Rightarrow> compensation_plan \<Rightarrow> ('d rollback_receipt list \<Rightarrow> ('w, 'x, unit) work) option \<Rightarrow> nat
    \<Rightarrow> ('w, 'x, 'd rollback_receipt list) work" where
  "compensate sv plan onReceipts timeout w =
     (case assertExecutable plan of
        Some f \<Rightarrow> (Inl f, w)
      | None \<Rightarrow> revertEach sv onReceipts timeout (compensationOrder plan) [] w)"

section \<open>The workspace\<close>

definition prepareWorkspace ::
  "('w, 'x, 'd) compensation_services \<Rightarrow> compensation_plan \<Rightarrow> 'd rollback_receipt list \<Rightarrow> nat
    \<Rightarrow> ('w, 'x, 'd compensation_result) work" where
  "prepareWorkspace sv plan handlerReceipts timeout w =
     (case assertExecutable plan of
        Some f \<Rightarrow> (case rollbackHandlers sv timeout handlerReceipts w of (logged, w) \<Rightarrow> (Inl f, w))
      | None \<Rightarrow>
          if \<not> list_ex (\<lambda>e. ef_tier e = Compensable_tier) (pl_effects plan)
          then (Inr \<lparr>cr_handlerReceipts = handlerReceipts, cr_workspace = None\<rparr>, w)
          else case pl_targetChangeId plan of
            None \<Rightarrow>
              (case rollbackHandlers sv timeout handlerReceipts w of (logged, w) \<Rightarrow>
                 (Inl (plainFailure Compensation_failed (js ''target jj pointer was not resolved during preflight'')), w))
          | Some target \<Rightarrow>
              (case bounded sv timeout (sv_snapshot sv (js ''flows rewind pre-restore'')) w of
                 (Inl f, w) \<Rightarrow>
                   (case rollbackHandlers sv timeout handlerReceipts w of (exit, w) \<Rightarrow>
                      (Inl (Comp_failure (TimeTravelError Compensation_failed
                         (js ''could not snapshot current jj state: '' @ causeMessage sv f))
                         (case exit of Inl h \<Rightarrow> Snapshot_detail f h | Inr u \<Rightarrow> Caused f)), w))
               | (Inr current, w) \<Rightarrow>
                   (Inr \<lparr>cr_handlerReceipts = handlerReceipts,
                         cr_workspace = Some \<lparr>wr_currentChangeId = current, wr_targetChangeId = target\<rparr>\<rparr>, w)))"

definition restorePreparedWorkspace ::
  "('w, 'x, 'd) compensation_services \<Rightarrow> 'd compensation_result \<Rightarrow> nat \<Rightarrow> ('w, 'x, 'd compensation_result) work" where
  "restorePreparedWorkspace sv result timeout w =
     (case cr_workspace result of
        None \<Rightarrow> (Inr result, w)
      | Some ws \<Rightarrow>
          (case bounded sv timeout (sv_restore sv (wr_targetChangeId ws)) w of
             (Inr u, w) \<Rightarrow> (Inr result, w)
           | (Inl f, w) \<Rightarrow>
               (case bounded sv timeout (sv_restore sv (wr_currentChangeId ws)) w of (workspaceExit, w) \<Rightarrow>
                (case rollbackHandlers sv timeout (cr_handlerReceipts result) w of (handlerExit, w) \<Rightarrow>
                  (Inl (Comp_failure (TimeTravelError Compensation_failed
                     (js ''could not restore jj state '' @ wr_targetChangeId ws @ js '': '' @ causeMessage sv f))
                     (Restore_detail f (failureOf workspaceExit) (failureOf handlerExit))), w)))))"

definition restoreWorkspace ::
  "('w, 'x, 'd) compensation_services \<Rightarrow> compensation_plan \<Rightarrow> 'd rollback_receipt list \<Rightarrow> nat
    \<Rightarrow> ('w, 'x, 'd compensation_result) work" where
  "restoreWorkspace sv plan handlerReceipts timeout w =
     (case prepareWorkspace sv plan handlerReceipts timeout w of
        (Inl f, w) \<Rightarrow> (Inl f, w)
      | (Inr result, w) \<Rightarrow> restorePreparedWorkspace sv result timeout w)"

definition execute :: "('w, 'x, 'd) compensation_services \<Rightarrow> compensation_plan \<Rightarrow> nat \<Rightarrow> ('w, 'x, 'd compensation_result) work" where
  "execute sv plan timeout w =
     (case compensate sv plan None timeout w of
        (Inl f, w) \<Rightarrow> (Inl f, w)
      | (Inr rs, w) \<Rightarrow> restoreWorkspace sv plan rs timeout w)"

section \<open>Rollback\<close>

definition rollbackResult :: "('w, 'x, 'd) compensation_services \<Rightarrow> 'd compensation_result \<Rightarrow> nat \<Rightarrow> ('w, 'x, unit) work" where
  "rollbackResult sv result timeout w =
     (case (case cr_workspace result of
              None \<Rightarrow> ([], w)
            | Some ws \<Rightarrow>
                (case bounded sv timeout (sv_restore sv (wr_currentChangeId ws)) w of
                   (Inl f, w) \<Rightarrow> ([f], w)
                 | (Inr u, w) \<Rightarrow> ([], w))) of
        (failures, w) \<Rightarrow>
          (case rollbackHandlers sv timeout (cr_handlerReceipts result) w of (handlerExit, w) \<Rightarrow>
             let failures = failures @ (case handlerExit of Inl f \<Rightarrow> [f] | Inr u \<Rightarrow> []) in
             if failures \<noteq> []
             then (Inl (Comp_failure (TimeTravelError Compensation_failed
                    (decimal (length failures) @ js '' rewind rollback operation(s) failed'')) (Failed_operations failures)), w)
             else (Inr (), w)))"

text \<open>\<open>encodeReceipt\<close> is the receipt as a stored value.\<close>

definition toStoreReceipts :: "('d rollback_receipt \<Rightarrow> json) \<Rightarrow> ustring \<Rightarrow> 'd compensation_result \<Rightarrow> tt_receipt list" where
  "toStoreReceipts encodeReceipt auditId result =
     map (\<lambda>receipt. \<lparr>rc_id = auditId @ js '':'' @ rr_id receipt, rc_auditId = auditId, rc_effectId = ef_id (rr_effect receipt),
                    rc_receipt = encodeReceipt receipt\<rparr>) (cr_handlerReceipts result)"

end
