(* ===== verification/Compensation_Lemmas.thy ===== *)
theory Compensation_Lemmas
  imports Compensation
begin

text \<open>
  Lemmas on compensation: what the handlers, jj and the clock are relied on for, what each operation leaves behind, and
  which effects a plan lets through.
\<close>

section \<open>What handlers and jj promise\<close>

text \<open>
  \<open>outside w\<close> is the part of the world the handlers act on and \<open>files w\<close> the workspace.  A revert that fails has done
  nothing; one that succeeds touches no file, and its rollback, when it succeeds, puts the outside back.
\<close>

definition handler_undoes :: "('w \<Rightarrow> 'o) \<Rightarrow> ('w \<Rightarrow> 'f) \<Rightarrow> ('w, 'x, 'd) handler \<Rightarrow> bool" where
  "handler_undoes outside files h = (\<forall>e w. case hd_revert h e w of
       (Inl f, w') \<Rightarrow> outside w' = outside w \<and> files w' = files w
     | (Inr d, w') \<Rightarrow> files w' = files w \<and> (\<forall>w2 w3. outside w2 = outside w' \<and> hd_rollback h e d w2 = (Inr (), w3)
         \<longrightarrow> outside w3 = outside w \<and> files w3 = files w2))"

definition interruption_inert :: "('w \<Rightarrow> 'o) \<Rightarrow> ('w \<Rightarrow> 'f) \<Rightarrow> ('w, 'x, 'd) compensation_services \<Rightarrow> bool" where
  "interruption_inert outside files sv = (\<forall>t w w' x w''. sv_expires sv t w w' = Some (x, w'')
     \<longrightarrow> outside w'' = outside w \<and> files w'' = files w)"

definition workspace_keeps :: "('w \<Rightarrow> 'o) \<Rightarrow> ('w \<Rightarrow> 'f) \<Rightarrow> ('w, 'x, 'd) compensation_services \<Rightarrow> bool" where
  "workspace_keeps outside files sv = (
     (\<forall>m w. case sv_snapshot sv m w of
        (Inl f, w') \<Rightarrow> outside w' = outside w \<and> files w' = files w
      | (Inr c, w') \<Rightarrow> outside w' = outside w \<and> files w' = files w
          \<and> (\<forall>w2 w3. sv_restore sv c w2 = (Inr (), w3) \<longrightarrow> files w3 = files w))
     \<and> (\<forall>c w. outside (snd (sv_restore sv c w)) = outside w))"

definition reversible_services :: "('w \<Rightarrow> 'o) \<Rightarrow> ('w \<Rightarrow> 'f) \<Rightarrow> ('w, 'x, 'd) compensation_services \<Rightarrow> bool" where
  "reversible_services outside files sv = (list_all (handler_undoes outside files) (map snd (sv_registry sv))
     \<and> interruption_inert outside files sv \<and> workspace_keeps outside files sv)"

definition keeps :: "('w \<Rightarrow> 'o) \<Rightarrow> ('w \<Rightarrow> 'f) \<Rightarrow> ('w, 'x, 'a) work \<Rightarrow> bool" where
  "keeps outside files work = (\<forall>w. outside (snd (work w)) = outside w \<and> files (snd (work w)) = files w)"

text \<open>A failure that reports no failed cleanup.\<close>

definition cleanup_succeeded :: "'x comp_failure \<Rightarrow> bool" where
  "cleanup_succeeded f = (case f of
       Comp_failure e (Blocked_by bs) \<Rightarrow> True
     | Comp_failure e (Caused c) \<Rightarrow> True
     | Comp_failure e (Compensation_detail c None) \<Rightarrow> True
     | Comp_failure e (Restore_detail c None None) \<Rightarrow> True
     | _ \<Rightarrow> False)"

section \<open>Bounded operations\<close>

lemma handler_undoes_failed:
  assumes "handler_undoes outside files h" "hd_revert h e w = (Inl f, w')"
  shows "outside w' = outside w \<and> files w' = files w"
  using spec[OF spec[OF assms(1)[unfolded handler_undoes_def], of e], of w]
  unfolding assms(2) prod.case sum.case by blast

lemma handler_undoes_ok:
  assumes "handler_undoes outside files h" "hd_revert h e w = (Inr d, w')"
  shows "files w' = files w"
    and "outside w2 = outside w' \<Longrightarrow> hd_rollback h e d w2 = (Inr (), w3) \<Longrightarrow> outside w3 = outside w \<and> files w3 = files w2"
  using spec[OF spec[OF assms(1)[unfolded handler_undoes_def], of e], of w]
  unfolding assms(2) prod.case sum.case by blast+

lemma resolve_lawful:
  assumes "reversible_services outside files sv" "resolve (sv_registry sv) k = Some h"
  shows "handler_undoes outside files h"
  using assms map_of_SomeD[of "sv_registry sv" k h]
  by (force simp: reversible_services_def resolve_def list_all_iff)

lemma bounded_ok: "bounded sv t work w = (Inr a, w') \<Longrightarrow> work w = (Inr a, w')"
  by (auto simp: bounded_def split: prod.splits option.splits)

lemma bounded_failed:
  assumes "bounded sv t work w = (Inl f, w')" "reversible_services outside files sv"
  shows "(work w = (Inl f, w')) \<or> (outside w' = outside w \<and> files w' = files w)"
  using assms by (auto simp: bounded_def reversible_services_def interruption_inert_def split: prod.splits option.splits)

lemma mapFailure_ok [simp]: "mapFailure g work w = (Inr a, w') \<longleftrightarrow> work w = (Inr a, w')"
  by (auto simp: mapFailure_def split: prod.splits sum.splits comp_failure.splits)

lemma mapFailure_world: "snd (mapFailure g work w) = snd (work w)"
  by (auto simp: mapFailure_def split: prod.splits sum.splits comp_failure.splits)

lemma mapFailure_failed: "mapFailure g work w = (Inl f, w') \<Longrightarrow> \<exists>f'. work w = (Inl f', w')"
  by (auto simp: mapFailure_def split: prod.splits sum.splits comp_failure.splits)

lemma revert_call_failed:
  assumes "registryRevert handlers e w = (Inl f, w')"
  shows "w' = w \<or> (\<exists>h f'. resolve handlers (ef_kind e) = Some h \<and> hd_revert h e w = (Inl f', w'))"
proof (cases "resolve handlers (ef_kind e)")
  case (Some h)
  show ?thesis
  proof (cases "hd_tier h \<noteq> ef_tier e \<or> refusalOf h e \<noteq> None")
    case False
    then obtain f' where "(case hd_revert h e w of (Inl f, w) \<Rightarrow> (Inl f, w)
        | (Inr data, w) \<Rightarrow> (Inr \<lparr>rr_id = ef_id e @ js '':rollback'', rr_effect = e, rr_data = data\<rparr>, w)) = (Inl f', w')"
      using assms Some by (auto simp: registryRevert_def dest!: mapFailure_failed)
    then show ?thesis using Some by (auto split: prod.splits sum.splits)
  qed (use assms Some in \<open>auto simp: registryRevert_def failWith_def split: option.splits if_splits\<close>)
qed (use assms in \<open>auto simp: registryRevert_def failWith_def\<close>)

lemma revert_call_ok:
  assumes "registryRevert handlers e w = (Inr r, w')"
  obtains h where "resolve handlers (ef_kind e) = Some h" "hd_tier h = ef_tier e" "refusalOf h e = None"
    "hd_revert h e w = (Inr (rr_data r), w')" "rr_effect r = e"
proof (cases "resolve handlers (ef_kind e)")
  case (Some h)
  have tier: "hd_tier h = ef_tier e" and ok: "refusalOf h e = None"
    using assms Some by (auto simp: registryRevert_def failWith_def split: if_splits option.splits)
  show ?thesis
    by (rule that[OF Some tier ok])
      (use assms Some tier ok in \<open>auto simp: registryRevert_def split: prod.splits sum.splits\<close>)
qed (use assms in \<open>auto simp: registryRevert_def failWith_def\<close>)

lemma rollback_call_ok:
  assumes "registryRollback handlers r w = (Inr u, w')"
  obtains h where "resolve handlers (ef_kind (rr_effect r)) = Some h"
    "hd_rollback h (rr_effect r) (rr_data r) w = (Inr (), w')"
  using assms
  by (cases "resolve handlers (ef_kind (rr_effect r))")
    (auto simp: registryRollback_def Let_def failWith_def split: if_splits option.splits)

section \<open>Undoing receipts\<close>

text \<open>Rolling back the receipts, in the order given, leads from the outside \<open>o1\<close> back to \<open>o0\<close>.\<close>

definition rolls_back ::
  "('w, 'x, 'd) compensation_services \<Rightarrow> nat \<Rightarrow> ('w \<Rightarrow> 'o) \<Rightarrow> ('w \<Rightarrow> 'f) \<Rightarrow> 'd rollback_receipt \<Rightarrow> 'o \<Rightarrow> 'o \<Rightarrow> bool" where
  "rolls_back sv t outside files r o1 o2 = (\<forall>w2 w3.
     outside w2 = o1 \<and> bounded sv t (registryRollback (sv_registry sv) r) w2 = (Inr (), w3)
       \<longrightarrow> outside w3 = o2 \<and> files w3 = files w2)"

fun undoable ::
  "('w, 'x, 'd) compensation_services \<Rightarrow> nat \<Rightarrow> ('w \<Rightarrow> 'o) \<Rightarrow> ('w \<Rightarrow> 'f) \<Rightarrow> 'o \<Rightarrow> 'd rollback_receipt list \<Rightarrow> 'o \<Rightarrow> bool" where
  "undoable sv t outside files o0 [] o1 = (o1 = o0)"
| "undoable sv t outside files o0 (r # rs) o1 = (\<exists>o2.
     rolls_back sv t outside files r o1 o2 \<and> undoable sv t outside files o0 rs o2)"

lemma rolls_backD:
  assumes "rolls_back sv t outside files r o1 o2" "outside w2 = o1"
    and "bounded sv t (registryRollback (sv_registry sv) r) w2 = (Inr (), w3)"
  shows "outside w3 = o2 \<and> files w3 = files w2"
  using assms unfolding rolls_back_def by blast

lemma revert_inert:
  assumes "bounded sv t (registryRevert (sv_registry sv) e) w = (Inl f, w')" "reversible_services outside files sv"
  shows "outside w' = outside w \<and> files w' = files w"
  using bounded_failed[OF assms]
proof
  assume "registryRevert (sv_registry sv) e w = (Inl f, w')"
  from revert_call_failed[OF this] show ?thesis
    using handler_undoes_failed[OF resolve_lawful[OF assms(2)]] by blast
qed simp

lemma revert_undoable:
  assumes "bounded sv t (registryRevert (sv_registry sv) e) w = (Inr r, w')" "reversible_services outside files sv"
    and "undoable sv t outside files o0 rs (outside w)"
  shows "files w' = files w" and "undoable sv t outside files o0 (r # rs) (outside w')"
proof -
  from bounded_ok[OF assms(1)] obtain h where h: "resolve (sv_registry sv) (ef_kind e) = Some h"
      "hd_revert h e w = (Inr (rr_data r), w')" "rr_effect r = e"
    by (rule revert_call_ok)
  note undo = handler_undoes_ok[OF resolve_lawful[OF assms(2) h(1)] h(2)]
  show "files w' = files w" by (rule undo(1))
  have "outside w3 = outside w \<and> files w3 = files w2"
    if "outside w2 = outside w'" "bounded sv t (registryRollback (sv_registry sv) r) w2 = (Inr (), w3)" for w2 w3
    using bounded_ok[OF that(2)]
  proof (rule rollback_call_ok)
    fix h'
    assume "resolve (sv_registry sv) (ef_kind (rr_effect r)) = Some h'"
      "hd_rollback h' (rr_effect r) (rr_data r) w2 = (Inr (), w3)"
    with h have "hd_rollback h e (rr_data r) w2 = (Inr (), w3)" by simp
    from undo(2)[OF that(1) this] show ?thesis .
  qed
  then have "rolls_back sv t outside files r (outside w') (outside w)" unfolding rolls_back_def by blast
  with assms(3) show "undoable sv t outside files o0 (r # rs) (outside w')" by auto
qed

lemma rollbackEach_extends: "\<exists>more. fst (rollbackEach sv t rs fs w) = fs @ more"
proof (induction rs arbitrary: fs w)
  case (Cons r rs)
  have "\<exists>more. fst (rollbackEach sv t rs (fs @ [f]) w) = fs @ more" for f w
    using Cons.IH[of "fs @ [f]" w] by auto
  with Cons.IH show ?case by (auto split: prod.split sum.split)
qed simp

lemma rollbackEach_undoes:
  assumes "rollbackEach sv t rs fs w = (fs, w')" "undoable sv t outside files o0 rs (outside w)"
  shows "outside w' = o0 \<and> files w' = files w"
  using assms
proof (induction rs arbitrary: w)
  case (Cons r rs)
  obtain exit w1 where b: "bounded sv t (registryRollback (sv_registry sv) r) w = (exit, w1)" by (cases "bounded sv t (registryRollback (sv_registry sv) r) w")
  show ?case
  proof (cases exit)
    case (Inl f)
    then obtain g where "rollbackEach sv t rs (fs @ [g]) w1 = (fs, w')" using Cons.prems(1) b by auto
    with rollbackEach_extends[of sv t rs "fs @ [g]" w1] show ?thesis by auto
  next
    case (Inr u)
    with Cons.prems(1) b have rest: "rollbackEach sv t rs fs w1 = (fs, w')" by simp
    from Cons.prems(2) obtain o2 where o2: "rolls_back sv t outside files r (outside w) o2" "undoable sv t outside files o0 rs o2"
      by auto
    from b Inr have "bounded sv t (registryRollback (sv_registry sv) r) w = (Inr (), w1)" by simp
    from rolls_backD[OF o2(1) refl this] have "outside w1 = o2" "files w1 = files w" by simp_all
    with Cons.IH[OF rest] o2(2) show ?thesis by simp
  qed
qed simp

lemma rollbackHandlers_undoes:
  assumes "rollbackHandlers sv t rs w = (Inr u, w')" "undoable sv t outside files o0 (rev rs) (outside w)"
  shows "outside w' = o0 \<and> files w' = files w"
proof -
  from assms(1) have "rollbackEach sv t (rev rs) [] w = ([], w')"
    by (auto simp: rollbackHandlers_def split: prod.splits if_splits)
  from rollbackEach_undoes[OF this assms(2)] show ?thesis .
qed


section \<open>Compensation\<close>

definition persists_only :: "('w \<Rightarrow> 'o) \<Rightarrow> ('w \<Rightarrow> 'f) \<Rightarrow> ('d rollback_receipt list \<Rightarrow> ('w, 'x, unit) work) option \<Rightarrow> bool" where
  "persists_only outside files onReceipts = (case onReceipts of None \<Rightarrow> True | Some persist \<Rightarrow> \<forall>rs. keeps outside files (persist rs))"

text \<open>What each operation leaves: on failure with a successful cleanup the start \<open>(o0, f0)\<close>, else a way back to it.\<close>

definition reversal ::
  "('w, 'x, 'd) compensation_services \<Rightarrow> nat \<Rightarrow> ('w \<Rightarrow> 'o) \<Rightarrow> ('w \<Rightarrow> 'f) \<Rightarrow> 'o \<Rightarrow> 'f
    \<Rightarrow> ('x comp_failure + 'd rollback_receipt list) \<times> 'w \<Rightarrow> bool" where
  "reversal sv t outside files o0 f0 outcome = (case outcome of
       (Inl f, w') \<Rightarrow> cleanup_succeeded f \<longrightarrow> outside w' = o0 \<and> files w' = f0
     | (Inr rs, w') \<Rightarrow> undoable sv t outside files o0 (rev rs) (outside w') \<and> files w' = f0)"

lemma cleanup_compensation [simp]:
  "cleanup_succeeded (Comp_failure e (Compensation_detail c (failureOf exit))) \<longleftrightarrow> (\<exists>u. exit = Inr u)"
  by (cases exit) (simp_all add: cleanup_succeeded_def failureOf_def)

lemma reversal_cleanup:
  assumes "undoable sv t outside files o0 (rev rs) (outside w)" "files w = f0"
  shows "reversal sv t outside files o0 f0
    (case rollbackHandlers sv t rs w of (exit, w') \<Rightarrow> (Inl (Comp_failure e (Compensation_detail c (failureOf exit))), w'))"
  using rollbackHandlers_undoes[OF _ assms(1)] assms(2) by (auto simp: reversal_def split: prod.split)

lemma revertEach_reversal:
  assumes "reversible_services outside files sv" "persists_only outside files onReceipts"
    and "undoable sv t outside files o0 (rev rs) (outside w)" "files w = f0"
  shows "reversal sv t outside files o0 f0 (revertEach sv onReceipts t es rs w)"
  using assms(3,4)
proof (induction es arbitrary: rs w)
  case Nil
  then show ?case by (simp add: reversal_def)
next
  case (Cons e es)
  obtain exit w1 where b: "bounded sv t (registryRevert (sv_registry sv) e) w = (exit, w1)"
    by (cases "bounded sv t (registryRevert (sv_registry sv) e) w")
  show ?case
  proof (cases exit)
    case (Inl f)
    from revert_inert[OF b[unfolded Inl] assms(1)] Cons.prems
    show ?thesis by (simp add: b Inl reversal_cleanup)
  next
    case (Inr r)
    note done_r = revert_undoable[OF b[unfolded Inr] assms(1) Cons.prems(1)]
    obtain pexit w2 where p: "(case onReceipts of None \<Rightarrow> (Inr (), w1) | Some persist \<Rightarrow> persist (rs @ [r]) w1) = (pexit, w2)"
      by (cases "case onReceipts of None \<Rightarrow> (Inr (), w1) | Some persist \<Rightarrow> persist (rs @ [r]) w1")
    have same: "outside w2 = outside w1" "files w2 = files w1"
      using assms(2) p by (auto simp: persists_only_def keeps_def split: option.splits) (metis snd_conv)+
    have "undoable sv t outside files o0 (rev (rs @ [r])) (outside w2)" "files w2 = f0"
      using done_r same Cons.prems(2) by simp_all
    with Cons.IH[of "rs @ [r]" w2] show ?thesis
      by (cases pexit) (simp_all add: b Inr p reversal_cleanup)
  qed
qed

lemma compensate_reversal:
  assumes "reversible_services outside files sv" "persists_only outside files onReceipts"
  shows "reversal sv t outside files (outside w) (files w) (compensate sv plan onReceipts t w)"
  using revertEach_reversal[OF assms, of t "outside w" "[]" w "files w"]
  by (auto simp: compensate_def reversal_def split: option.split)

section \<open>The workspace\<close>

lemma workspace_law:
  assumes "reversible_services outside files sv"
  shows "sv_snapshot sv m w = (exit, w') \<Longrightarrow> outside w' = outside w \<and> files w' = files w"
    and "sv_snapshot sv m w = (Inr c, w') \<Longrightarrow> sv_restore sv c w2 = (Inr (), w3) \<Longrightarrow> files w3 = files w"
    and "sv_restore sv c w = (rexit, w') \<Longrightarrow> outside w' = outside w"
proof -
  have law: "workspace_keeps outside files sv" using assms by (simp add: reversible_services_def)
  note snap = spec[OF spec[OF conjunct1[OF law[unfolded workspace_keeps_def]], of m], of w]
  show "outside w' = outside w \<and> files w' = files w" if "sv_snapshot sv m w = (exit, w')"
    using snap unfolding that prod.case by (cases exit) (simp_all only: sum.case)
  show "files w3 = files w" if "sv_snapshot sv m w = (Inr c, w')" "sv_restore sv c w2 = (Inr (), w3)"
    using snap that(2) unfolding that(1) prod.case sum.case by blast
  show "outside w' = outside w" if "sv_restore sv c w = (rexit, w')"
    using spec[OF spec[OF conjunct2[OF law[unfolded workspace_keeps_def]], of c], of w] that by simp
qed

text \<open>The same of the bounded operations: an interrupted one left nothing.\<close>

lemma bounded_snapshot:
  assumes "reversible_services outside files sv" "bounded sv t (sv_snapshot sv m) w = (exit, w')"
  shows "outside w' = outside w" and "files w' = files w"
proof -
  have "outside w' = outside w \<and> files w' = files w"
  proof (cases exit)
    case (Inl f)
    from bounded_failed[OF assms(2)[unfolded Inl] assms(1)] workspace_law(1)[OF assms(1)] show ?thesis by blast
  next
    case (Inr c)
    from workspace_law(1)[OF assms(1) bounded_ok[OF assms(2)[unfolded Inr]]] show ?thesis .
  qed
  then show "outside w' = outside w" "files w' = files w" by simp_all
qed

lemma bounded_restore:
  assumes "reversible_services outside files sv" "bounded sv t (sv_restore sv c) w = (exit, w')"
  shows "outside w' = outside w"
proof (cases exit)
  case (Inl f)
  from bounded_failed[OF assms(2)[unfolded Inl] assms(1)] workspace_law(3)[OF assms(1)] show ?thesis by blast
next
  case (Inr u)
  from workspace_law(3)[OF assms(1) bounded_ok[OF assms(2)[unfolded Inr]]] show ?thesis .
qed

lemma bounded_restore_files:
  assumes "reversible_services outside files sv" "bounded sv t (sv_snapshot sv m) w = (Inr c, w')"
    and "bounded sv t' (sv_restore sv c) w2 = (Inr (), w3)"
  shows "files w3 = files w"
  by (rule workspace_law(2)[OF assms(1) bounded_ok[OF assms(2)] bounded_ok[OF assms(3)]])

text \<open>A prepared result: the receipts lead back to \<open>o0\<close>, the recorded change to \<open>f0\<close>.\<close>

definition prepared ::
  "('w, 'x, 'd) compensation_services \<Rightarrow> nat \<Rightarrow> ('w \<Rightarrow> 'o) \<Rightarrow> ('w \<Rightarrow> 'f) \<Rightarrow> 'o \<Rightarrow> 'f \<Rightarrow> 'd compensation_result \<Rightarrow> 'w \<Rightarrow> bool" where
  "prepared sv t outside files o0 f0 result w' = (
     undoable sv t outside files o0 (rev (cr_handlerReceipts result)) (outside w')
     \<and> (case cr_workspace result of
          None \<Rightarrow> files w' = f0
        | Some ws \<Rightarrow> \<forall>w2 w3. bounded sv t (sv_restore sv (wr_currentChangeId ws)) w2 = (Inr (), w3) \<longrightarrow> files w3 = f0))"

lemma prepare_reversal:
  assumes "reversible_services outside files sv" "undoable sv t outside files o0 (rev rs) (outside w)" "files w = f0"
    and "assertExecutable plan = (None :: 'x comp_failure option)"
    and "prepareWorkspace (sv :: ('w, 'x, 'd) compensation_services) plan rs t w = (exit, w')"
  shows "case exit of Inl f \<Rightarrow> cleanup_succeeded f \<longrightarrow> outside w' = o0 \<and> files w' = f0
    | Inr result \<Rightarrow> prepared sv t outside files o0 f0 result w'"
proof (cases "list_ex (\<lambda>e. ef_tier e = Compensable_tier) (pl_effects plan) \<and> pl_targetChangeId plan \<noteq> None")
  case False
  then show ?thesis using assms
    by (auto simp: prepareWorkspace_def prepared_def plainFailure_def cleanup_succeeded_def split: if_splits option.splits prod.splits)
next
  case True
  then obtain target where target: "pl_targetChangeId plan = Some target" by auto
  obtain sexit w1 where b: "bounded sv t (sv_snapshot sv (js ''flows rewind pre-restore'')) w = (sexit, w1)"
    by (cases "bounded sv t (sv_snapshot sv (js ''flows rewind pre-restore'')) w")
  note keep = bounded_snapshot[OF assms(1) b]
  show ?thesis
  proof (cases sexit)
    case (Inl f)
    have "outside w2 = o0 \<and> files w2 = f0" if "rollbackHandlers sv t rs w1 = (Inr u, w2)" for u w2
      using rollbackHandlers_undoes[OF that, of outside files o0] assms(2,3) keep by simp
    then show ?thesis using True target b Inl assms(4,5)
      by (auto simp: prepareWorkspace_def cleanup_succeeded_def split: prod.splits sum.splits)
  next
    case (Inr c)
    have "files w3 = f0" if "bounded sv t (sv_restore sv c) w2 = (Inr (), w3)" for w2 w3
      using bounded_restore_files[OF assms(1) b[unfolded Inr] that] assms(3) by simp
    then have "prepared sv t outside files o0 f0
        \<lparr>cr_handlerReceipts = rs, cr_workspace = Some \<lparr>wr_currentChangeId = c, wr_targetChangeId = target\<rparr>\<rparr> w1"
      using assms(2) keep by (auto simp: prepared_def)
    then show ?thesis using True target b Inr assms(4,5) by (auto simp: prepareWorkspace_def)
  qed
qed

lemma cleanup_restore [simp]:
  "cleanup_succeeded (Comp_failure e (Restore_detail c (failureOf wexit) (failureOf hexit))) \<longleftrightarrow> (\<exists>u v. wexit = Inr u \<and> hexit = Inr v)"
  by (cases wexit; cases hexit) (simp_all add: cleanup_succeeded_def failureOf_def)

lemma restore_reversal:
  assumes "reversible_services outside files sv" "prepared sv t outside files o0 f0 result w"
    and "restorePreparedWorkspace sv result t w = (exit, w')"
  shows "case exit of Inl f \<Rightarrow> cleanup_succeeded f \<longrightarrow> outside w' = o0 \<and> files w' = f0
    | Inr result' \<Rightarrow> result' = result \<and> prepared sv t outside files o0 f0 result w'"
proof (cases "cr_workspace result")
  case None
  with assms show ?thesis by (auto simp: restorePreparedWorkspace_def)
next
  case (Some ws)
  obtain rexit w1 where r: "bounded sv t (sv_restore sv (wr_targetChangeId ws)) w = (rexit, w1)"
    by (cases "bounded sv t (sv_restore sv (wr_targetChangeId ws)) w")
  have o1: "outside w1 = outside w" by (rule bounded_restore[OF assms(1) r])
  show ?thesis
  proof (cases rexit)
    case (Inr u)
    with assms(2,3) Some r o1 show ?thesis by (auto simp: restorePreparedWorkspace_def prepared_def)
  next
    case (Inl f)
    obtain bexit w2 where bk: "bounded sv t (sv_restore sv (wr_currentChangeId ws)) w1 = (bexit, w2)"
      by (cases "bounded sv t (sv_restore sv (wr_currentChangeId ws)) w1")
    obtain hexit w3 where hand: "rollbackHandlers sv t (cr_handlerReceipts result) w2 = (hexit, w3)"
      by (cases "rollbackHandlers sv t (cr_handlerReceipts result) w2")
    have o2: "outside w2 = outside w" using bounded_restore[OF assms(1) bk] o1 by simp
    have "outside w3 = o0 \<and> files w3 = f0" if ok: "bexit = Inr ()" "hexit = Inr ()"
    proof -
      have "files w2 = f0" using assms(2) Some bk ok(1) by (simp add: prepared_def)
      moreover have "undoable sv t outside files o0 (rev (cr_handlerReceipts result)) (outside w2)"
        using assms(2) o2 by (simp add: prepared_def)
      ultimately show ?thesis using rollbackHandlers_undoes[OF hand[unfolded ok(2)], of outside files o0] by simp
    qed
    with assms(3) Some r Inl bk hand show ?thesis by (auto simp: restorePreparedWorkspace_def)
  qed
qed

lemma compensate_executable:
  "compensate (sv :: ('w, 'x, 'd) compensation_services) plan p t w = (Inr rs, w') \<Longrightarrow> assertExecutable plan = (None :: 'x comp_failure option)"
  by (auto simp: compensate_def assertExecutable_def split: option.splits if_splits)

lemma execute_reversal:
  assumes "reversible_services outside files sv" "execute sv plan t w = (exit, w')"
  shows "case exit of Inl f \<Rightarrow> cleanup_succeeded f \<longrightarrow> outside w' = outside w \<and> files w' = files w
    | Inr result \<Rightarrow> prepared sv t outside files (outside w) (files w) result w'"
proof -
  obtain cexit w1 where c: "compensate sv plan None t w = (cexit, w1)" by (cases "compensate sv plan None t w")
  have rev: "reversal sv t outside files (outside w) (files w) (cexit, w1)"
    using compensate_reversal[OF assms(1), of None t w plan] c by (simp add: persists_only_def)
  show ?thesis
  proof (cases cexit)
    case (Inl f)
    with rev assms(2) c show ?thesis by (auto simp: execute_def reversal_def)
  next
    case (Inr rs)
    then have und: "undoable sv t outside files (outside w) (rev rs) (outside w1)" "files w1 = files w"
      using rev by (simp_all add: reversal_def)
    obtain pexit w2 where p: "prepareWorkspace sv plan rs t w1 = (pexit, w2)" by (cases "prepareWorkspace sv plan rs t w1")
    note prep = prepare_reversal[OF assms(1) und compensate_executable[OF c[unfolded Inr]] p]
    show ?thesis
    proof (cases pexit)
      case (Inl f)
      with prep assms(2) c Inr p show ?thesis by (auto simp: execute_def restoreWorkspace_def)
    next
      case (Inr result)
      with prep have "prepared sv t outside files (outside w) (files w) result w2" by simp
      moreover have "restorePreparedWorkspace sv result t w2 = (exit, w')"
        using assms(2) c \<open>cexit = Inr rs\<close> p Inr by (simp add: execute_def restoreWorkspace_def)
      ultimately have "case exit of Inl f \<Rightarrow> cleanup_succeeded f \<longrightarrow> outside w' = outside w \<and> files w' = files w
          | Inr result' \<Rightarrow> result' = result \<and> prepared sv t outside files (outside w) (files w) result w'"
        by (rule restore_reversal[OF assms(1)])
      then show ?thesis by (auto split: sum.splits)
    qed
  qed
qed

lemma rollback_prepared:
  assumes "reversible_services outside files sv" "prepared sv t outside files o0 f0 result w1"
    and "outside w2 = outside w1" "cr_workspace result = None \<longrightarrow> files w2 = files w1"
    and "rollbackResult sv result t w2 = (Inr (), w3)"
  shows "outside w3 = o0 \<and> files w3 = f0"
proof -
  obtain fs w' where first: "(case cr_workspace result of None \<Rightarrow> ([], w2)
      | Some ws \<Rightarrow> (case bounded sv t (sv_restore sv (wr_currentChangeId ws)) w2 of
            (Inl f, w) \<Rightarrow> ([f], w) | (Inr u, w) \<Rightarrow> ([], w))) = (fs, w')" by fastforce
  from assms(5) first have fs: "fs = []" and hand: "rollbackHandlers sv t (cr_handlerReceipts result) w' = (Inr (), w3)"
    by (auto simp: rollbackResult_def Let_def split: prod.splits sum.splits if_splits)
  have "outside w' = outside w1 \<and> files w' = f0"
  proof (cases "cr_workspace result")
    case None
    with first assms(2-4) show ?thesis by (simp add: prepared_def)
  next
    case (Some ws)
    with first fs have "bounded sv t (sv_restore sv (wr_currentChangeId ws)) w2 = (Inr (), w')"
      by (auto split: prod.splits sum.splits)
    with bounded_restore[OF assms(1) this] assms(2,3) Some show ?thesis by (simp add: prepared_def)
  qed
  with rollbackHandlers_undoes[OF hand, of outside files o0] assms(2) show ?thesis by (simp add: prepared_def)
qed

section \<open>Authority\<close>

text \<open>What a crossed effect must have for a rewind past it.\<close>

definition authorised :: "('w, 'x, 'd) registry \<Rightarrow> ustring option \<Rightarrow> effect_record \<Rightarrow> bool" where
  "authorised handlers target e = (case ef_tier e of
       Sealed_tier \<Rightarrow> ef_cacheKey e \<noteq> None
     | Compensable_tier \<Rightarrow> target \<noteq> None
     | Irreversible_tier \<Rightarrow> er_status e = Succeeded \<and> (case resolve handlers (ef_kind e) of
           None \<Rightarrow> False
         | Some h \<Rightarrow> hd_tier h = Irreversible_tier \<and> (ef_compensation e = None \<or> hd_compensation h = ef_compensation e)
             \<and> (hd_requiresIdempotencyKey h \<longrightarrow> ef_idempotencyKey e \<noteq> None)))"

lemma refusal_none: "refusalOf h e = None \<longleftrightarrow> (ef_compensation e = None \<or> hd_compensation h = ef_compensation e)
    \<and> (hd_requiresIdempotencyKey h \<longrightarrow> ef_idempotencyKey e \<noteq> None)"
  by (auto simp: refusalOf_def descriptorMismatch_def missingKey_def Let_def split: option.splits)

lemma registryAssess_authorised:
  assumes "registryAssess issueText handlers e w = (Inr a, w')" "as_classification a \<noteq> Blocking_effect"
    and "ef_tier e = Irreversible_tier"
  shows "authorised handlers target e"
proof (cases "resolve handlers (ef_kind e)")
  case (Some h)
  then show ?thesis using assms
    by (cases "refusalOf h e") (auto simp: registryAssess_def authorised_def succeed_def Let_def refusal_none split: if_splits)
qed (use assms in \<open>auto simp: registryAssess_def succeed_def\<close>)

lemma assessEffect_authorised:
  assumes "assessEffect sv target e w = (Inr a, w')"
  shows "as_effect a = e" and "as_classification a \<noteq> Blocking_effect \<longrightarrow> authorised (sv_registry sv) target e"
proof -
  have "as_effect a = e \<and> (as_classification a \<noteq> Blocking_effect \<longrightarrow> authorised (sv_registry sv) target e)"
  proof (cases "ef_tier e")
    case Irreversible_tier
    then obtain b where "registryAssess (sv_issueText sv) (sv_registry sv) e w = (Inr b, w')"
      "as_effect a = e" "as_classification a = as_classification b"
      using assms by (auto simp: assessEffect_def succeed_def split: prod.splits sum.splits)
    with registryAssess_authorised[of _ _ e] Irreversible_tier show ?thesis by auto
  next
    case Sealed_tier
    with assms show ?thesis
      by (cases "ef_cacheKey e")
        (auto simp: assessEffect_def succeed_def authorised_def sealedAssessment_def split: prod.splits sum.splits if_splits)
  next
    case Compensable_tier
    with assms show ?thesis
      by (cases target) (auto simp: assessEffect_def succeed_def authorised_def compensableAssessment_def)
  qed
  then show "as_effect a = e" "as_classification a \<noteq> Blocking_effect \<longrightarrow> authorised (sv_registry sv) target e" by simp_all
qed

lemma assessAll_authorised:
  assumes "assessAll sv target es w = (Inr as, w')"
  shows "map as_effect as = es \<and> (\<forall>a \<in> set as. as_classification a \<noteq> Blocking_effect \<longrightarrow> authorised (sv_registry sv) target (as_effect a))"
  using assms
proof (induction es arbitrary: as w)
  case (Cons e es)
  then obtain a w1 rest where a: "assessEffect sv target e w = (Inr a, w1)" and rest: "assessAll sv target es w1 = (Inr rest, w')"
    and "as = a # rest" by (auto split: prod.splits sum.splits)
  with assessEffect_authorised[OF a] Cons.IH[OF rest] show ?case by auto
qed simp

lemma revertEach_effects:
  "revertEach sv p t es rs w = (Inr rs', w') \<Longrightarrow> map rr_effect rs' = map rr_effect rs @ es"
proof (induction es arbitrary: rs w)
  case (Cons e es)
  obtain r w1 where b: "bounded sv t (registryRevert (sv_registry sv) e) w = (Inr r, w1)"
    using Cons.prems by (auto split: prod.splits sum.splits)
  obtain h where "rr_effect r = e" by (rule revert_call_ok[OF bounded_ok[OF b]])
  moreover obtain w2 where "revertEach sv p t es (rs @ [r]) w2 = (Inr rs', w')"
    using Cons.prems b by (auto split: prod.splits sum.splits)
  ultimately show ?case using Cons.IH[of "rs @ [r]" w2] by simp
qed simp

lemma descending_sort: "sorted_wrt (\<lambda>a b. er_seq b \<le> er_seq a) (sort_key (\<lambda>e. - int (er_seq e)) xs)"
  using sorted_sort_key[of "\<lambda>e. - int (er_seq e)" xs] by (simp add: sorted_map)

lemma image_filter_subset: "mset (map f (filter (\<lambda>a. P (f a) \<and> Q a) xs)) \<subseteq># filter_mset P (mset (map f xs))"
  by (induction xs) (auto intro: subset_mset.order_trans simp: subset_mset.le_iff_add)

lemma compensationOrder_spec:
  "sorted_wrt (\<lambda>a b. er_seq b \<le> er_seq a) (compensationOrder plan)"
  "mset (compensationOrder plan) = mset (map as_effect (filter (\<lambda>a. ef_tier (as_effect a) = Irreversible_tier
     \<and> as_classification a = Revertible_effect) (pl_assessments plan)))"
  unfolding compensationOrder_def by (rule descending_sort, rule mset_sort)

lemma assertExecutable_none:
  "assertExecutable plan = (None :: 'x comp_failure option) \<longleftrightarrow> list_all (\<lambda>a. as_classification a \<noteq> Blocking_effect) (pl_assessments plan)"
  by (auto simp: assertExecutable_def Let_def filter_empty_conv list_all_iff)

lemma blocked_plan_inert:
  assumes "\<not> list_all (\<lambda>a. as_classification a \<noteq> Blocking_effect) (pl_assessments plan)"
  shows "\<exists>f. execute sv plan t w = (Inl f, w) \<and> tt_code (cf_error f) = Irreversible_effect"
proof -
  have "length (filter (\<lambda>a. as_classification a = Blocking_effect) (pl_assessments plan)) \<noteq> 0"
    using assms by (auto simp: filter_empty_conv list_all_iff)
  then show ?thesis by (simp add: execute_def compensate_def assertExecutable_def Let_def)
qed

lemma assess_spec:
  assumes "assess sv effects target w = (Inr plan, w')"
  shows "map as_effect (pl_assessments plan) = sort_key er_seq effects"
    and "\<forall>a \<in> set (pl_assessments plan). as_classification a \<noteq> Blocking_effect \<longrightarrow> authorised (sv_registry sv) target (as_effect a)"
proof -
  have run: "assessAll sv target (sort_key er_seq effects) w = (Inr (pl_assessments plan), w')"
    using assms by (auto simp: assess_def Let_def split: prod.splits sum.splits)
  show "map as_effect (pl_assessments plan) = sort_key er_seq effects"
    by (rule conjunct1[OF assessAll_authorised[OF run]])
  show "\<forall>a \<in> set (pl_assessments plan). as_classification a \<noteq> Blocking_effect \<longrightarrow> authorised (sv_registry sv) target (as_effect a)"
    by (rule conjunct2[OF assessAll_authorised[OF run]])
qed

end
