(* ===== verification/Compensation_Properties.thy ===== *)
theory Compensation_Properties
  imports Compensation_Lemmas
begin

text \<open>
  What compensation guarantees: only authorised effects are reverted, newest first; a failed rewind whose cleanup succeeded
  leaves what handlers and jj control as it found it; and a completed one can be rolled back.
\<close>

section \<open>An example\<close>













section \<open>The properties\<close>







end
