(* ===== verification/History_Replay.thy ===== *)
theory History_Replay
  imports Journal_Replay Time_Travel_Store
begin

text \<open>
  Deriving a past state from the journal alone (\<open>packages/smithers/flows/time-travel/src/internal/Replay.ts\<close> with
  \<open>HistoryLimit.ts\<close>): the paged fold of a run's entries up to a frame.  A page read and a cache read are functions, the
  versioned engine decoder (\<open>journal/src/EngineEvent.ts\<close>, \<open>decodeEntry\<close>) is a predicate, and the columns of an entry
  that the fold reads beside the shared ones are the fields of its payload.  The loop runs on fuel.
\<close>

section \<open>Limits\<close>

definition defaultMaxHistoryEntries :: nat where
  "defaultMaxHistoryEntries = 100000"

text \<open>A caller's number: an integer, or another double with its text.\<close>

datatype limit_input = Integer_limit int | Other_limit ustring

definition limitText :: "limit_input \<Rightarrow> ustring" where
  "limitText v = (case v of Integer_limit i \<Rightarrow> (if i < 0 then js ''-'' else []) @ decimal (nat \<bar>i\<bar>) | Other_limit t \<Rightarrow> t)"

definition resolveLimit :: "limit_input option \<Rightarrow> nat \<Rightarrow> tt_error + nat" where
  "resolveLimit value fallback =
     (case value of
        None \<Rightarrow> Inr fallback
      | Some v \<Rightarrow>
          (case (case v of Integer_limit i \<Rightarrow> if 1 \<le> i \<and> i \<le> 2 ^ 53 - 1 then Some (nat i) else None | Other_limit t \<Rightarrow> None) of
             Some n \<Rightarrow> Inr n
           | None \<Rightarrow> Inl (TimeTravelError Invalid_input
               (js ''maxHistoryEntries must be a positive integer, not '' @ limitText v))))"

definition exceeded :: "ustring \<Rightarrow> ustring \<Rightarrow> nat \<Rightarrow> tt_error" where
  "exceeded operation runId limit = TimeTravelError Limit_exceeded
     (operation @ js '' of '' @ runId @ js '' would read more than '' @ decimal limit
      @ js '' journal entries; raise maxHistoryEntries to allow it'')"

section \<open>Entries\<close>

record history_columns =
  hc_eventId :: ustring
  hc_meta :: "json option"
  hc_payload :: json

type_synonym history_entry = "history_columns journal_entry"

text \<open>\<open>LineageMetadata\<close> and \<open>CacheMetadata\<close>: one non-empty string member.\<close>

definition metaText :: "ustring \<Rightarrow> history_entry \<Rightarrow> ustring option" where
  "metaText member entry =
     (case hc_meta (je_payload entry) of
        Some (JObject members) \<Rightarrow>
          (case map_of members member of Some (JString s) \<Rightarrow> if s = [] then None else Some s | _ \<Rightarrow> None)
      | _ \<Rightarrow> None)"

text \<open>\<open>/^flows\.engine\.v[0-9]+(?:\.|$)/\<close>\<close>

definition versionedEngine :: "ustring \<Rightarrow> bool" where
  "versionedEngine ty =
     (let start = js ''flows.engine.v'';
          rest = drop (length start) ty;
          after = dropWhile (\<lambda>u. 48 \<le> u \<and> u \<le> 57) rest in
      take (length start) ty = start \<and> length after < length rest \<and> (after = [] \<or> hd after = 46))"

record engine_consumer =
  ec_runId :: ustring
  ec_lineageId :: ustring
  ec_accepts :: "history_entry \<Rightarrow> bool"

record 's history_projection =
  hp_initial :: 's
  hp_reduce :: "'s \<Rightarrow> history_entry \<Rightarrow> json option \<Rightarrow> 's"

record replay_options =
  ro_runId :: ustring
  ro_engineEvents :: "engine_consumer option"
  ro_maxEntries :: "nat option"

text \<open>The version recorded by this entry answers first: the cache is asked with its coordinate.\<close>

type_synonym cache_reader = "ustring \<Rightarrow> ustring \<times> nat \<Rightarrow> unit + json option"

section \<open>The fold\<close>

record 's replay_state =
  rs_state :: 's
  rs_foundLineage :: bool
  rs_folded :: nat
  rs_seen :: "nat set"
  rs_lastSeq :: "nat option" \<comment> \<open>\<open>None\<close> is \<open>-1\<close>\<close>

definition foldEntry :: "cache_reader \<Rightarrow> 's history_projection \<Rightarrow> replay_options \<Rightarrow> history_entry \<Rightarrow> 's \<Rightarrow> tt_error + 's" where
  "foldEntry cache projection options entry state =
     (case metaText (js ''cacheKey'') entry of
        None \<Rightarrow> Inr (hp_reduce projection state entry None)
      | Some key \<Rightarrow>
          (case cache key (ro_runId options, je_seq entry) of
             Inl _ \<Rightarrow> Inl (TimeTravelError Unknown_failure (js ''could not read sealed result''))
           | Inr cached \<Rightarrow> Inr (hp_reduce projection state entry cached)))"

definition entryLineage :: "lineage_frame \<Rightarrow> replay_options \<Rightarrow> history_entry \<Rightarrow> tt_error + ustring option" where
  "entryLineage frame options entry =
     (if versionedEngine (je_eventType entry)
      then case ro_engineEvents options of
          Some consumer \<Rightarrow>
            if ec_runId consumer \<noteq> ro_runId options \<or> ec_lineageId consumer \<noteq> fr_lineageId frame
            then Inl (TimeTravelError Invalid_input (js ''versioned engine replay requires the matching lineage and source contract''))
            else if \<not> ec_accepts consumer entry
            then Inl (TimeTravelError Invalid_input (js ''invalid versioned engine history''))
            else Inr (Some (ec_lineageId consumer))
        | None \<Rightarrow> Inl (TimeTravelError Invalid_input (js ''versioned engine replay requires the matching lineage and source contract''))
      else Inr (metaText (js ''lineageId'') entry))"

definition maxEntriesOf :: "replay_options \<Rightarrow> nat" where
  "maxEntriesOf options = (case ro_maxEntries options of None \<Rightarrow> defaultMaxHistoryEntries | Some n \<Rightarrow> n)"

text \<open>One entry that is within the frame and new.\<close>

definition takeEntry ::
  "cache_reader \<Rightarrow> lineage_frame \<Rightarrow> 's history_projection \<Rightarrow> replay_options \<Rightarrow> history_entry \<Rightarrow> 's replay_state
    \<Rightarrow> tt_error + 's replay_state" where
  "takeEntry cache frame projection options entry rs =
     (let rs = rs\<lparr>rs_seen := insert (je_seq entry) (rs_seen rs), rs_lastSeq := Some (je_seq entry), rs_folded := rs_folded rs + 1\<rparr> in
      if rs_folded rs > maxEntriesOf options
      then Inl (exceeded (js ''replay'') (ro_runId options) (maxEntriesOf options))
      else case entryLineage frame options entry of
          Inl e \<Rightarrow> Inl e
        | Inr lineageId \<Rightarrow>
            if lineageId \<noteq> None \<and> lineageId \<noteq> Some (fr_lineageId frame) then Inr rs
            else case foldEntry cache projection options entry (rs_state rs) of
                Inl e \<Rightarrow> Inl e
              | Inr state \<Rightarrow>
                  Inr (rs\<lparr>rs_foundLineage := (rs_foundLineage rs \<or> lineageId = Some (fr_lineageId frame)), rs_state := state\<rparr>))"

text \<open>The entries of a page in sequence order; the flag is \<open>pastFrame\<close>.\<close>

fun foldPage ::
  "cache_reader \<Rightarrow> lineage_frame \<Rightarrow> 's history_projection \<Rightarrow> replay_options \<Rightarrow> history_entry list \<Rightarrow> 's replay_state
    \<Rightarrow> tt_error + (bool \<times> 's replay_state)" where
  "foldPage cache frame projection options [] rs = Inr (False, rs)"
| "foldPage cache frame projection options (entry # rest) rs =
     (if je_seq entry \<in> rs_seen rs then foldPage cache frame projection options rest rs
      else if (case rs_lastSeq rs of None \<Rightarrow> False | Some l \<Rightarrow> je_seq entry < l)
      then Inl (TimeTravelError Invalid_input (js ''journal replay returned seq '' @ decimal (je_seq entry) @ js '' after seq ''
             @ decimal (case rs_lastSeq rs of None \<Rightarrow> 0 | Some l \<Rightarrow> l) @ js '' for '' @ ro_runId options))
      else if je_seq entry > fr_seq frame then Inr (True, rs)
      else case takeEntry cache frame projection options entry rs of
          Inl e \<Rightarrow> Inl e
        | Inr rs \<Rightarrow> foldPage cache frame projection options rest rs)"

fun rederiveLoop ::
  "(nat option \<Rightarrow> journal_error + history_columns entries_page) \<Rightarrow> cache_reader \<Rightarrow> lineage_frame \<Rightarrow> 's history_projection
    \<Rightarrow> replay_options \<Rightarrow> nat \<Rightarrow> nat option \<Rightarrow> 's replay_state \<Rightarrow> (tt_error + 's replay_state) option" where
  "rederiveLoop entries cache frame projection options 0 after rs = None"
| "rederiveLoop entries cache frame projection options (Suc fuel) after rs =
     (case entries after of
        Inl _ \<Rightarrow> Some (Inl (TimeTravelError Unknown_failure (js ''could not read journal'')))
      | Inr page \<Rightarrow>
          (let ordered = sort_key je_seq (pg_entries page) in
           case foldPage cache frame projection options ordered rs of
             Inl e \<Rightarrow> Some (Inl e)
           | Inr (pastFrame, rs) \<Rightarrow>
               if pastFrame \<or> \<not> pg_hasMore page then Some (Inr rs)
               else
                 (let pageTail = (if ordered = [] then None else Some (je_seq (last ordered))) in
                  if (case pageTail of None \<Rightarrow> True | Some t \<Rightarrow> (case after of None \<Rightarrow> False | Some a \<Rightarrow> t \<le> a))
                  then Some (Inl (TimeTravelError Invalid_input (js ''journal replay pagination did not advance'')))
                  else rederiveLoop entries cache frame projection options fuel pageTail rs)))"

definition startReplay :: "'s history_projection \<Rightarrow> 's replay_state" where
  "startReplay projection =
     \<lparr>rs_state = hp_initial projection, rs_foundLineage = False, rs_folded = 0, rs_seen = {}, rs_lastSeq = None\<rparr>"

definition rederive ::
  "nat \<Rightarrow> (nat option \<Rightarrow> journal_error + history_columns entries_page) \<Rightarrow> cache_reader \<Rightarrow> lineage_frame \<Rightarrow> 's history_projection
    \<Rightarrow> replay_options \<Rightarrow> (tt_error + 's) option" where
  "rederive fuel entries cache frame projection options =
     (case rederiveLoop entries cache frame projection options fuel None (startReplay projection) of
        None \<Rightarrow> None
      | Some (Inl e) \<Rightarrow> Some (Inl e)
      | Some (Inr rs) \<Rightarrow>
          if \<not> rs_foundLineage rs
          then Some (Inl (TimeTravelError Not_found
                 (js ''lineage '' @ fr_lineageId frame @ js '' is not present in '' @ ro_runId options)))
          else Some (Inr (rs_state rs)))"

end
