(* ===== verification/History_Properties.thy ===== *)
theory History_Properties
  imports History_Replay
begin

text \<open>
  What deriving a past state guarantees: it ends on every journal, and on the event table it is one fold over the entries of
  the run up to the frame, whatever the page size.
\<close>

section \<open>Pages\<close>

text \<open>The reader hands out a sorted history in pages of \<open>limit\<close> entries.\<close>

definition pages_of :: "nat \<Rightarrow> 'p journal_entry list \<Rightarrow> (nat option \<Rightarrow> journal_error + 'p entries_page) \<Rightarrow> bool" where
  "pages_of limit xs entries = (0 < limit \<and> sorted_wrt (\<lambda>x y. je_seq x < je_seq y) xs
     \<and> (\<forall>after. entries after = Inr \<lparr>pg_entries = take limit (following after xs),
           pg_hasMore = (length (following after xs) > limit)\<rparr>))"

lemma table_pages: "sound_table table \<Longrightarrow> 0 < limit \<Longrightarrow>
    pages_of limit (selectRows table run None) (readPage table (\<lambda>_. None) limit run)"
  unfolding pages_of_def using sql_journal.contents_sorted sql_journal.read_page by blast

lemma following_sorted:
  "sorted_wrt (\<lambda>x y. je_seq x < je_seq y) xs \<Longrightarrow> sorted_wrt (\<lambda>x y. je_seq x < je_seq y) (following after xs)"
  unfolding following_def by (rule sorted_wrt_filter)

section \<open>The loop ends\<close>

definition within_frame :: "lineage_frame \<Rightarrow> 's replay_state \<Rightarrow> bool" where
  "within_frame frame rs = ((\<forall>n \<in> rs_seen rs. n \<le> fr_seq frame) \<and> (\<forall>l. rs_lastSeq rs = Some l \<longrightarrow> l \<le> fr_seq frame))"

lemma takeEntry_marks:
  "takeEntry cache frame projection options entry rs = Inr rs' \<Longrightarrow>
     rs_seen rs' = insert (je_seq entry) (rs_seen rs) \<and> rs_lastSeq rs' = Some (je_seq entry)"
  by (auto simp: takeEntry_def Let_def split: if_splits sum.splits)

lemma foldPage_within:
  assumes "foldPage cache frame projection options page rs = Inr (past, rs')" "within_frame frame rs"
  shows "within_frame frame rs' \<and> (\<not> past \<longrightarrow> (\<forall>entry \<in> set page. je_seq entry \<le> fr_seq frame))"
  using assms
proof (induction page arbitrary: rs)
  case (Cons entry page)
  show ?case
  proof (cases "je_seq entry \<in> rs_seen rs")
    case True
    with Cons.prems(1) have "foldPage cache frame projection options page rs = Inr (past, rs')" by simp
    moreover have "je_seq entry \<le> fr_seq frame" using True Cons.prems(2) by (simp add: within_frame_def)
    ultimately show ?thesis using Cons.IH[OF _ Cons.prems(2)] by simp
  next
    case False
    show ?thesis
    proof (cases "takeEntry cache frame projection options entry rs")
      case (Inl e)
      with False Cons.prems show ?thesis by (auto split: if_splits)
    next
      case (Inr rs1)
      from takeEntry_marks[OF Inr] Cons.prems(2) have w: "je_seq entry \<le> fr_seq frame \<Longrightarrow> within_frame frame rs1"
        by (auto simp: within_frame_def)
      with False Inr Cons.prems Cons.IH[of rs1] show ?thesis by (auto split: if_splits)
    qed
  qed
qed simp

definition pages_left :: "lineage_frame \<Rightarrow> nat option \<Rightarrow> nat" where
  "pages_left frame after = (case after of None \<Rightarrow> fr_seq frame + 2 | Some a \<Rightarrow> fr_seq frame + 1 - a)"

lemma rederiveLoop_ends:
  assumes "pages_left frame after \<le> fuel" "within_frame frame rs" "case after of None \<Rightarrow> True | Some a \<Rightarrow> a \<le> fr_seq frame"
  shows "\<exists>r. \<forall>more. rederiveLoop entries cache frame projection options (fuel + more) after rs = Some r"
  using assms
proof (induction fuel arbitrary: after rs)
  case 0
  then show ?case by (auto simp: pages_left_def split: option.splits)
next
  case (Suc fuel)
  show ?case
  proof (cases "entries after")
    case (Inr page)
    let ?ordered = "sort_key je_seq (pg_entries page)"
    show ?thesis
    proof (cases "foldPage cache frame projection options ?ordered rs")
      case Inr': (Inr pr)
      obtain past rs1 where pr: "pr = (past, rs1)" by (cases pr)
      note w = foldPage_within[OF Inr'[unfolded pr] Suc.prems(2)]
      show ?thesis
      proof (cases "past \<or> \<not> pg_hasMore page \<or> ?ordered = [] \<or> (\<exists>a. after = Some a \<and> je_seq (last ?ordered) \<le> a)")
        case True
        with Inr Inr' pr show ?thesis by (cases past; cases "pg_hasMore page") (auto simp: Let_def)
      next
        case False
        let ?t = "je_seq (last ?ordered)"
        have "last ?ordered \<in> set ?ordered" using False by (intro last_in_set) simp
        then have t: "?t \<le> fr_seq frame" using w False by blast
        then have "pages_left frame (Some ?t) \<le> fuel"
          using Suc.prems(1,3) False by (auto simp: pages_left_def split: option.splits)
        from Suc.IH[OF this conjunct1[OF w]] t obtain r where
          r: "rederiveLoop entries cache frame projection options (fuel + more) (Some ?t) rs1 = Some r" for more by auto
        from False Inr Inr' pr r show ?thesis
          by (intro exI[of _ r]) (auto simp: Let_def not_le split: option.splits)
      qed
    qed (use Inr in \<open>auto simp: Let_def\<close>)
  qed auto
qed

section \<open>One pass\<close>

text \<open>The state has seen nothing after \<open>after\<close>.\<close>

definition seen_until :: "nat option \<Rightarrow> 's replay_state \<Rightarrow> bool" where
  "seen_until after rs = (\<forall>n. n \<in> rs_seen rs \<or> rs_lastSeq rs = Some n \<longrightarrow> (\<exists>a. after = Some a \<and> n \<le> a))"

abbreviation "stepEntry cache frame projection options \<equiv> (\<lambda>rs entry. takeEntry cache frame projection options entry rs)"

lemma foldPage_sorted:
  assumes "sorted_wrt (\<lambda>x y. je_seq x < je_seq y) page" "\<forall>entry \<in> set page. case after of None \<Rightarrow> True | Some a \<Rightarrow> a < je_seq entry"
    and "seen_until after rs"
  shows "foldPage cache frame projection options page rs =
    (case foldM (stepEntry cache frame projection options) rs (filter (\<lambda>x. je_seq x \<le> fr_seq frame) page) of
       Inl e \<Rightarrow> Inl e
     | Inr rs' \<Rightarrow> Inr (list_ex (\<lambda>x. fr_seq frame < je_seq x) page, rs'))"
    and "foldM (stepEntry cache frame projection options) rs page = Inr rs' \<Longrightarrow> page \<noteq> [] \<Longrightarrow>
      seen_until (Some (je_seq (last page))) rs'"
  using assms
proof (induction page arbitrary: after rs)
  case (Cons entry page)
  {
    case 1
    have fresh: "je_seq entry \<notin> rs_seen rs" "\<not> (case rs_lastSeq rs of None \<Rightarrow> False | Some l \<Rightarrow> je_seq entry < l)"
      using 1(2,3) by (auto simp: seen_until_def split: option.splits)
    show ?case
    proof (cases "fr_seq frame < je_seq entry")
      case True
      then have "filter (\<lambda>x. je_seq x \<le> fr_seq frame) page = []"
        using 1(1) by (auto simp: filter_empty_conv not_le intro: less_trans)
      with True fresh show ?thesis by (simp add: not_le)
    next
      case False
      show ?thesis
      proof (cases "takeEntry cache frame projection options entry rs")
        case (Inl e)
        with False fresh show ?thesis by (simp add: not_le)
      next
        case (Inr rs1)
        have "seen_until (Some (je_seq entry)) rs1"
          using 1(2,3) takeEntry_marks[OF Inr] by (fastforce simp: seen_until_def split: option.splits)
        with Cons.IH(1)[of "Some (je_seq entry)" rs1] 1(1) Inr False fresh show ?thesis
          by (simp add: not_le split: sum.split)
      qed
    qed
  next
    case 2
    then obtain rs1 where t: "takeEntry cache frame projection options entry rs = Inr rs1"
      and rest: "foldM (stepEntry cache frame projection options) rs1 page = Inr rs'" by (auto split: sum.splits)
    have s1: "seen_until (Some (je_seq entry)) rs1"
      using 2(4,5) takeEntry_marks[OF t] by (fastforce simp: seen_until_def split: option.splits)
    show ?case
    proof (cases "page = []")
      case True
      with rest s1 show ?thesis by simp
    next
      case False
      with Cons.IH(2)[where after = "Some (je_seq entry)" and rs = rs1] rest s1 2 show ?thesis by simp
    qed
  }
qed simp_all

lemma beyond_frame:
  assumes "sorted_wrt (\<lambda>x y. je_seq x < je_seq y) (p @ q)" "list_ex (\<lambda>x. F < je_seq x) p"
  shows "filter (\<lambda>x. je_seq x \<le> F) q = []"
proof -
  obtain x where "x \<in> set p" "F < je_seq x" using assms(2) by (auto simp: list_ex_iff)
  moreover have "\<forall>y \<in> set q. je_seq x < je_seq y" using assms(1) \<open>x \<in> set p\<close> unfolding sorted_wrt_append by blast
  ultimately show ?thesis by (auto simp: filter_empty_conv)
qed

lemma rederiveLoop_pages:
  assumes "pages_of limit xs entries" "seen_until after rs" "length (following after xs) < fuel"
  shows "rederiveLoop entries cache frame projection options fuel after rs =
    Some (foldM (stepEntry cache frame projection options) rs (filter (\<lambda>x. je_seq x \<le> fr_seq frame) (following after xs)))"
  using assms(2,3)
proof (induction fuel arbitrary: after rs)
  case (Suc fuel)
  let ?P = "\<lambda>x. je_seq x \<le> fr_seq frame" and ?step = "stepEntry cache frame projection options"
  let ?ys = "following after xs"
  let ?page = "take limit ?ys"
  have sorted: "sorted_wrt (\<lambda>x y. je_seq x < je_seq y) xs" and pos: "0 < limit"
    and read: "entries after = Inr \<lparr>pg_entries = ?page, pg_hasMore = (length ?ys > limit)\<rparr>"
    using assms(1) by (simp_all add: pages_of_def)
  have ys: "sorted_wrt (\<lambda>x y. je_seq x < je_seq y) ?ys" by (rule following_sorted[OF sorted])
  then have both: "sorted_wrt (\<lambda>x y. je_seq x < je_seq y) (?page @ drop limit ?ys)" by simp
  then have page: "sorted_wrt (\<lambda>x y. je_seq x < je_seq y) ?page" unfolding sorted_wrt_append by blast
  then have id: "sort_key je_seq ?page = ?page"
    by (intro sort_key_id_if_sorted) (simp add: sorted_wrt_map sorted_wrt_mono_rel[of _ "\<lambda>x y. je_seq x < je_seq y"])
  have above: "\<forall>entry \<in> set ?page. case after of None \<Rightarrow> True | Some a \<Rightarrow> a < je_seq entry"
    using following_after in_set_takeD by fast
  note fold = foldPage_sorted(1)[OF page above Suc.prems(1), of cache frame projection options]
  have split: "filter ?P ?ys = filter ?P ?page @ filter ?P (drop limit ?ys)"
    by (metis append_take_drop_id filter_append)
  show ?case
  proof (cases "foldM ?step rs (filter ?P ?page)")
    case (Inl e)
    then show ?thesis by (simp add: read Let_def id fold split foldM_append)
  next
    case (Inr rs1)
    show ?thesis
    proof (cases "list_ex (\<lambda>x. fr_seq frame < je_seq x) ?page \<or> length ?ys \<le> limit")
      case True
      then have "filter ?P (drop limit ?ys) = []"
        using beyond_frame[OF both] by auto
      with True Inr show ?thesis by (auto simp: read Let_def id fold split foldM_append not_less)
    next
      case False
      then have ne: "?page \<noteq> []" using pos by auto
      have all: "filter ?P ?page = ?page" using False by (auto simp: list_ex_iff filter_id_conv not_less)
      have seen: "seen_until (Some (je_seq (last ?page))) rs1"
        using foldPage_sorted(2)[OF page above Suc.prems(1) Inr[unfolded all] ne] .
      have adv: "case after of None \<Rightarrow> True | Some a \<Rightarrow> a < je_seq (last ?page)" using above last_in_set[OF ne] by blast
      have more: "following (Some (je_seq (last ?page))) xs = drop limit ?ys" by (rule following_drop[OF sorted refl ne])
      have "length (drop limit ?ys) < fuel" using Suc.prems(2) False pos by (simp del: length_take) linarith
      with Suc.IH[OF seen] have "rederiveLoop entries cache frame projection options fuel (Some (je_seq (last ?page))) rs1
          = Some (foldM ?step rs1 (filter ?P (drop limit ?ys)))" unfolding more by simp
      with False Inr ne adv show ?thesis
        by (auto simp: read Let_def id fold split foldM_append not_le split: option.splits)
    qed
  qed
qed simp

lemma rederiveLoop_one_pass:
  assumes "pages_of limit xs entries" "fr_seq frame + 2 \<le> fuel"
  shows "rederiveLoop entries cache frame projection options fuel None (startReplay projection) =
    Some (foldM (stepEntry cache frame projection options) (startReplay projection) (filter (\<lambda>x. je_seq x \<le> fr_seq frame) xs))"
proof -
  have "within_frame frame (startReplay projection)" "seen_until None (startReplay projection)"
    by (simp_all add: within_frame_def seen_until_def startReplay_def)
  note start = this
  obtain r where r: "rederiveLoop entries cache frame projection options (fr_seq frame + 2 + more) None (startReplay projection) = Some r" for more
    using rederiveLoop_ends[OF _ start(1), of None "fr_seq frame + 2" entries cache projection options] by (auto simp: pages_left_def)
  have "length (following None xs) < fr_seq frame + 2 + (fuel + length xs)" by (simp add: following_def)
  from rederiveLoop_pages[OF assms(1) start(2) this] r assms(2) show ?thesis
    by (metis (no_types, lifting) following_def option.case(1) filter_True le_add_diff_inverse)
qed

section \<open>What the fold computes\<close>

definition relevant :: "lineage_frame \<Rightarrow> replay_options \<Rightarrow> history_entry \<Rightarrow> bool" where
  "relevant frame options entry = (entryLineage frame options entry \<in> {Inr None, Inr (Some (fr_lineageId frame))})"

definition sealedResult :: "cache_reader \<Rightarrow> replay_options \<Rightarrow> history_entry \<Rightarrow> unit + json option" where
  "sealedResult cache options entry = (case metaText (js ''cacheKey'') entry of None \<Rightarrow> Inr None
     | Some key \<Rightarrow> cache key (ro_runId options, je_seq entry))"

definition acceptable :: "cache_reader \<Rightarrow> lineage_frame \<Rightarrow> replay_options \<Rightarrow> history_entry \<Rightarrow> bool" where
  "acceptable cache frame options entry = (\<not> isl (entryLineage frame options entry)
     \<and> (relevant frame options entry \<longrightarrow> \<not> isl (sealedResult cache options entry)))"

definition pastState :: "cache_reader \<Rightarrow> lineage_frame \<Rightarrow> 's history_projection \<Rightarrow> replay_options \<Rightarrow> history_entry list \<Rightarrow> 's \<Rightarrow> 's" where
  "pastState cache frame projection options es =
     fold (\<lambda>e s. hp_reduce projection s e (projr (sealedResult cache options e))) (filter (relevant frame options) es)"

lemma foldEntry_sealed: "foldEntry cache projection options e s = (case sealedResult cache options e of
    Inl _ \<Rightarrow> Inl (TimeTravelError Unknown_failure (js ''could not read sealed result'')) | Inr v \<Rightarrow> Inr (hp_reduce projection s e v))"
  by (simp add: foldEntry_def sealedResult_def split: option.split)

definition ownEntry :: "lineage_frame \<Rightarrow> replay_options \<Rightarrow> history_entry \<Rightarrow> bool" where
  "ownEntry frame options entry = (entryLineage frame options entry = Inr (Some (fr_lineageId frame)))"

lemma takeEntry_Inr:
  "takeEntry cache frame projection options e rs = Inr rs' \<longleftrightarrow>
     rs_folded rs < maxEntriesOf options \<and> acceptable cache frame options e
     \<and> rs' = rs\<lparr>rs_seen := insert (je_seq e) (rs_seen rs), rs_lastSeq := Some (je_seq e), rs_folded := rs_folded rs + 1,
          rs_foundLineage := (rs_foundLineage rs \<or> ownEntry frame options e),
          rs_state := pastState cache frame projection options [e] (rs_state rs)\<rparr>"
  by (cases "entryLineage frame options e"; cases "sealedResult cache options e")
    (auto simp: takeEntry_def Let_def acceptable_def relevant_def ownEntry_def pastState_def foldEntry_sealed)

lemma pastState_Cons:
  "pastState cache frame projection options (e # es) s =
     pastState cache frame projection options es (pastState cache frame projection options [e] s)"
  by (simp add: pastState_def)

lemma foldM_takeEntry:
  assumes "rs_folded rs \<le> maxEntriesOf options"
  shows "(\<exists>rs'. foldM (stepEntry cache frame projection options) rs es = Inr rs' \<and> rs_foundLineage rs' = found \<and> rs_state rs' = s) \<longleftrightarrow>
    rs_folded rs + length es \<le> maxEntriesOf options \<and> list_all (acceptable cache frame options) es
    \<and> found = (rs_foundLineage rs \<or> list_ex (ownEntry frame options) es)
    \<and> s = pastState cache frame projection options es (rs_state rs)"
  using assms
proof (induction es arbitrary: rs)
  case Nil
  then show ?case by (auto simp: pastState_def)
next
  case (Cons e es)
  show ?case
  proof (cases "takeEntry cache frame projection options e rs")
    case (Inl x)
    then have "\<not> (rs_folded rs < maxEntriesOf options \<and> acceptable cache frame options e)"
      using takeEntry_Inr[of cache frame projection options e rs] by auto
    with Inl show ?thesis by auto
  next
    case (Inr rs1)
    note t = takeEntry_Inr[THEN iffD1, OF Inr]
    then have "rs_folded rs1 \<le> maxEntriesOf options" by simp
    note IH = Cons.IH[OF this]
    show ?thesis
      by (simp only: foldM.simps Inr sum.case IH) (use t in \<open>auto simp: pastState_Cons[of _ _ _ _ e es]\<close>)
  qed
qed

section \<open>The properties\<close>

text \<open>(C31) Deriving a past state ends on every journal, however its pages are ordered, repeated or cut, after at most two
  pages more than the frame's sequence number.\<close>

theorem rederive_terminates:
  "\<exists>r. \<forall>more. rederive (fr_seq frame + 2 + more) entries cache frame projection options = Some r"
proof -
  have "within_frame frame (startReplay projection)" by (simp add: within_frame_def startReplay_def)
  from rederiveLoop_ends[OF _ this, of None "fr_seq frame + 2" entries cache projection options] obtain r where
    "rederiveLoop entries cache frame projection options (fr_seq frame + 2 + more) None (startReplay projection) = Some r" for more
    by (auto simp: pages_left_def)
  then show ?thesis by (cases r) (auto simp: rederive_def)
qed

text \<open>(C21) On the event table the derived state is one fold, in sequence order, over the entries of the run up to the frame
  that belong to the frame's lineage or to none, each with the sealed result recorded under its coordinate; it is refused
  when the entries are too many, one of them cannot be read or none carries the lineage, and never depends on the page
  size.\<close>

theorem rederive_is_one_fold:
  assumes "sound_table table" "0 < limit" "0 < limit'" "fr_seq frame + 2 \<le> fuel"
  shows "(let es = filter (\<lambda>x. je_seq x \<le> fr_seq frame) (selectRows table (ro_runId options) None) in
      rederive fuel (readPage table (\<lambda>_. None) limit (ro_runId options)) cache frame projection options = Some (Inr s) \<longleftrightarrow>
        length es \<le> maxEntriesOf options \<and> list_all (acceptable cache frame options) es
        \<and> list_ex (ownEntry frame options) es \<and> s = pastState cache frame projection options es (hp_initial projection))
    \<and> rederive fuel (readPage table (\<lambda>_. None) limit (ro_runId options)) cache frame projection options
      = rederive fuel (readPage table (\<lambda>_. None) limit' (ro_runId options)) cache frame projection options"
proof -
  let ?es = "filter (\<lambda>x. je_seq x \<le> fr_seq frame) (selectRows table (ro_runId options) None)"
  let ?result = "foldM (stepEntry cache frame projection options) (startReplay projection) ?es"
  note run = rederiveLoop_one_pass[OF table_pages[OF assms(1)] assms(4), of _ "ro_runId options" cache projection options]
  have "rederive fuel (readPage table (\<lambda>_. None) limit (ro_runId options)) cache frame projection options = Some (Inr s)
      \<longleftrightarrow> (\<exists>rs'. ?result = Inr rs' \<and> rs_foundLineage rs' = True \<and> rs_state rs' = s)"
    by (cases ?result) (auto simp: rederive_def run[OF assms(2)])
  also have "\<dots> \<longleftrightarrow> length ?es \<le> maxEntriesOf options \<and> list_all (acceptable cache frame options) ?es
        \<and> list_ex (ownEntry frame options) ?es \<and> s = pastState cache frame projection options ?es (hp_initial projection)"
    by (subst foldM_takeEntry) (simp_all add: startReplay_def)
  finally show ?thesis by (simp add: Let_def rederive_def run[OF assms(2)] run[OF assms(3)])
qed

definition countedRow :: history_entry where
  "countedRow = \<lparr>je_runId = [1], je_seq = 0, je_sourceId = [], je_eventType = [],
     je_payload = \<lparr>hc_eventId = [], hc_meta = Some (JObject [(js ''lineageId'', JString [7])]), hc_payload = JNull\<rparr>\<rparr>"

definition countEntries :: "nat history_projection" where
  "countEntries = \<lparr>hp_initial = 0, hp_reduce = (\<lambda>n entry sealed. n + 1)\<rparr>"

definition countOptions :: replay_options where
  "countOptions = \<lparr>ro_runId = [1], ro_engineEvents = None, ro_maxEntries = None\<rparr>"

theorem rederive_is_one_fold_witness:
  "rederive 4 (readPage [countedRow] (\<lambda>_. None) 2 [1]) (\<lambda>k at. Inr None) \<lparr>fr_lineageId = [7], fr_seq = 2\<rparr> countEntries countOptions
     = Some (Inr 1)"
proof -
  let ?frame = "\<lparr>fr_lineageId = [7], fr_seq = 2\<rparr> :: lineage_frame" and ?cache = "\<lambda>k at. Inr None"
  have run: "ro_runId countOptions = [1]" and most: "maxEntriesOf countOptions = 100000"
    by (simp_all add: countOptions_def maxEntriesOf_def defaultMaxHistoryEntries_def)
  have rows: "filter (\<lambda>x. je_seq x \<le> 2) (selectRows [countedRow] [1] None) = [countedRow]"
    by (simp add: selectRows_def countedRow_def)
  have lin: "entryLineage ?frame countOptions countedRow = Inr (Some [7])"
    by (simp add: entryLineage_def versionedEngine_def countedRow_def metaText_def js_lits)
  have sealed: "sealedResult ?cache countOptions countedRow = Inr None"
    by (simp add: sealedResult_def countedRow_def metaText_def js_lits)
  have row: "acceptable ?cache ?frame countOptions countedRow" "ownEntry ?frame countOptions countedRow"
    "pastState ?cache ?frame countEntries countOptions [countedRow] (hp_initial countEntries) = 1"
    using lin sealed by (simp_all add: acceptable_def ownEntry_def pastState_def relevant_def countEntries_def)
  have "sound_table [countedRow]" by (simp add: sound_table_def)
  from rederive_is_one_fold[OF this, of 2 2 ?frame 4 countOptions ?cache countEntries 1]
  show ?thesis using row by (simp add: Let_def run most rows)
qed

end
