(* ===== verification/Snapshot_Projector.thy ===== *)
theory Snapshot_Projector
  imports History_Replay
begin

text \<open>
  The anchor projector (\<open>packages/smithers/flows/time-travel/src/internal/SnapshotProjector.ts\<close>): the fold of a run's journal
  that records one workspace snapshot per snapshot record, lineage by lineage, in the time-travel store.
\<close>

section \<open>State\<close>

record lineage_state =
  ln_changeId :: "ustring option"
  ln_planDigest :: "ustring option"

record projector_state =
  ps_lineages :: "(ustring \<times> lineage_state) list"
  ps_anchors :: nat

definition initialProjection :: projector_state where
  "initialProjection = \<lparr>ps_lineages = [], ps_anchors = 0\<rparr>"

definition emptyLineage :: lineage_state where
  "emptyLineage = \<lparr>ln_changeId = None, ln_planDigest = None\<rparr>"

section \<open>Payloads\<close>

text \<open>\<open>1\<close> as an IEEE 754 double.\<close>

definition numberOne :: js_number where
  "numberOne = 0x3FF0000000000000"

definition versionOk :: "(ustring \<times> json) list \<Rightarrow> bool" where
  "versionOk members = (case map_of members (js ''version'') of None \<Rightarrow> True | Some v \<Rightarrow> v = JNumber numberOne)"

definition isBoolean :: "json \<Rightarrow> bool" where
  "isBoolean v = (case v of JBool b \<Rightarrow> True | _ \<Rightarrow> False)"

definition nonEmptyText :: "json \<Rightarrow> ustring option" where
  "nonEmptyText v = (case v of JString s \<Rightarrow> if s = [] then None else Some s | _ \<Rightarrow> None)"

text \<open>\<open>None\<close> is a payload that does not decode; else the optional \<open>snapshotId\<close>.\<close>

definition decodeSnapshotPayload :: "json \<Rightarrow> ustring option option" where
  "decodeSnapshotPayload payload =
     (case payload of
        JObject members \<Rightarrow>
          if \<not> versionOk members then None
          else if (case map_of members (js ''carried'') of None \<Rightarrow> False | Some v \<Rightarrow> \<not> isBoolean v) then None
          else (case map_of members (js ''snapshotId'') of
                  None \<Rightarrow> Some None
                | Some v \<Rightarrow> (case nonEmptyText v of None \<Rightarrow> None | Some s \<Rightarrow> Some (Some s)))
      | _ \<Rightarrow> None)"

definition decodePlanPayload :: "json \<Rightarrow> ustring option" where
  "decodePlanPayload payload =
     (case payload of
        JObject members \<Rightarrow> if \<not> versionOk members then None else Option.bind (map_of members (js ''digest'')) nonEmptyText
      | _ \<Rightarrow> None)"

section \<open>The fold\<close>

definition isPlanEvent :: "history_entry \<Rightarrow> bool" where
  "isPlanEvent entry = (je_eventType entry = js ''flows.engine.plan-recorded''
     \<or> je_eventType entry = js ''flows.engine.subgraph-appended'')"

definition isSnapshotEvent :: "history_entry \<Rightarrow> bool" where
  "isSnapshotEvent entry = (je_eventType entry = js ''flows.engine.snapshot-identified'')"

definition corrupt :: "ustring \<Rightarrow> history_entry \<Rightarrow> ustring \<Rightarrow> tt_error" where
  "corrupt kind entry problem = TimeTravelError Invalid_input
     (kind @ js '' event '' @ hc_eventId (je_payload entry) @ problem)"

definition reduceAnchor :: "projector_state \<Rightarrow> history_entry \<Rightarrow> tt_store \<Rightarrow> projector_state outcome" where
  "reduceAnchor state entry s =
     (if \<not> isPlanEvent entry \<and> \<not> isSnapshotEvent entry then (Inr state, s)
      else
        let kind = (if isPlanEvent entry then js ''plan'' else js ''snapshot'') in
        case metaText (js ''lineageId'') entry of
          None \<Rightarrow> (Inl (corrupt kind entry (js '' has corrupt lineage metadata'')), s)
        | Some lineageId \<Rightarrow>
            let lineage = (case map_of (ps_lineages state) lineageId of None \<Rightarrow> emptyLineage | Some l \<Rightarrow> l) in
            if isPlanEvent entry
            then (case decodePlanPayload (hc_payload (je_payload entry)) of
                None \<Rightarrow> (Inl (corrupt kind entry (js '' is corrupt'')), s)
              | Some d \<Rightarrow>
                  (Inr (state\<lparr>ps_lineages := jsmap_set (ps_lineages state) lineageId (lineage\<lparr>ln_planDigest := Some d\<rparr>)\<rparr>), s))
            else (case decodeSnapshotPayload (hc_payload (je_payload entry)) of
                None \<Rightarrow> (Inl (corrupt kind entry (js '' is corrupt'')), s)
              | Some snapshotId \<Rightarrow>
                  (case (case snapshotId of Some c \<Rightarrow> Some c | None \<Rightarrow> ln_changeId lineage) of
                     None \<Rightarrow> (Inr state, s)
                   | Some changeId \<Rightarrow>
                       (case recordSnapshot \<lparr>sn_runId = je_runId entry,
                               sn_frame = \<lparr>fr_lineageId = lineageId, fr_seq = je_seq entry\<rparr>, sn_changeId = changeId,
                               sn_planDigest = ln_planDigest lineage\<rparr> s of
                          (Inl e, s) \<Rightarrow> (Inl e, s)
                        | (Inr u, s) \<Rightarrow>
                            (Inr \<lparr>ps_lineages = jsmap_set (ps_lineages state) lineageId
                                    \<lparr>ln_changeId = Some changeId, ln_planDigest = ln_planDigest lineage\<rparr>,
                                  ps_anchors = ps_anchors state + 1\<rparr>, s)))))"

fun reduceAll :: "projector_state \<Rightarrow> history_entry list \<Rightarrow> tt_store \<Rightarrow> projector_state outcome" where
  "reduceAll state [] s = (Inr state, s)"
| "reduceAll state (entry # rest) s =
     (case reduceAnchor state entry s of
        (Inl e, s) \<Rightarrow> (Inl e, s)
      | (Inr state, s) \<Rightarrow> reduceAll state rest s)"

fun projectLoop ::
  "ustring \<Rightarrow> (nat option \<Rightarrow> journal_error + history_columns entries_page) \<Rightarrow> nat \<Rightarrow> nat option \<Rightarrow> projector_state \<Rightarrow> tt_store
    \<Rightarrow> projector_state outcome option" where
  "projectLoop runId entries 0 after state s = None"
| "projectLoop runId entries (Suc fuel) after state s =
     (case entries after of
        Inl _ \<Rightarrow> Some (Inl (TimeTravelError Unknown_failure (js ''could not read '' @ runId @ js '' for anchoring'')), s)
      | Inr page \<Rightarrow>
          (case reduceAll state (pg_entries page) s of
             (Inl e, s) \<Rightarrow> Some (Inl e, s)
           | (Inr state, s) \<Rightarrow>
               (let tail = (if pg_entries page = [] then None else Some (je_seq (last (pg_entries page)))) in
                if \<not> pg_hasMore page then Some (Inr state, s)
                else if (case tail of None \<Rightarrow> True | Some t \<Rightarrow> (case after of None \<Rightarrow> False | Some a \<Rightarrow> t \<le> a))
                then Some (Inl (TimeTravelError Invalid_input (js ''snapshot pagination did not advance for '' @ runId)), s)
                else projectLoop runId entries fuel tail state s)))"

definition projectAnchors ::
  "nat \<Rightarrow> (nat option \<Rightarrow> journal_error + history_columns entries_page) \<Rightarrow> ustring \<Rightarrow> tt_store \<Rightarrow> projector_state outcome option" where
  "projectAnchors fuel entries runId s = projectLoop runId entries fuel None initialProjection s"

end
