(* ===== verification/Projector_Properties.thy ===== *)
theory Projector_Properties
  imports Snapshot_Projector History_Properties
begin

text \<open>
  What anchoring guarantees: it is one pass over the run's entries, each anchor is computed from the records of its own
  lineage, and a second run changes nothing.
\<close>

section \<open>Facts of one lineage\<close>

definition planFact :: "ustring \<Rightarrow> history_entry \<Rightarrow> ustring option" where
  "planFact l e = (if isPlanEvent e \<and> metaText (js ''lineageId'') e = Some l then decodePlanPayload (hc_payload (je_payload e)) else None)"

definition snapshotOn :: "ustring \<Rightarrow> history_entry \<Rightarrow> bool" where
  "snapshotOn l e = (\<not> isPlanEvent e \<and> isSnapshotEvent e \<and> metaText (js ''lineageId'') e = Some l)"

definition changeFact :: "ustring \<Rightarrow> history_entry \<Rightarrow> ustring option" where
  "changeFact l e = (if snapshotOn l e then Option.bind (decodeSnapshotPayload (hc_payload (je_payload e))) id else None)"

text \<open>The plan digest and the change in force on a lineage after some entries: the last ones its own records name.\<close>

definition lastPlan :: "ustring \<Rightarrow> history_entry list \<Rightarrow> ustring option" where
  "lastPlan l es = fold (\<lambda>e acc. case planFact l e of None \<Rightarrow> acc | Some d \<Rightarrow> Some d) es None"

definition lastChange :: "ustring \<Rightarrow> history_entry list \<Rightarrow> ustring option" where
  "lastChange l es = fold (\<lambda>e acc. case changeFact l e of None \<Rightarrow> acc | Some c \<Rightarrow> Some c) es None"

lemma last_snoc:
  "lastPlan l (es @ [e]) = (case planFact l e of None \<Rightarrow> lastPlan l es | Some d \<Rightarrow> Some d)"
  "lastChange l (es @ [e]) = (case changeFact l e of None \<Rightarrow> lastChange l es | Some c \<Rightarrow> Some c)"
  by (simp_all add: lastPlan_def lastChange_def split: option.split)

definition tracks :: "history_entry list \<Rightarrow> projector_state \<Rightarrow> bool" where
  "tracks es state = (\<forall>l. (case map_of (ps_lineages state) l of
       None \<Rightarrow> lastPlan l es = None \<and> lastChange l es = None
     | Some x \<Rightarrow> ln_planDigest x = lastPlan l es \<and> ln_changeId x = lastChange l es))"

text \<open>The anchor an entry asks for.\<close>

definition anchorOf :: "history_entry list \<Rightarrow> history_entry \<Rightarrow> tt_snapshot option" where
  "anchorOf pre e = (case metaText (js ''lineageId'') e of
       None \<Rightarrow> None
     | Some l \<Rightarrow> if \<not> snapshotOn l e then None
         else map_option (\<lambda>c. \<lparr>sn_runId = je_runId e, sn_frame = \<lparr>fr_lineageId = l, fr_seq = je_seq e\<rparr>, sn_changeId = c,
             sn_planDigest = lastPlan l pre\<rparr>) (lastChange l (pre @ [e])))"

section \<open>The anchor table\<close>

type_synonym anchor_key = "ustring \<times> ustring \<times> nat"

definition keyOf :: "tt_snapshot \<Rightarrow> anchor_key" where
  "keyOf n = (sn_runId n, fr_lineageId (sn_frame n), fr_seq (sn_frame n))"

definition anchorAt :: "tt_store \<Rightarrow> anchor_key \<Rightarrow> tt_snapshot option" where
  "anchorAt s k = find (\<lambda>n. keyOf n = k) (snapshots s)"

lemma keyOf_other: "(\<not> (sn_runId n = sn_runId a \<and> fr_lineageId (sn_frame n) = fr_lineageId (sn_frame a)
    \<and> fr_seq (sn_frame n) = fr_seq (sn_frame a))) \<longleftrightarrow> keyOf n \<noteq> keyOf a"
  by (simp add: keyOf_def)

lemma find_upsert: "find (\<lambda>n. keyOf n = k) (filter (\<lambda>n. keyOf n \<noteq> keyOf a) ns @ [a]) =
    (if k = keyOf a then Some a else find (\<lambda>n. keyOf n = k) ns)"
  by (induction ns) auto

lemma recordSnapshot_result:
  "recordSnapshot a s = (if failAt s = Some (js ''recordSnapshot'')
     then (Inl (TimeTravelError Unknown_failure (js (''injected failure at '' @ ''recordSnapshot''))), restoreFrom s s)
     else (Inr (), s\<lparr>snapshots := filter (\<lambda>n. keyOf n \<noteq> keyOf a) (snapshots s) @ [a]\<rparr>))"
  unfolding recordSnapshot_def recordSnapshotBody_def keyOf_other atomic_def fail_def by simp

lemma recordSnapshot_ok:
  assumes "recordSnapshot a s = (Inr u, s')"
  shows "anchorAt s' k = (if k = keyOf a then Some a else anchorAt s k)" and "failAt s' = failAt s"
  using assms by (auto simp: recordSnapshot_result anchorAt_def find_upsert split: if_splits)

section \<open>One entry\<close>

lemma tracks_lookup:
  assumes "tracks es state"
  shows "ln_planDigest (case map_of (ps_lineages state) l of None \<Rightarrow> emptyLineage | Some x \<Rightarrow> x) = lastPlan l es"
    and "ln_changeId (case map_of (ps_lineages state) l of None \<Rightarrow> emptyLineage | Some x \<Rightarrow> x) = lastChange l es"
  using assms[unfolded tracks_def, THEN spec, of l] by (auto simp: emptyLineage_def split: option.splits)

text \<open>What a successful step does, case by case of the record.\<close>

lemma reduceAnchor_cases:
  assumes "reduceAnchor state e s = (Inr state', s')"
  obtains (other) "\<not> isPlanEvent e" "\<not> isSnapshotEvent e" "state' = state" "s' = s"
    | (plan) l d where "isPlanEvent e" "metaText (js ''lineageId'') e = Some l"
        "decodePlanPayload (hc_payload (je_payload e)) = Some d" "s' = s"
        "state' = state\<lparr>ps_lineages := jsmap_set (ps_lineages state) l
           ((case map_of (ps_lineages state) l of None \<Rightarrow> emptyLineage | Some x \<Rightarrow> x)\<lparr>ln_planDigest := Some d\<rparr>)\<rparr>"
    | (unanchored) l where "snapshotOn l e" "decodeSnapshotPayload (hc_payload (je_payload e)) = Some None"
        "ln_changeId (case map_of (ps_lineages state) l of None \<Rightarrow> emptyLineage | Some x \<Rightarrow> x) = None" "state' = state" "s' = s"
    | (anchored) l sid c where "snapshotOn l e" "decodeSnapshotPayload (hc_payload (je_payload e)) = Some sid"
        "(case sid of Some c \<Rightarrow> Some c | None \<Rightarrow> ln_changeId (case map_of (ps_lineages state) l of None \<Rightarrow> emptyLineage | Some x \<Rightarrow> x)) = Some c"
        "recordSnapshot \<lparr>sn_runId = je_runId e, sn_frame = \<lparr>fr_lineageId = l, fr_seq = je_seq e\<rparr>, sn_changeId = c,
           sn_planDigest = ln_planDigest (case map_of (ps_lineages state) l of None \<Rightarrow> emptyLineage | Some x \<Rightarrow> x)\<rparr> s = (Inr (), s')"
        "state' = \<lparr>ps_lineages = jsmap_set (ps_lineages state) l
           \<lparr>ln_changeId = Some c, ln_planDigest = ln_planDigest (case map_of (ps_lineages state) l of None \<Rightarrow> emptyLineage | Some x \<Rightarrow> x)\<rparr>,
           ps_anchors = ps_anchors state + 1\<rparr>"
proof (cases "\<not> isPlanEvent e \<and> \<not> isSnapshotEvent e")
  case True
  with assms other show ?thesis by (auto simp: reduceAnchor_def)
next
  case relevant: False
  show ?thesis
  proof (cases "metaText (js ''lineageId'') e")
    case None
    with relevant assms show ?thesis by (auto simp: reduceAnchor_def Let_def)
  next
    case (Some l)
    show ?thesis
    proof (cases "isPlanEvent e")
      case True
      with Some assms plan[of l] show ?thesis by (auto simp: reduceAnchor_def Let_def split: option.splits)
    next
      case False
      with relevant Some have on: "snapshotOn l e" by (simp add: snapshotOn_def)
      obtain sid where sid: "decodeSnapshotPayload (hc_payload (je_payload e)) = Some sid"
        using False relevant Some assms by (auto simp: reduceAnchor_def Let_def split: option.splits)
      show ?thesis
      proof (cases "(case sid of Some c \<Rightarrow> Some c | None \<Rightarrow> ln_changeId (case map_of (ps_lineages state) l of None \<Rightarrow> emptyLineage | Some x \<Rightarrow> x))")
        case None
        then have "sid = None" by (cases sid) auto
        with None False relevant Some sid assms show ?thesis
          by (intro unanchored[OF on]) (auto simp: reduceAnchor_def Let_def)
      next
        case (Some c)
        with False relevant \<open>metaText (js ''lineageId'') e = Some l\<close> sid assms show ?thesis
          by (intro anchored[OF on sid Some]) (auto simp: reduceAnchor_def Let_def split: prod.splits sum.splits)
      qed
    qed
  qed
qed

lemma step_facts:
  "isPlanEvent e \<Longrightarrow> metaText (js ''lineageId'') e = Some l \<Longrightarrow> decodePlanPayload (hc_payload (je_payload e)) = Some d \<Longrightarrow>
     planFact l' e = (if l' = l then Some d else None) \<and> changeFact l' e = None \<and> anchorOf pre e = None"
  "snapshotOn l e \<Longrightarrow> decodeSnapshotPayload (hc_payload (je_payload e)) = Some sid \<Longrightarrow>
     planFact l' e = None \<and> changeFact l' e = (if l' = l then sid else None)"
  "\<not> isPlanEvent e \<Longrightarrow> \<not> isSnapshotEvent e \<Longrightarrow> planFact l' e = None \<and> changeFact l' e = None \<and> anchorOf pre e = None"
  by (auto simp: planFact_def changeFact_def snapshotOn_def anchorOf_def split: option.splits)

lemma tracks_update:
  assumes "tracks pre state" "\<And>l'. l' \<noteq> l \<Longrightarrow> planFact l' e = None \<and> changeFact l' e = None"
    and "ln_planDigest x = lastPlan l (pre @ [e])" "ln_changeId x = lastChange l (pre @ [e])"
    and "ps_lineages state' = jsmap_set (ps_lineages state) l x"
  shows "tracks (pre @ [e]) state'"
  unfolding tracks_def
proof
  fix l'
  show "case map_of (ps_lineages state') l' of
      None \<Rightarrow> lastPlan l' (pre @ [e]) = None \<and> lastChange l' (pre @ [e]) = None
    | Some y \<Rightarrow> ln_planDigest y = lastPlan l' (pre @ [e]) \<and> ln_changeId y = lastChange l' (pre @ [e])"
  proof (cases "l' = l")
    case True
    with assms(3-5) show ?thesis by simp
  next
    case False
    with assms(1)[unfolded tracks_def, THEN spec, of l'] assms(2)[OF False] assms(5) False show ?thesis
      by (simp add: last_snoc split: option.splits)
  qed
qed

lemma tracks_same:
  assumes "tracks pre state" "\<And>l. planFact l e = None \<and> changeFact l e = None"
  shows "tracks (pre @ [e]) state"
  using assms by (force simp: tracks_def last_snoc split: option.splits)

lemma reduceAnchor_step:
  assumes "tracks pre state" "reduceAnchor state e s = (Inr state', s')"
  shows "tracks (pre @ [e]) state' \<and> failAt s' = failAt s
    \<and> (\<forall>k. anchorAt s' k = (case anchorOf pre e of None \<Rightarrow> anchorAt s k | Some a \<Rightarrow> if k = keyOf a then Some a else anchorAt s k))"
  using assms(2)
proof (cases rule: reduceAnchor_cases)
  case other
  with assms(1) step_facts(3)[of e] show ?thesis by (auto intro: tracks_same)
next
  case (plan l d)
  note f = step_facts(1)[OF plan(1-3)]
  have "tracks (pre @ [e]) state'"
    by (rule tracks_update[OF assms(1), of l]) (use f plan(5) tracks_lookup[OF assms(1), of l] in \<open>simp_all add: last_snoc\<close>)
  with f plan(4) show ?thesis by simp
next
  case (unanchored l)
  note f = step_facts(2)[OF unanchored(1,2)]
  have "lastChange l (pre @ [e]) = None"
    using unanchored(3) f tracks_lookup(2)[OF assms(1), of l] by (simp add: last_snoc)
  then have "anchorOf pre e = None" using unanchored(1) by (auto simp: anchorOf_def snapshotOn_def)
  with assms(1) f unanchored(4,5) show ?thesis by (auto intro: tracks_same split: if_splits)
next
  case (anchored l sid c)
  note f = step_facts(2)[OF anchored(1,2)] and look = tracks_lookup[OF assms(1), of l]
  have change: "lastChange l (pre @ [e]) = Some c" and plan: "lastPlan l (pre @ [e]) = lastPlan l pre"
    using anchored(3) f look by (auto simp: last_snoc split: option.splits)
  have tr: "tracks (pre @ [e]) state'"
    by (rule tracks_update[OF assms(1), of l]) (use f anchored(5) look change plan in \<open>simp_all\<close>)
  have "anchorOf pre e = Some \<lparr>sn_runId = je_runId e, sn_frame = \<lparr>fr_lineageId = l, fr_seq = je_seq e\<rparr>, sn_changeId = c,
      sn_planDigest = lastPlan l pre\<rparr>"
    using anchored(1) change by (simp add: anchorOf_def snapshotOn_def)
  with tr recordSnapshot_ok[OF anchored(4)] look show ?thesis by simp
qed

section \<open>A whole run\<close>

fun anchorsOf :: "history_entry list \<Rightarrow> history_entry list \<Rightarrow> anchor_key \<Rightarrow> tt_snapshot option" where
  "anchorsOf pre [] k = None"
| "anchorsOf pre (e # es) k = (case anchorsOf (pre @ [e]) es k of
     Some a \<Rightarrow> Some a
   | None \<Rightarrow> (case anchorOf pre e of None \<Rightarrow> None | Some a \<Rightarrow> if k = keyOf a then Some a else None))"

lemma reduceAll_anchors:
  assumes "tracks pre state" "reduceAll state es s = (Inr state', s')"
  shows "failAt s' = failAt s \<and> (\<forall>k. anchorAt s' k = (case anchorsOf pre es k of None \<Rightarrow> anchorAt s k | Some a \<Rightarrow> Some a))"
  using assms
proof (induction es arbitrary: pre state s)
  case (Cons e es)
  then obtain st1 s1 where step: "reduceAnchor state e s = (Inr st1, s1)" and rest: "reduceAll st1 es s1 = (Inr state', s')"
    by (auto split: prod.splits sum.splits)
  note one = reduceAnchor_step[OF Cons.prems(1) step]
  from Cons.IH[OF conjunct1[OF one] rest] one show ?case by (auto split: option.splits)
qed simp

lemma reduceAnchor_again:
  assumes "reduceAnchor state e s = (Inr state', s')" "failAt t = failAt s"
  shows "\<exists>t'. reduceAnchor state e t = (Inr state', t') \<and> failAt t' = failAt s'"
  using assms by (auto simp: reduceAnchor_def Let_def recordSnapshot_result split: if_splits option.splits)

lemma reduceAll_again:
  assumes "reduceAll state es s = (Inr state', s')" "failAt t = failAt s"
  shows "\<exists>t'. reduceAll state es t = (Inr state', t')"
  using assms
proof (induction es arbitrary: state s t)
  case (Cons e es)
  then obtain st1 s1 where step: "reduceAnchor state e s = (Inr st1, s1)" and rest: "reduceAll st1 es s1 = (Inr state', s')"
    by (auto split: prod.splits sum.splits)
  obtain t1 where "reduceAnchor state e t = (Inr st1, t1)" "failAt t1 = failAt s1"
    using reduceAnchor_again[OF step Cons.prems(2)] by blast
  with Cons.IH[OF rest] show ?case by auto
qed simp

lemma reduceAll_append: "reduceAll state (xs @ ys) s = (case reduceAll state xs s of
    (Inl e, s) \<Rightarrow> (Inl e, s) | (Inr state, s) \<Rightarrow> reduceAll state ys s)"
  by (induction xs arbitrary: state s) (auto split: prod.splits sum.splits)

lemma anchorsOf_append: "anchorsOf pre (xs @ ys) k = (case anchorsOf (pre @ xs) ys k of Some a \<Rightarrow> Some a | None \<Rightarrow> anchorsOf pre xs k)"
  by (induction xs arbitrary: pre) (auto split: option.splits)

lemma anchorOf_key: "anchorOf pre e = Some a \<Longrightarrow> \<exists>l. keyOf a = (je_runId e, l, je_seq e)"
  by (auto simp: anchorOf_def keyOf_def split: option.splits if_splits)

lemma anchorsOf_fresh: "\<forall>e \<in> set es. je_seq e \<noteq> n \<Longrightarrow> anchorsOf pre es (r, l, n) = None"
  by (induction es arbitrary: pre) (auto dest: anchorOf_key split: option.splits)

lemma projectLoop_pages:
  assumes "pages_of limit xs entries" "length (following after xs) < fuel"
  shows "projectLoop run entries fuel after state s = Some (reduceAll state (following after xs) s)"
  using assms(2)
proof (induction fuel arbitrary: after state s)
  case (Suc fuel)
  let ?ys = "following after xs"
  let ?page = "take limit ?ys"
  have sorted: "sorted_wrt (\<lambda>x y. je_seq x < je_seq y) xs" and pos: "0 < limit"
    and read: "entries after = Inr \<lparr>pg_entries = ?page, pg_hasMore = (length ?ys > limit)\<rparr>"
    using assms(1) by (simp_all add: pages_of_def)
  have split: "reduceAll state ?ys s = (case reduceAll state ?page s of
      (Inl e, s) \<Rightarrow> (Inl e, s) | (Inr state, s) \<Rightarrow> reduceAll state (drop limit ?ys) s)"
    using reduceAll_append[of state ?page "drop limit ?ys" s] by simp
  show ?case
  proof (cases "length ?ys \<le> limit")
    case True
    then show ?thesis by (auto simp: read Let_def split: prod.splits sum.splits)
  next
    case False
    then have ne: "?page \<noteq> []" using pos by auto
    have "last ?page \<in> set ?ys" using last_in_set[OF ne] in_set_takeD by fast
    then have adv: "case after of None \<Rightarrow> True | Some a \<Rightarrow> a < je_seq (last ?page)" by (rule following_after)
    have more: "following (Some (je_seq (last ?page))) xs = drop limit ?ys" by (rule following_drop[OF sorted refl ne])
    have "length (drop limit ?ys) < fuel" using Suc.prems False pos by (simp del: length_take)
    then have "projectLoop run entries fuel (Some (je_seq (last ?page))) st t = Some (reduceAll st (drop limit ?ys) t)" for st t
      using Suc.IH[of "Some (je_seq (last ?page))" st t] unfolding more by simp
    with False ne adv show ?thesis unfolding split
      by (auto simp: read Let_def not_le split: prod.splits sum.splits option.splits)
  qed
qed simp

lemma project_pages:
  assumes "sound_table table" "0 < limit" "length (selectRows table run None) < fuel"
  shows "projectAnchors fuel (readPage table (\<lambda>_. None) limit run) run s = Some (reduceAll initialProjection (selectRows table run None) s)"
proof -
  have "following None (selectRows table run None) = selectRows table run None" by (simp add: following_def)
  with projectLoop_pages[OF table_pages[OF assms(1,2)], of None run fuel run initialProjection s] assms(3)
  show ?thesis by (simp add: projectAnchors_def)
qed

lemma tracks_initial: "tracks [] initialProjection"
  by (simp add: tracks_def initialProjection_def lastPlan_def lastChange_def)

section \<open>An example\<close>

text \<open>Two lineages interleave: the last record of the first one carries its own change.\<close>

definition snapshotRow :: "nat \<Rightarrow> ustring \<Rightarrow> (ustring \<times> json) \<Rightarrow> history_entry" where
  "snapshotRow seq l member = \<lparr>je_runId = [1], je_seq = seq, je_sourceId = [], je_eventType = js ''flows.engine.snapshot-identified'',
     je_payload = \<lparr>hc_eventId = [], hc_meta = Some (JObject [(js ''lineageId'', JString l)]), hc_payload = JObject [member]\<rparr>\<rparr>"

definition exampleHistory :: "history_entry list" where
  "exampleHistory = [snapshotRow 0 [7] (js ''snapshotId'', JString [5]), snapshotRow 1 [8] (js ''snapshotId'', JString [6]),
     snapshotRow 2 [7] (js ''carried'', JBool True)]"

definition emptyTimeTravel :: tt_store where
  "emptyTimeTravel = make_time_travel \<lparr>to_records = [], to_edges = [], to_snapshots = [], to_liveRuns = [], to_runOwners = [],
     to_runStatuses = [], to_failAt = None\<rparr>"

lemma example_rows: "selectRows exampleHistory [1] None = exampleHistory" "sound_table exampleHistory"
  by (simp_all add: selectRows_def exampleHistory_def snapshotRow_def sound_table_def)

lemma example_metaText: "metaText (js ''lineageId'') (snapshotRow n l m) = (if l = [] then None else Some l)"
  by (simp add: metaText_def snapshotRow_def)

lemma example_event: "isSnapshotEvent (snapshotRow n l m)" "\<not> isPlanEvent (snapshotRow n l m)"
  by (simp_all add: isSnapshotEvent_def isPlanEvent_def snapshotRow_def js_lits)

lemma example_decode:
  "decodeSnapshotPayload (hc_payload (je_payload (snapshotRow n l (js ''snapshotId'', JString c)))) = (if c = [] then None else Some (Some c))"
  "decodeSnapshotPayload (hc_payload (je_payload (snapshotRow n l (js ''carried'', JBool b)))) = Some None"
  by (simp_all add: snapshotRow_def decodeSnapshotPayload_def versionOk_def isBoolean_def nonEmptyText_def js_lits)

lemma example_runs:
  "\<exists>state s'. projectAnchors 4 (readPage exampleHistory (\<lambda>_. None) 2 [1]) [1] emptyTimeTravel = Some (Inr state, s')"
proof -
  have fields: "je_runId (snapshotRow n l m) = [1]" "je_seq (snapshotRow n l m) = n" for n l m by (simp_all add: snapshotRow_def)
  have "\<exists>state s'. reduceAll initialProjection exampleHistory emptyTimeTravel = (Inr state, s')"
    by (simp add: exampleHistory_def reduceAnchor_def Let_def example_metaText example_event example_decode fields initialProjection_def
        emptyLineage_def recordSnapshot_result emptyTimeTravel_def make_time_travel_def)
  moreover have "length exampleHistory = 3" by (simp add: exampleHistory_def)
  ultimately show ?thesis using project_pages[OF example_rows(2), of 2 "[1]" 4 emptyTimeTravel] by (simp add: example_rows(1))
qed

section \<open>The properties\<close>

text \<open>(C22) When anchoring a run succeeds, whatever the page size, the anchor at a snapshot record names the last change that
  the records of its own lineage have named up to it and the plan digest in force on that lineage, however the lineages of the
  run interleave; a record whose lineage has named no change anchors nothing.\<close>

theorem anchors_by_lineage:
  assumes "sound_table table" "0 < limit" "length (selectRows table run None) < fuel"
    and "projectAnchors fuel (readPage table (\<lambda>_. None) limit run) run s = Some (Inr state, s')"
    and "selectRows table run None = pre @ e # post" "snapshotOn l e"
  shows "anchorAt s' (run, l, je_seq e) = (case lastChange l (pre @ [e]) of
      None \<Rightarrow> anchorAt s (run, l, je_seq e)
    | Some c \<Rightarrow> Some \<lparr>sn_runId = run, sn_frame = \<lparr>fr_lineageId = l, fr_seq = je_seq e\<rparr>, sn_changeId = c, sn_planDigest = lastPlan l pre\<rparr>)"
proof -
  have "reduceAll initialProjection (pre @ e # post) s = (Inr state, s')"
    using assms(4) project_pages[OF assms(1-3), of s] assms(5) by simp
  note anchors = reduceAll_anchors[OF tracks_initial this]
  have "sorted_wrt (\<lambda>x y. je_seq x < je_seq y) (pre @ e # post)"
    using sql_journal.contents_sorted[OF assms(1), of run] assms(5) by simp
  then have "\<forall>x \<in> set pre. je_seq x \<noteq> je_seq e" "\<forall>x \<in> set post. je_seq x \<noteq> je_seq e"
    by (auto simp: sorted_wrt_append)
  then have fresh: "anchorsOf [] pre (run, l, je_seq e) = None" "anchorsOf (pre @ [e]) post (run, l, je_seq e) = None"
    by (simp_all add: anchorsOf_fresh)
  have "e \<in> set (selectRows table run None)" using assms(5) by simp
  then have "je_runId e = run" by (simp add: selectRows_def)
  with assms(6) have "anchorsOf [] (pre @ e # post) (run, l, je_seq e) = map_option
      (\<lambda>c. \<lparr>sn_runId = run, sn_frame = \<lparr>fr_lineageId = l, fr_seq = je_seq e\<rparr>, sn_changeId = c, sn_planDigest = lastPlan l pre\<rparr>)
      (lastChange l (pre @ [e]))"
    by (auto simp: anchorsOf_append fresh anchorOf_def snapshotOn_def keyOf_def split: option.splits)
  with anchors show ?thesis by (auto split: option.splits)
qed

theorem anchors_by_lineage_witness:
  "\<exists>state s'. projectAnchors 4 (readPage exampleHistory (\<lambda>_. None) 2 [1]) [1] emptyTimeTravel = Some (Inr state, s')
     \<and> map_option sn_changeId (anchorAt s' ([1], [7], 2)) = Some [5]"
proof -
  obtain state s' where run: "projectAnchors 4 (readPage exampleHistory (\<lambda>_. None) 2 [1]) [1] emptyTimeTravel = Some (Inr state, s')"
    using example_runs by blast
  let ?pre = "[snapshotRow 0 [7] (js ''snapshotId'', JString [5]), snapshotRow 1 [8] (js ''snapshotId'', JString [6])]"
  let ?e = "snapshotRow 2 [7] (js ''carried'', JBool True)"
  have cut: "selectRows exampleHistory [1] None = ?pre @ ?e # []" by (simp add: example_rows(1)) (simp add: exampleHistory_def)
  have len: "length (selectRows exampleHistory [1] None) < 4" by (simp add: cut)
  have on: "snapshotOn [7] ?e" by (simp add: snapshotOn_def example_event example_metaText)
  have change: "lastChange [7] (?pre @ [?e]) = Some [5]"
    by (simp add: lastChange_def changeFact_def snapshotOn_def example_event example_metaText example_decode)
  have "je_seq ?e = 2" by (simp add: snapshotRow_def)
  with anchors_by_lineage[OF example_rows(2) _ len run cut on] run change show ?thesis by simp
qed

text \<open>Anchoring a run again changes nothing: it succeeds with the same state and every anchor stays as it was.\<close>

theorem anchoring_is_idempotent:
  assumes "sound_table table" "0 < limit" "length (selectRows table run None) < fuel"
    and "projectAnchors fuel (readPage table (\<lambda>_. None) limit run) run s = Some (Inr state, s')"
  shows "\<exists>s''. projectAnchors fuel (readPage table (\<lambda>_. None) limit run) run s' = Some (Inr state, s'')
    \<and> anchorAt s'' k = anchorAt s' k"
proof -
  have first: "reduceAll initialProjection (selectRows table run None) s = (Inr state, s')"
    using assms(4) project_pages[OF assms(1-3), of s] by simp
  note one = reduceAll_anchors[OF tracks_initial first]
  obtain s'' where second: "reduceAll initialProjection (selectRows table run None) s' = (Inr state, s'')"
    using reduceAll_again[OF first, of s'] one by auto
  from reduceAll_anchors[OF tracks_initial second] one have "anchorAt s'' k = anchorAt s' k" by (cases k) (simp split: option.split)
  with second project_pages[OF assms(1-3), of s'] show ?thesis by simp
qed

theorem anchoring_is_idempotent_witness:
  "\<exists>state s' s''. projectAnchors 4 (readPage exampleHistory (\<lambda>_. None) 2 [1]) [1] emptyTimeTravel = Some (Inr state, s')
     \<and> projectAnchors 4 (readPage exampleHistory (\<lambda>_. None) 2 [1]) [1] s' = Some (Inr state, s'')
     \<and> anchorAt s'' ([1], [7], 2) = anchorAt s' ([1], [7], 2)"
proof -
  obtain state s' where run: "projectAnchors 4 (readPage exampleHistory (\<lambda>_. None) 2 [1]) [1] emptyTimeTravel = Some (Inr state, s')"
    using example_runs by blast
  have len: "length (selectRows exampleHistory [1] None) < 4" by (simp add: example_rows(1)) (simp add: exampleHistory_def)
  from anchoring_is_idempotent[OF example_rows(2) _ len run, of "([1], [7], 2)"] run show ?thesis by auto
qed

end
