(* ===== verification/Effect_Retry.thy ===== *)
theory Effect_Retry
  imports Compensation
begin

text \<open>
  Retrying one recorded effect (\<open>packages/smithers/flows/time-travel/src/internal/Retry.ts\<close>).  The action is a function from
  the attempt's context to work on the world; \<open>Random.nextInt\<close> is an argument.
\<close>

record attempt_context =
  at_attempt :: nat
  at_nonce :: ustring
  at_idempotencyKey :: "ustring option"

datatype blocked_reason = Not_durable_boundary | Idempotency_key_required | Compensation_snapshot_missing

datatype 'a retry_outcome =
    Cache_hit json nat ustring
  | Rerun 'a attempt_context
  | Retry_blocked blocked_reason ustring nat ustring

record ('w, 'x, 'a) retry_options =
  rt_effect :: effect_record
  rt_previousAttempt :: nat
  rt_previousNonce :: ustring
  rt_rerun :: "attempt_context \<Rightarrow> ('w, 'x, 'a) work"
  rt_makeNonce :: "(effect_record \<Rightarrow> nat \<Rightarrow> ('w, 'x, ustring) work option) option"

definition intText :: "int \<Rightarrow> ustring" where
  "intText i = (if i < 0 then js ''-'' else []) @ decimal (nat \<bar>i\<bar>)"

definition freshNonce ::
  "('w, 'x, int) work \<Rightarrow> ('w, 'x, 'a) retry_options \<Rightarrow> nat \<Rightarrow> ('w, 'x, ustring) work" where
  "freshNonce nextInt options attempt w =
     (let generated = (case rt_makeNonce options of None \<Rightarrow> None | Some mk \<Rightarrow> mk (rt_effect options) attempt);
          source = (case generated of
              Some own \<Rightarrow> own
            | None \<Rightarrow> (\<lambda>w. case nextInt w of
                (Inl f, w) \<Rightarrow> (Inl f, w)
              | (Inr random, w) \<Rightarrow> (Inr (ef_id (rt_effect options) @ js '':attempt:'' @ decimal attempt @ js '':nonce:'' @ intText random), w))) in
      case source w of
        (Inl f, w) \<Rightarrow> (Inl f, w)
      | (Inr nonce, w) \<Rightarrow>
          (Inr (if nonce = rt_previousNonce options then nonce @ js '':retry:'' @ decimal attempt else nonce), w))"

text \<open>The steps after the durable-boundary check, in order: each ends the retry or lets it go on.\<close>

definition retrySealed ::
  "('w, 'x, 'd) compensation_services \<Rightarrow> ('w, 'x, 'a) retry_options \<Rightarrow> nat \<Rightarrow> ustring \<Rightarrow> ('w, 'x, 'a retry_outcome option) work" where
  "retrySealed sv options attempt nonce w =
     (case (ef_tier (rt_effect options), ef_cacheKey (rt_effect options)) of
        (Sealed_tier, Some key) \<Rightarrow>
          (case mapFailure (causedFailure Unknown_failure (js ''could not consult sealed retry '' @ key)) (sv_cacheGet sv key) w of
             (Inl f, w) \<Rightarrow> (Inl f, w)
           | (Inr None, w) \<Rightarrow> (Inr None, w)
           | (Inr (Some value), w) \<Rightarrow> (Inr (Some (Cache_hit value attempt nonce)), w))
      | _ \<Rightarrow> (Inr None, w))"

definition retryCompensable ::
  "('w, 'x, 'd) compensation_services \<Rightarrow> ('w, 'x, 'a) retry_options \<Rightarrow> nat \<Rightarrow> ustring \<Rightarrow> ('w, 'x, 'a retry_outcome option) work" where
  "retryCompensable sv options attempt nonce w =
     (if ef_tier (rt_effect options) \<noteq> Compensable_tier then (Inr None, w)
      else case ef_changeId (rt_effect options) of
        None \<Rightarrow> (Inr (Some (Retry_blocked Compensation_snapshot_missing
                  (js ''effect '' @ ef_id (rt_effect options) @ js '' has no pre-attempt jj snapshot'') attempt nonce)), w)
      | Some changeId \<Rightarrow>
          (case mapFailure (causedFailure Compensation_failed (js ''could not restore '' @ changeId @ js '' before retry''))
                  (sv_restore sv changeId) w of
             (Inl f, w) \<Rightarrow> (Inl f, w)
           | (Inr u, w) \<Rightarrow> (Inr None, w)))"

definition retryIrreversible ::
  "('w, 'x, 'd) compensation_services \<Rightarrow> ('w, 'x, 'a) retry_options \<Rightarrow> nat \<Rightarrow> ustring \<Rightarrow> 'a retry_outcome option" where
  "retryIrreversible sv options attempt nonce =
     (let e = rt_effect options;
          requiresKey = (case resolve (sv_registry sv) (ef_kind e) of None \<Rightarrow> True | Some h \<Rightarrow> hd_requiresIdempotencyKey h) in
      if ef_tier e = Irreversible_tier \<and> requiresKey \<and> ef_idempotencyKey e = None
      then Some (Retry_blocked Idempotency_key_required
             (js ''irreversible effect '' @ ef_id e @ js '' requires an idempotency key before retry'') attempt nonce)
      else None)"

definition retry ::
  "('w, 'x, 'd) compensation_services \<Rightarrow> ('w, 'x, int) work \<Rightarrow> ('w, 'x, 'a) retry_options \<Rightarrow> ('w, 'x, 'a retry_outcome) work" where
  "retry sv nextInt options w =
     (let e = rt_effect options; attempt = rt_previousAttempt options + 1 in
      case freshNonce nextInt options attempt w of
        (Inl f, w) \<Rightarrow> (Inl f, w)
      | (Inr nonce, w) \<Rightarrow>
          if \<not> er_durableBoundary e
          then (Inr (Retry_blocked Not_durable_boundary
                  (js ''effect '' @ ef_id e @ js '' can only restart at its previous durable boundary'') attempt nonce), w)
          else case retrySealed sv options attempt nonce w of
            (Inl f, w) \<Rightarrow> (Inl f, w)
          | (Inr (Some outcome), w) \<Rightarrow> (Inr outcome, w)
          | (Inr None, w) \<Rightarrow>
              (case retryCompensable sv options attempt nonce w of
                 (Inl f, w) \<Rightarrow> (Inl f, w)
               | (Inr (Some outcome), w) \<Rightarrow> (Inr outcome, w)
               | (Inr None, w) \<Rightarrow>
                   (case retryIrreversible sv options attempt nonce of
                      Some outcome \<Rightarrow> (Inr outcome, w)
                    | None \<Rightarrow>
                        let context = \<lparr>at_attempt = attempt, at_nonce = nonce, at_idempotencyKey = ef_idempotencyKey e\<rparr> in
                        (case rt_rerun options context w of
                           (Inl f, w) \<Rightarrow> (Inl f, w)
                         | (Inr value, w) \<Rightarrow> (Inr (Rerun value context), w)))))"

end
