(* ===== verification/Retry_Properties.thy ===== *)
theory Retry_Properties
  imports Effect_Retry Compensation_Properties
begin





text \<open>The checks as one: the outcome that ends the retry, or \<open>None\<close>.\<close>

definition gates ::
  "('w, 'x, 'd) compensation_services \<Rightarrow> ('w, 'x, 'a) retry_options \<Rightarrow> nat \<Rightarrow> ustring \<Rightarrow> ('w, 'x, 'a retry_outcome option) work" where
  "gates sv options attempt nonce w =
     (if \<not> er_durableBoundary (rt_effect options)
      then (Inr (Some (Retry_blocked Not_durable_boundary (js ''effect '' @ ef_id (rt_effect options)
             @ js '' can only restart at its previous durable boundary'') attempt nonce)), w)
      else case retrySealed sv options attempt nonce w of
        (Inl f, w) \<Rightarrow> (Inl f, w)
      | (Inr (Some outcome), w) \<Rightarrow> (Inr (Some outcome), w)
      | (Inr None, w) \<Rightarrow>
          (case retryCompensable sv options attempt nonce w of
             (Inl f, w) \<Rightarrow> (Inl f, w)
           | (Inr (Some outcome), w) \<Rightarrow> (Inr (Some outcome), w)
           | (Inr None, w) \<Rightarrow> (Inr (retryIrreversible sv options attempt nonce), w)))"




lemma rerun_fields:
  "rt_effect (options\<lparr>rt_rerun := other\<rparr>) = rt_effect options"
  "rt_makeNonce (options\<lparr>rt_rerun := other\<rparr>) = rt_makeNonce options"
  "rt_previousNonce (options\<lparr>rt_rerun := other\<rparr>) = rt_previousNonce options"
  by simp_all

lemma gates_rerun [simp]:
  "gates sv (options\<lparr>rt_rerun := other\<rparr>) attempt nonce w = gates sv options attempt nonce w"
  "freshNonce nextInt (options\<lparr>rt_rerun := other\<rparr>) attempt w = freshNonce nextInt options attempt w"
  unfolding gates_def retrySealed_def retryCompensable_def retryIrreversible_def freshNonce_def rerun_fields by (rule refl)+




end
