(* ===== verification/Bounded_Json.thy ===== *)
theory Bounded_Json
  imports Json
begin

text \<open>
  Bounded admission of JSON values (\<open>canonical/src/BoundedJson.ts\<close>): a value on the JavaScript
  heap is copied without running any of its code, while bytes, nodes and members are charged
  against explicit limits.  \<open>String(value)\<close> of a number is the parameter \<open>numText\<close>.  Arrays of
  this heap carry no extra properties and objects no symbol keys, so the two refusals for those
  have no counterpart, and no property lookup throws, so neither has the refusal
  \<open>inspection\<close>.  The complaint of a refusal is a fixed text per code and is left out.
\<close>

section \<open>Limits, counters and refusals\<close>

record limits =
  maxBytes :: "nat option"
  maxDepth :: nat
  maxMembers :: nat
  maxTotalMembers :: "nat option"
  maxNodes :: nat
  maxStringBytes :: "nat option"
  maxKeyBytes :: "nat option"

datatype issue_code =
    Depth_issue | Nodes_issue | Bytes_issue | Number_issue | String_issue | Value_issue | Cycle_issue
  | ArrayLength_issue | ArrayMember_issue | Members_issue | Object_issue | Accessor_issue | Key_issue

type_synonym issue = "issue_code \<times> ustring list"

record counters =
  bytes :: nat
  nodes :: nat
  totalMembers :: nat

text \<open>\<open>limit ?? Infinity\<close>.\<close>

definition within :: "nat option \<Rightarrow> nat \<Rightarrow> bool" where
  "within limit n = (case limit of None \<Rightarrow> True | Some m \<Rightarrow> n \<le> m)"

definition safeIntegerLimit :: nat where "safeIntegerLimit = 9007199254740991"

definition addBytes :: "limits \<Rightarrow> nat \<Rightarrow> counters \<Rightarrow> counters option" where
  "addBytes l n c =
     (let c' = c\<lparr>bytes := bytes c + n\<rparr>
      in if bytes c' \<le> safeIntegerLimit \<and> within (maxBytes l) (bytes c') then Some c' else None)"

definition countMembers :: "limits \<Rightarrow> nat \<Rightarrow> counters \<Rightarrow> counters option" where
  "countMembers l n c =
     (let c' = c\<lparr>totalMembers := totalMembers c + n\<rparr>
      in if n \<le> maxMembers l \<and> within (maxTotalMembers l) (totalMembers c') then Some c' else None)"

section \<open>Encoded strings\<close>

definition shortEscaped :: "code_unit \<Rightarrow> bool" where
  "shortEscaped u = (u \<in> {0x08, 0x09, 0x0a, 0x0c, 0x0d})"

definition unitBytes :: "code_unit \<Rightarrow> nat" where
  "unitBytes u =
     (if u = 0x22 \<or> u = 0x5c \<or> shortEscaped u then 2
      else if u \<le> 0x1f then 6
      else if u \<le> 0x7f then 1
      else if u \<le> 0x7ff then 2
      else 3)"

fun encodedUnits :: "nat option \<Rightarrow> nat \<Rightarrow> ustring \<Rightarrow> nat option" where
  "encodedUnits maximum n [] = (if within maximum n then Some n else None)"
| "encodedUnits maximum n (u # rest) =
     (if isHigh u then
        (case rest of
           [] \<Rightarrow> None
         | low # rest' \<Rightarrow>
             if \<not> isLow low then None
             else if \<not> within maximum (n + 4) then None
             else encodedUnits maximum (n + 4) rest')
      else if isLow u then None
      else if \<not> within maximum (n + unitBytes u) then None
      else encodedUnits maximum (n + unitBytes u) rest)"

definition encodedStringBytes :: "ustring \<Rightarrow> nat option \<Rightarrow> nat option" where
  "encodedStringBytes value maximum = encodedUnits maximum 2 value"

section \<open>Admission\<close>

text \<open>The first loop over the own keys of an object: enumerable data members, counted as they come.\<close>

fun collectMembers :: "limits \<Rightarrow> counters \<Rightarrow> ustring list \<Rightarrow> (ustring \<times> js_value) list
    \<Rightarrow> (ustring \<times> bool \<times> js_property) list \<Rightarrow> issue + (ustring \<times> js_value) list" where
  "collectMembers l c path members [] = Inr members"
| "collectMembers l c path members ((key, enumerable, property) # rest) =
     (if \<not> enumerable then collectMembers l c path members rest
      else case property of
        Accessor \<Rightarrow> Inl (Accessor_issue, path @ [key])
      | Data v \<Rightarrow>
          let count = length members + 1 in
          if count > maxMembers l \<or> \<not> within (maxTotalMembers l) (totalMembers c + count)
          then Inl (Members_issue, path)
          else if nodes c + count > maxNodes l then Inl (Nodes_issue, path)
          else if \<not> within (maxBytes l) (bytes c + (2 + (count - 1) + 4 * count)) then Inl (Bytes_issue, path)
          else collectMembers l c path (members @ [(key, v)]) rest)"

definition refuse :: "issue_code \<Rightarrow> ustring list \<Rightarrow> issue + 'a" where
  "refuse code path = Inl (code, path)"

definition chargeValue :: "limits \<Rightarrow> nat \<Rightarrow> counters \<Rightarrow> ustring list \<Rightarrow> 'a \<Rightarrow> issue + ('a \<times> counters)" where
  "chargeValue l n c path value =
     (case addBytes l n c of None \<Rightarrow> refuse Bytes_issue path | Some c' \<Rightarrow> Inr (value, c'))"

definition booleanBytes :: "bool \<Rightarrow> nat" where
  "booleanBytes b = (if b then 4 else 5)"

function (sequential)
  admitValue :: "(js_number \<Rightarrow> ustring) \<Rightarrow> limits \<Rightarrow> js_heap \<Rightarrow> nat list \<Rightarrow> counters \<Rightarrow> js_value \<Rightarrow> nat
    \<Rightarrow> ustring list \<Rightarrow> issue + (json \<times> counters)"
and admitElements :: "(js_number \<Rightarrow> ustring) \<Rightarrow> limits \<Rightarrow> js_heap \<Rightarrow> nat list \<Rightarrow> counters \<Rightarrow> js_property option list \<Rightarrow> nat
    \<Rightarrow> nat \<Rightarrow> ustring list \<Rightarrow> issue + (json list \<times> counters)"
and admitMembers :: "(js_number \<Rightarrow> ustring) \<Rightarrow> limits \<Rightarrow> js_heap \<Rightarrow> nat list \<Rightarrow> counters \<Rightarrow> (ustring \<times> js_value) list \<Rightarrow> nat
    \<Rightarrow> ustring list \<Rightarrow> issue + ((ustring \<times> json) list \<times> counters)"
where
  "admitValue numText l heap active c value depth path =
     (if depth > maxDepth l then refuse Depth_issue path
      else if nodes c + 1 > maxNodes l then refuse Nodes_issue path
      else let c = c\<lparr>nodes := nodes c + 1\<rparr> in
      case value of
        Null \<Rightarrow> chargeValue l 4 c path JNull
      | Boolean b \<Rightarrow> chargeValue l (booleanBytes b) c path (JBool b)
      | Number n \<Rightarrow> if \<not> isFiniteNumber n then refuse Number_issue path
                     else chargeValue l (length (numText n)) c path (JNumber n)
      | Str s \<Rightarrow> (case encodedStringBytes s (maxStringBytes l) of
                    None \<Rightarrow> refuse String_issue path
                  | Some length_in_bytes \<Rightarrow> chargeValue l length_in_bytes c path (JString s))
      | Undefined \<Rightarrow> refuse Value_issue path
      | Opaque \<Rightarrow> refuse Value_issue path
      | Ref a \<Rightarrow>
          if a \<in> set active then refuse Cycle_issue path
          else (case heap a of
             ArrayObj elements \<Rightarrow>
               if length elements > 0xffffffff then refuse ArrayLength_issue path
               else (case countMembers l (length elements) c of
                  None \<Rightarrow> refuse Members_issue path
                | Some c \<Rightarrow>
               (case addBytes l (2 + (length elements - 1)) c of
                  None \<Rightarrow> refuse Bytes_issue path
                | Some c \<Rightarrow>
               (case admitElements numText l heap (a # active) c elements 0 (Suc depth) path of
                  Inl e \<Rightarrow> Inl e
                | Inr (xs, c) \<Rightarrow> Inr (JArray xs, c))))
           | RecordObj plain props \<Rightarrow>
               if \<not> plain then refuse Object_issue path
               else (case collectMembers l c path [] props of
                  Inl e \<Rightarrow> Inl e
                | Inr members \<Rightarrow>
               (case countMembers l (length members) c of
                  None \<Rightarrow> refuse Members_issue path
                | Some c \<Rightarrow>
               (case addBytes l (2 + (length members - 1)) c of
                  None \<Rightarrow> refuse Bytes_issue path
                | Some c \<Rightarrow>
               (case admitMembers numText l heap (a # active) c members (Suc depth) path of
                  Inl e \<Rightarrow> Inl e
                | Inr (kvs, c) \<Rightarrow> Inr (JObject kvs, c)))))))"
| "admitElements numText l heap active c [] index depth path = Inr ([], c)"
| "admitElements numText l heap active c (element # rest) index depth path =
     (case element of
        Some (Data v) \<Rightarrow>
          (case admitValue numText l heap active c v depth (path @ [decimal index]) of
             Inl e \<Rightarrow> Inl e
           | Inr (j, c) \<Rightarrow>
               (case admitElements numText l heap active c rest (Suc index) depth path of
                  Inl e \<Rightarrow> Inl e | Inr (xs, c) \<Rightarrow> Inr (j # xs, c)))
      | _ \<Rightarrow> refuse ArrayMember_issue (path @ [decimal index]))"
| "admitMembers numText l heap active c [] depth path = Inr ([], c)"
| "admitMembers numText l heap active c ((key, v) # rest) depth path =
     (case encodedStringBytes key (maxKeyBytes l) of
        None \<Rightarrow> refuse Key_issue (path @ [key])
      | Some keySize \<Rightarrow>
     (case addBytes l (keySize + 1) c of
        None \<Rightarrow> refuse Bytes_issue path
      | Some c \<Rightarrow>
     (case admitValue numText l heap active c v depth (path @ [key]) of
        Inl e \<Rightarrow> Inl e
      | Inr (j, c) \<Rightarrow>
     (case admitMembers numText l heap active c rest depth path of
        Inl e \<Rightarrow> Inl e
      | Inr (kvs, c) \<Rightarrow> Inr ((key, j) # kvs, c)))))"
  by pat_completeness auto

termination
  by (relation "measures [\<lambda>x. case x of
         Inl (t, l, h, a, c, v, d, p) \<Rightarrow> Suc (maxDepth l) - d
       | Inr (Inl (t, l, h, a, c, es, i, d, p)) \<Rightarrow> Suc (maxDepth l) - d
       | Inr (Inr (t, l, h, a, c, ms, d, p)) \<Rightarrow> Suc (maxDepth l) - d,
       \<lambda>x. case x of
         Inl (t, l, h, a, c, v, d, p) \<Rightarrow> 0
       | Inr (Inl (t, l, h, a, c, es, i, d, p)) \<Rightarrow> Suc (length es)
       | Inr (Inr (t, l, h, a, c, ms, d, p)) \<Rightarrow> Suc (length ms)]") auto

declare admitValue.simps [simp del]

definition noBytes :: counters where
  "noBytes = \<lparr>bytes = 0, nodes = 0, totalMembers = 0\<rparr>"

definition admitBounded :: "(js_number \<Rightarrow> ustring) \<Rightarrow> limits \<Rightarrow> js_heap \<Rightarrow> js_value \<Rightarrow> issue + (json \<times> nat)" where
  "admitBounded numText l heap input =
     (case admitValue numText l heap [] noBytes input 0 [] of
        Inl e \<Rightarrow> Inl e
      | Inr (value, c) \<Rightarrow> Inr (value, bytes c))"

end
