(* ===== verification/Bounded_Json_Lemmas.thy ===== *)
theory Bounded_Json_Lemmas
  imports Bounded_Json
begin

text \<open>
  What bounded admission computes: the byte count of a string and of a whole value is the length of
  its UTF-8 encoded JSON text, and admission succeeds exactly on the values that can be copied and
  whose totals fit the limits.
\<close>

section \<open>UTF-8 length\<close>

definition utf8Length :: "ustring \<Rightarrow> nat" where
  "utf8Length s = length (utf8 s)"

lemma chunks_append: "isWellFormed a \<Longrightarrow> chunks (a @ b) = chunks a @ chunks b"
proof (induction a rule: isWellFormed.induct)
  case (2 code rest)
  show ?case
  proof (cases "isHigh code")
    case True
    with 2 show ?thesis by (cases rest) (auto split: if_splits)
  next
    case False
    with 2 show ?thesis by (cases rest; cases b) (auto split: if_splits)
  qed
qed simp

lemma utf8Length_append: "isWellFormed a \<Longrightarrow> utf8Length (a @ b) = utf8Length a + utf8Length b"
  by (simp add: utf8Length_def utf8_def chunks_append)

lemma utf8Length_Nil [simp]: "utf8Length [] = 0"
  by (simp add: utf8Length_def utf8_def)

lemma utf8Length_unit: "\<not> isHigh u \<Longrightarrow> \<not> isLow u \<Longrightarrow>
    utf8Length (u # s) = (if u \<le> 0x7f then 1 else if u \<le> 0x7ff then 2 else 3) + utf8Length s"
  using utf8Length_append[of "[u]" s] unit_bound[of u]
  by (auto simp: utf8Length_def utf8_def utf8Point_def isSurrogatePoint_def isHigh_def isLow_def word_le_nat_alt)

lemma utf8Length_pair: "isHigh u \<Longrightarrow> isLow v \<Longrightarrow> utf8Length (u # v # s) = 4 + utf8Length s"
  by (auto simp: utf8Length_def utf8_def utf8Point_def isSurrogatePoint_def isHigh_def isLow_def word_le_nat_alt)

definition ascii :: "ustring \<Rightarrow> bool" where
  "ascii s = (\<forall>u \<in> set s. u \<le> 0x7f)"

lemma ascii_wellFormed: "ascii s \<Longrightarrow> isWellFormed s"
  by (rule wellFormed_plain) (auto simp: ascii_def isHigh_def isLow_def word_le_nat_alt)

lemma ascii_length: "ascii s \<Longrightarrow> utf8Length s = length s"
proof (induction s)
  case (Cons u s)
  then have "\<not> isHigh u" "\<not> isLow u"
    by (auto simp: ascii_def isHigh_def isLow_def word_le_nat_alt)
  with Cons show ?case by (simp add: utf8Length_unit ascii_def)
qed simp

lemma ascii_append [simp]: "ascii (a @ b) = (ascii a \<and> ascii b)"
  by (auto simp: ascii_def)

section \<open>The encoded size of a string\<close>

lemma hexDigit_ascii: "n < 16 \<Longrightarrow> hexDigit n \<le> 0x7f"
  by (simp add: hexDigit_def less_Suc_eq numeral_eq_Suc) (auto simp: js_def cu_def)

lemma ascii_measure: "ascii s \<Longrightarrow> isWellFormed s \<and> utf8Length s = length s"
  by (simp add: ascii_wellFormed ascii_length)

lemma unicodeEscape_measure: "isWellFormed (unicodeEscape u) \<and> utf8Length (unicodeEscape u) = 6"
proof -
  have "ascii (unicodeEscape u)"
    using hexDigit_ascii nibbles_bound by (auto simp: ascii_def unicodeEscape_nibbles)
  from ascii_measure[OF this] show ?thesis by (simp add: unicodeEscape_nibbles del: isWellFormed.simps)
qed

lemma quoteUnit_size:
  assumes "\<not> isHigh u" "\<not> isLow u"
  shows "isWellFormed (quoteUnit u) \<and> utf8Length (quoteUnit u) = unitBytes u"
proof -
  let ?S = "{0x22, 0x5c, 8, 0xc, 0xa, 0xd, 9} :: code_unit set"
  consider (short) "u \<in> ?S" | (control) "u \<notin> ?S" "u < 0x20" | (plain) "u \<notin> ?S" "\<not> u < 0x20" by blast
  then show ?thesis
  proof cases
    case short
    have "ascii [0x5c, e]" if "e \<in> {0x22, 0x5c, 0x62, 0x66, 0x6e, 0x72, 0x74}" for e
      using that by (auto simp: ascii_def)
    from ascii_measure[OF this] short show ?thesis
      by (elim insertE) (simp_all add: quoteUnit_def unitBytes_def shortEscaped_def js_lits del: isWellFormed.simps)
  next
    case control
    then have "quoteUnit u = unicodeEscape u" by (simp add: quoteUnit_def)
    moreover from control have "unitBytes u = 6"
      by (simp add: unitBytes_def shortEscaped_def word_less_nat_alt word_le_nat_alt)
    ultimately show ?thesis using unicodeEscape_measure by simp
  next
    case plain
    then have "quoteUnit u = [u]" by (simp add: quoteUnit_def)
    moreover from plain have "unitBytes u = (if u \<le> 0x7f then 1 else if u \<le> 0x7ff then 2 else 3)"
      by (simp add: unitBytes_def shortEscaped_def word_less_nat_alt word_le_nat_alt)
    ultimately show ?thesis using assms utf8Length_unit[OF assms, of "[]"] by simp
  qed
qed

lemma unitBytes_pos: "0 < unitBytes u"
  by (simp add: unitBytes_def)

text \<open>The encoded size as one sum, and the loop as a bounded reading of it.\<close>

fun stringBytes :: "ustring \<Rightarrow> nat" where
  "stringBytes [] = 0"
| "stringBytes (u # rest) =
     (if isHigh u then (case rest of [] \<Rightarrow> 0 | _ # rest' \<Rightarrow> 4 + stringBytes rest') else unitBytes u + stringBytes rest)"

lemma within_mono: "within m n \<Longrightarrow> k \<le> n \<Longrightarrow> within m k"
  by (auto simp: within_def split: option.splits)

lemma encodedUnits_iff:
  "encodedUnits maximum n s = (if isWellFormed s \<and> within maximum (n + stringBytes s) then Some (n + stringBytes s) else None)"
proof (induction maximum n s rule: encodedUnits.induct)
  case (2 maximum n u rest)
  have m: "within maximum (n + unitBytes u)" if "within maximum (n + (unitBytes u + stringBytes rest))"
    using that by (rule within_mono) simp
  have m4: "within maximum (n + 4)" if "within maximum (n + (4 + stringBytes xs))" for xs
    using that by (rule within_mono) simp
  show ?case
  proof (cases "isHigh u")
    case True
    with 2 m4 show ?thesis by (cases rest) (auto simp: add.assoc)
  next
    case False
    with 2 m show ?thesis by (auto simp: add.assoc)
  qed
qed simp

lemma quoteChunks_size:
  "isWellFormed s \<Longrightarrow>
     isWellFormed (concat (map quoteChunk (chunks s))) \<and>
     utf8Length (concat (map quoteChunk (chunks s))) = stringBytes s"
proof (induction s rule: isWellFormed.induct)
  case (2 code rest)
  show ?case
  proof (cases "isHigh code")
    case True
    with 2 obtain low rest' where r: "rest = low # rest'" "isLow low" "isWellFormed rest'"
      by (cases rest) (auto split: if_splits)
    with True 2 show ?thesis by (auto simp: quoteChunk_def utf8Length_pair)
  next
    case False
    with 2 have w: "\<not> isLow code" "isWellFormed rest" by (auto split: if_splits)
    have "chunks (code # rest) = [code] # chunks rest" using False by (cases rest) auto
    moreover note quoteUnit_size[OF False w(1)]
    ultimately show ?thesis using 2 False w
      by (auto simp: quoteChunk_def utf8Length_append wellFormed_append)
  qed
qed simp

lemma quoteJson_size: "isWellFormed s \<Longrightarrow> utf8Length (quoteJson s) = 2 + stringBytes s"
proof -
  assume "isWellFormed s"
  note q = quoteChunks_size[OF this]
  have a: "isWellFormed [0x22]" "utf8Length [0x22] = 1"
    using ascii_measure[of "[0x22]"] by (simp_all add: ascii_def del: isWellFormed.simps)
  show ?thesis
    using q a utf8Length_append[OF a(1)] utf8Length_append[OF q[THEN conjunct1]] by (simp add: quoteJson_def)
qed

lemma encodedStringBytes_iff:
  "encodedStringBytes s maximum =
     (if isWellFormed s \<and> within maximum (utf8Length (quoteJson s)) then Some (utf8Length (quoteJson s)) else None)"
  by (auto simp: encodedStringBytes_def encodedUnits_iff quoteJson_size)

section \<open>The encoded size of a value\<close>

text \<open>\<open>Number::toString\<close> writes a finite number in one or more ASCII characters.\<close>

definition number_text :: "(js_number \<Rightarrow> ustring) \<Rightarrow> bool" where
  "number_text numText = (\<forall>n. isFiniteNumber n \<longrightarrow> ascii (numText n) \<and> numText n \<noteq> [])"

fun json_bytes :: "(js_number \<Rightarrow> ustring) \<Rightarrow> json \<Rightarrow> nat" where
  "json_bytes numText JNull = 4"
| "json_bytes numText (JBool b) = booleanBytes b"
| "json_bytes numText (JNumber n) = length (numText n)"
| "json_bytes numText (JString s) = 2 + stringBytes s"
| "json_bytes numText (JArray xs) = 2 + (length xs - 1) + sum_list (map (json_bytes numText) xs)"
| "json_bytes numText (JObject kvs) =
     2 + (length kvs - 1) + sum_list (map (\<lambda>(k, v). 3 + stringBytes k + json_bytes numText v) kvs)"

fun json_nodes :: "json \<Rightarrow> nat" where
  "json_nodes (JArray xs) = Suc (sum_list (map json_nodes xs))"
| "json_nodes (JObject kvs) = Suc (sum_list (map (\<lambda>(k, v). json_nodes v) kvs))"
| "json_nodes _ = 1"

lemma join_size:
  assumes "\<forall>x \<in> set xs. isWellFormed x"
  shows "isWellFormed (js_join (js '','') xs) \<and>
    utf8Length (js_join (js '','') xs) = length xs - 1 + sum_list (map utf8Length xs)"
  using assms
proof (induction xs)
  case (Cons x xs)
  have comma: "isWellFormed (js '','')" "utf8Length (js '','') = 1"
    using ascii_measure[of "js '',''"] by (simp_all add: js_lits ascii_def del: isWellFormed.simps)
  show ?case
  proof (cases "xs = []")
    case False
    with Cons comma show ?thesis
      by (cases xs) (simp_all add: js_join_Cons utf8Length_append wellFormed_append)
  qed (use Cons in simp)
qed simp

lemma bracket_size:
  assumes "isWellFormed x" "ascii l" "ascii r"
  shows "isWellFormed (l @ x @ r) \<and> utf8Length (l @ x @ r) = length l + length r + utf8Length x"
  using assms ascii_measure[OF assms(2)] ascii_measure[OF assms(3)] by (simp add: utf8Length_append wellFormed_append)

lemma member_size:
  assumes "isWellFormed k" "isWellFormed t"
  shows "isWellFormed (quoteJson k @ js '':'' @ t) \<and>
    utf8Length (quoteJson k @ js '':'' @ t) = 3 + stringBytes k + utf8Length t"
proof -
  have "isWellFormed (js '':'')" "utf8Length (js '':'') = 1"
    using ascii_measure[of "js '':''"] by (simp_all add: js_lits ascii_def del: isWellFormed.simps)
  then show ?thesis
    using assms quoteJson_wellFormed[of k] by (simp add: utf8Length_append wellFormed_append quoteJson_size)
qed

lemma literal_size:
  "isWellFormed (js ''null'') \<and> utf8Length (js ''null'') = 4"
  "isWellFormed (js ''true'') \<and> utf8Length (js ''true'') = 4"
  "isWellFormed (js ''false'') \<and> utf8Length (js ''false'') = 5"
  using ascii_measure[of "js ''null''"] ascii_measure[of "js ''true''"] ascii_measure[of "js ''false''"]
  by (simp_all add: js_lits ascii_def del: isWellFormed.simps)

lemma brackets_ascii: "ascii (js ''['')" "ascii (js '']'')" "ascii (js ''{'')" "ascii (js ''}'')"
  by (simp_all add: js_lits ascii_def)

lemma stringify_size:
  assumes n: "number_text numText" and "json_clean j"
  shows "isWellFormed (stringify numText j) \<and> utf8Length (stringify numText j) = json_bytes numText j"
  using assms(2)
proof (induction j)
  case (JNumber x)
  then have "ascii (numText x)" using n by (simp add: number_text_def)
  with JNumber show ?case by (simp add: ascii_wellFormed ascii_length)
next
  case (JArray xs)
  let ?ts = "map (stringify numText) xs"
  have t: "\<forall>x \<in> set xs. isWellFormed (stringify numText x) \<and> utf8Length (stringify numText x) = json_bytes numText x"
    using JArray by (auto simp: list_all_iff)
  then have s: "map utf8Length ?ts = map (json_bytes numText) xs" by simp
  have j: "isWellFormed (js_join (js '','') ?ts)"
    "utf8Length (js_join (js '','') ?ts) = length xs - 1 + sum_list (map (json_bytes numText) xs)"
    using join_size[of ?ts] t unfolding s by simp_all
  show ?case using bracket_size[OF j(1) brackets_ascii(1,2)] j(2) by simp
next
  case (JObject kvs)
  let ?f = "\<lambda>(k, v). quoteJson k @ js '':'' @ stringify numText v"
  have t: "isWellFormed (?f kv) \<and> utf8Length (?f kv) = (\<lambda>(k, v). 3 + stringBytes k + json_bytes numText v) kv"
    if "kv \<in> set kvs" for kv
  proof -
    obtain k v where kv: "kv = (k, v)" by force
    have "isWellFormed k" "json_clean v" using JObject.prems that kv by (auto simp: list_all_iff)
    moreover have "isWellFormed (stringify numText v) \<and> utf8Length (stringify numText v) = json_bytes numText v"
      using JObject.IH[OF that, of v] kv \<open>json_clean v\<close> by simp
    ultimately show ?thesis using member_size[of k "stringify numText v"] kv by simp
  qed
  then have s: "map utf8Length (map ?f kvs) = map (\<lambda>(k, v). 3 + stringBytes k + json_bytes numText v) kvs" by simp
  have j: "isWellFormed (js_join (js '','') (map ?f kvs))"
    "utf8Length (js_join (js '','') (map ?f kvs)) =
       length kvs - 1 + sum_list (map (\<lambda>(k, v). 3 + stringBytes k + json_bytes numText v) kvs)"
    using join_size[of "map ?f kvs"] t unfolding s by simp_all
  show ?case using bracket_size[OF j(1) brackets_ascii(3,4)] j(2) by simp
qed (simp_all add: literal_size booleanBytes_def quoteJson_wellFormed quoteJson_size)

section \<open>What is admitted\<close>

text \<open>The enumerable data members of an object, and the JSON copy of a value on the heap.\<close>

fun dataMembers :: "(ustring \<times> bool \<times> js_property) list \<Rightarrow> (ustring \<times> js_value) list" where
  "dataMembers [] = []"
| "dataMembers ((key, enumerable, property) # rest) =
     (case property of Data v \<Rightarrow> if enumerable then (key, v) # dataMembers rest else dataMembers rest
      | Accessor \<Rightarrow> dataMembers rest)"

definition plainMembers :: "(ustring \<times> bool \<times> js_property) list \<Rightarrow> bool" where
  "plainMembers props = (\<forall>(key, enumerable, property) \<in> set props. enumerable \<longrightarrow> property \<noteq> Accessor)"

inductive copies :: "js_heap \<Rightarrow> nat list \<Rightarrow> js_value \<Rightarrow> json \<Rightarrow> bool" for heap where
  copies_Null: "copies heap active Null JNull"
| copies_Boolean: "copies heap active (Boolean b) (JBool b)"
| copies_Number: "isFiniteNumber n \<Longrightarrow> copies heap active (Number n) (JNumber n)"
| copies_Str: "isWellFormed s \<Longrightarrow> copies heap active (Str s) (JString s)"
| copies_Array: "a \<notin> set active \<Longrightarrow> heap a = ArrayObj es \<Longrightarrow> length es \<le> 0xffffffff \<Longrightarrow>
    list_all2 (\<lambda>e j. \<exists>v. e = Some (Data v) \<and> copies heap (a # active) v j) es xs \<Longrightarrow>
    copies heap active (Ref a) (JArray xs)"
| copies_Object: "a \<notin> set active \<Longrightarrow> heap a = RecordObj True props \<Longrightarrow> plainMembers props \<Longrightarrow>
    list_all2 (\<lambda>m kv. fst m = fst kv \<and> isWellFormed (fst kv) \<and> copies heap (a # active) (snd m) (snd kv))
      (dataMembers props) kvs \<Longrightarrow>
    copies heap active (Ref a) (JObject kvs)"

inductive_simps copies_values:
  "copies heap active Null j"
  "copies heap active (Boolean b) j"
  "copies heap active (Number n) j"
  "copies heap active (Str s) j"
  "copies heap active Undefined j"
  "copies heap active Opaque j"

inductive_simps copies_Ref: "copies heap active (Ref a) j"

text \<open>The limits on single strings, keys and containers, and on the running totals.\<close>

fun shapely :: "limits \<Rightarrow> json \<Rightarrow> bool" where
  "shapely l (JString s) = within (maxStringBytes l) (2 + stringBytes s)"
| "shapely l (JArray xs) = (length xs \<le> maxMembers l \<and> list_all (shapely l) xs)"
| "shapely l (JObject kvs) =
     (length kvs \<le> maxMembers l \<and> list_all (\<lambda>(k, v). within (maxKeyBytes l) (2 + stringBytes k) \<and> shapely l v) kvs)"
| "shapely l _ = True"

definition bytesFit :: "limits \<Rightarrow> nat \<Rightarrow> bool" where
  "bytesFit l n = (n \<le> safeIntegerLimit \<and> within (maxBytes l) n)"

definition affordable :: "limits \<Rightarrow> counters \<Rightarrow> bool" where
  "affordable l c = (bytesFit l (bytes c) \<and> nodes c \<le> maxNodes l \<and> within (maxTotalMembers l) (totalMembers c))"

definition spend :: "nat \<Rightarrow> nat \<Rightarrow> nat \<Rightarrow> counters \<Rightarrow> counters" where
  "spend b n m c = c\<lparr>bytes := bytes c + b, nodes := nodes c + n, totalMembers := totalMembers c + m\<rparr>"

definition spendValue :: "(js_number \<Rightarrow> ustring) \<Rightarrow> json \<Rightarrow> counters \<Rightarrow> counters" where
  "spendValue numText j = spend (json_bytes numText j) (json_nodes j) (json_members j)"

lemma bytesFit_mono: "bytesFit l n \<Longrightarrow> k \<le> n \<Longrightarrow> bytesFit l k"
  by (auto simp: bytesFit_def intro: within_mono)

lemma affordable_mono:
  "affordable l (spend b n m c) \<Longrightarrow> b' \<le> b \<Longrightarrow> n' \<le> n \<Longrightarrow> m' \<le> m \<Longrightarrow> affordable l (spend b' n' m' c)"
  by (auto simp: affordable_def spend_def intro: within_mono bytesFit_mono)

lemma spend_spend [simp]: "spend b n m (spend b' n' m' c) = spend (b' + b) (n' + n) (m' + m) c"
  by (simp add: spend_def add.assoc)

lemma spend_sel [simp]:
  "bytes (spend b n m c) = bytes c + b" "nodes (spend b n m c) = nodes c + n"
  "totalMembers (spend b n m c) = totalMembers c + m"
  by (simp_all add: spend_def)

lemma addBytes_spend: "addBytes l k c = (if bytesFit l (bytes c + k) then Some (spend k 0 0 c) else None)"
  by (simp add: addBytes_def bytesFit_def spend_def Let_def)

lemma countMembers_spend:
  "countMembers l k c =
     (if k \<le> maxMembers l \<and> within (maxTotalMembers l) (totalMembers c + k) then Some (spend 0 0 k c) else None)"
  by (simp add: countMembers_def spend_def Let_def)

lemma enter_spend: "c\<lparr>nodes := Suc (nodes c)\<rparr> = spend 0 (Suc 0) 0 c"
  by (simp add: spend_def)

lemma chargeValue_Inr:
  "chargeValue l k c path value = Inr (j, c') \<longleftrightarrow> j = value \<and> c' = spend k 0 0 c \<and> bytesFit l (bytes c + k)"
  by (auto simp: chargeValue_def refuse_def addBytes_spend)

lemma collectMembers_sound:
  "collectMembers l c path ms props = Inr ms' \<Longrightarrow> ms' = ms @ dataMembers props \<and> plainMembers props"
  by (induction l c path ms props rule: collectMembers.induct)
    (auto simp: plainMembers_def Let_def split: if_splits js_property.splits)

lemma collectMembers_complete:
  assumes "plainMembers props" "n = length (ms @ dataMembers props)" "n \<le> maxMembers l"
    "within (maxTotalMembers l) (totalMembers c + n)" "nodes c + n \<le> maxNodes l"
    "within (maxBytes l) (bytes c + (2 + (n - 1) + 4 * n))"
  shows "collectMembers l c path ms props = Inr (ms @ dataMembers props)"
  using assms
proof (induction l c path ms props rule: collectMembers.induct)
  case (2 l c path ms key enumerable property rest)
  have p: "plainMembers rest" using 2(3) by (simp add: plainMembers_def)
  show ?case
  proof (cases "enumerable")
    case False
    with 2 p show ?thesis by (auto split: js_property.splits)
  next
    case True
    then obtain v where v: "property = Data v" using 2(3) by (cases property) (auto simp: plainMembers_def)
    let ?k = "length ms + 1"
    have n: "?k \<le> n" using 2(4) True v by simp
    have b: "within (maxBytes l) (bytes c + (2 + (?k - 1) + 4 * ?k))"
      by (rule within_mono[OF 2(8)]) (use n in simp)
    have t: "within (maxTotalMembers l) (totalMembers c + ?k)"
      by (rule within_mono[OF 2(6)]) (use n in simp)
    have k: "\<not> maxMembers l < ?k" "\<not> maxNodes l < nodes c + ?k" using 2(5,7) n by simp_all
    have "collectMembers l c path (ms @ [(key, v)]) rest = Inr ((ms @ [(key, v)]) @ dataMembers rest)"
      by (rule 2(2)[OF _ v refl]) (use True v k t b p 2(4-8) in simp_all)
    with True v k t b show ?thesis by (simp add: Let_def)
  qed
qed simp

end
