(* ===== verification/Bounded_Json_Properties.thy ===== *)
theory Bounded_Json_Properties
  imports Bounded_Json_Lemmas
begin

text \<open>
  Bounded admission of JSON is exact: it answers precisely for the values that can be copied
  without running code and whose text, depth, nodes and members are within the limits, and the
  bytes it reports are those of the encoded text.
\<close>

lemma chain_Inr:
  "(case r of Inl e \<Rightarrow> Inl e | Inr (a, b) \<Rightarrow> f a b) = Inr y \<longleftrightarrow> (\<exists>a b. r = Inr (a, b) \<and> f a b = Inr y)"
  by (auto split: sum.splits)

lemma depth_array: "json_depth (JArray xs) \<le> n \<longleftrightarrow> (\<forall>x \<in> set xs. Suc (json_depth x) \<le> n)"
  by (induction xs) auto

lemma depth_object: "json_depth (JObject kvs) \<le> n \<longleftrightarrow> (\<forall>kv \<in> set kvs. Suc (json_depth (snd kv)) \<le> n)"
  by (induction kvs) auto

text \<open>What admission of a value, of elements and of members at one depth should mean.\<close>

definition admitted :: "(js_number \<Rightarrow> ustring) \<Rightarrow> limits \<Rightarrow> js_heap \<Rightarrow> nat list \<Rightarrow> counters \<Rightarrow> js_value \<Rightarrow> nat \<Rightarrow> json \<Rightarrow> bool" where
  "admitted numText l heap active c value depth j \<longleftrightarrow>
     copies heap active value j \<and> depth + json_depth j \<le> maxDepth l \<and> shapely l j \<and>
     affordable l (spendValue numText j c)"

definition spendAll :: "(js_number \<Rightarrow> ustring) \<Rightarrow> json list \<Rightarrow> counters \<Rightarrow> counters" where
  "spendAll numText xs =
     spend (sum_list (map (json_bytes numText) xs)) (sum_list (map json_nodes xs)) (sum_list (map json_members xs))"

definition spendMembers :: "(js_number \<Rightarrow> ustring) \<Rightarrow> (ustring \<times> json) list \<Rightarrow> counters \<Rightarrow> counters" where
  "spendMembers numText kvs =
     spend (sum_list (map (\<lambda>(k, v). 3 + stringBytes k + json_bytes numText v) kvs))
       (sum_list (map (\<lambda>(k, v). json_nodes v) kvs)) (sum_list (map (\<lambda>(k, v). json_members v) kvs))"

lemma admitElements_iff:
  assumes V: "\<And>c v path j c'. affordable l c \<Longrightarrow>
    (admitValue numText l heap active c v d path = Inr (j, c')) =
    (admitted numText l heap active c v d j \<and> c' = spendValue numText j c)"
  shows "affordable l c \<Longrightarrow> (admitElements numText l heap active c es index d path = Inr (xs, c')) =
    (list_all2 (\<lambda>e j. \<exists>v. e = Some (Data v) \<and> copies heap active v j) es xs \<and>
     (\<forall>j \<in> set xs. d + json_depth j \<le> maxDepth l \<and> shapely l j) \<and>
     c' = spendAll numText xs c \<and> affordable l c')"
proof (induction es arbitrary: c index xs)
  case Nil
  then show ?case by (auto simp: spendAll_def spend_def)
next
  case (Cons e es)
  have mono: "affordable l (spendValue numText j c)" if "affordable l (spendAll numText (j # js') c)" for j js'
    using that by (auto simp: spendAll_def spendValue_def elim!: affordable_mono)
  have step: "spendAll numText (j # js') c = spendAll numText js' (spendValue numText j c)" for j js'
    by (simp add: spendAll_def spendValue_def)
  show ?case
  proof (cases "\<exists>v. e = Some (Data v)")
    case False
    then show ?thesis by (auto simp: refuse_def list_all2_Cons1 split: option.splits js_property.splits)
  next
    case True
    then obtain v where e: "e = Some (Data v)" by blast
    have "(admitElements numText l heap active c (e # es) index d path = Inr (xs, c')) =
      (\<exists>j js'. xs = j # js' \<and> admitted numText l heap active c v d j \<and>
         admitElements numText l heap active (spendValue numText j c) es (Suc index) d path = Inr (js', c'))"
      by (auto simp: e chain_Inr V[OF Cons.prems])
    also have "\<dots> = (\<exists>j js'. xs = j # js' \<and> admitted numText l heap active c v d j \<and>
        list_all2 (\<lambda>e j. \<exists>v. e = Some (Data v) \<and> copies heap active v j) es js' \<and>
        (\<forall>j \<in> set js'. d + json_depth j \<le> maxDepth l \<and> shapely l j) \<and>
        c' = spendAll numText xs c \<and> affordable l c')"
      using Cons.IH by (auto simp: admitted_def step)
    also have "\<dots> = (list_all2 (\<lambda>e j. \<exists>v. e = Some (Data v) \<and> copies heap active v j) (e # es) xs \<and>
        (\<forall>j \<in> set xs. d + json_depth j \<le> maxDepth l \<and> shapely l j) \<and>
        c' = spendAll numText xs c \<and> affordable l c')"
      using mono by (auto simp: e admitted_def list_all2_Cons1)
    finally show ?thesis .
  qed
qed

lemma admitMembers_iff:
  assumes V: "\<And>c v path j c'. affordable l c \<Longrightarrow>
    (admitValue numText l heap active c v d path = Inr (j, c')) =
    (admitted numText l heap active c v d j \<and> c' = spendValue numText j c)"
  shows "affordable l c \<Longrightarrow> (admitMembers numText l heap active c ms d path = Inr (kvs, c')) =
    (list_all2 (\<lambda>m kv. fst m = fst kv \<and> isWellFormed (fst kv) \<and> copies heap active (snd m) (snd kv)) ms kvs \<and>
     (\<forall>kv \<in> set kvs. d + json_depth (snd kv) \<le> maxDepth l \<and>
        within (maxKeyBytes l) (2 + stringBytes (fst kv)) \<and> shapely l (snd kv)) \<and>
     c' = spendMembers numText kvs c \<and> affordable l c')"
proof (induction ms arbitrary: c kvs)
  case Nil
  then show ?case by (auto simp: spendMembers_def spend_def)
next
  case (Cons m ms)
  obtain k v where m: "m = (k, v)" by force
  let ?c = "spend (3 + stringBytes k) 0 0 c"
  have mono: "affordable l ?c" "affordable l (spendValue numText j ?c)"
    if "affordable l (spendMembers numText ((k, j) # kvs') c)" for j kvs'
    using that by (auto simp: spendMembers_def spendValue_def elim!: affordable_mono)
  have step: "spendMembers numText ((k, j) # kvs') c = spendMembers numText kvs' (spendValue numText j ?c)" for j kvs'
    by (simp add: spendMembers_def spendValue_def)
  have key: "affordable l ?c \<longleftrightarrow> bytesFit l (bytes c + (3 + stringBytes k))"
    using Cons.prems by (simp add: affordable_def)
  have three: "3 + stringBytes k = Suc (Suc (Suc (stringBytes k)))" by simp
  have "(admitMembers numText l heap active c (m # ms) d path = Inr (kvs, c')) =
    (isWellFormed k \<and> within (maxKeyBytes l) (2 + stringBytes k) \<and> affordable l ?c \<and>
     (\<exists>j kvs'. kvs = (k, j) # kvs' \<and> admitted numText l heap active ?c v d j \<and>
        admitMembers numText l heap active (spendValue numText j ?c) ms d path = Inr (kvs', c')))"
    by (cases "isWellFormed k \<and> within (maxKeyBytes l) (2 + stringBytes k) \<and> affordable l ?c")
      (auto simp: m refuse_def encodedStringBytes_iff quoteJson_size addBytes_spend key[unfolded three] three chain_Inr V)
  also have "\<dots> = (isWellFormed k \<and> within (maxKeyBytes l) (2 + stringBytes k) \<and> affordable l ?c \<and>
     (\<exists>j kvs'. kvs = (k, j) # kvs' \<and> admitted numText l heap active ?c v d j \<and>
       list_all2 (\<lambda>m kv. fst m = fst kv \<and> isWellFormed (fst kv) \<and> copies heap active (snd m) (snd kv)) ms kvs' \<and>
       (\<forall>kv \<in> set kvs'. d + json_depth (snd kv) \<le> maxDepth l \<and>
          within (maxKeyBytes l) (2 + stringBytes (fst kv)) \<and> shapely l (snd kv)) \<and>
       c' = spendMembers numText kvs c \<and> affordable l c'))"
    using Cons.IH by (auto simp: admitted_def step)
  also have "\<dots> = (list_all2 (\<lambda>m kv. fst m = fst kv \<and> isWellFormed (fst kv) \<and> copies heap active (snd m) (snd kv)) (m # ms) kvs \<and>
     (\<forall>kv \<in> set kvs. d + json_depth (snd kv) \<le> maxDepth l \<and>
        within (maxKeyBytes l) (2 + stringBytes (fst kv)) \<and> shapely l (snd kv)) \<and>
     c' = spendMembers numText kvs c \<and> affordable l c')"
    using mono by (auto simp: m admitted_def list_all2_Cons1)
  finally show ?case .
qed


text \<open>Every member costs at least a quoted key, a colon and one byte, so the early byte refusal is exact.\<close>

lemma json_bytes_pos: "number_text numText \<Longrightarrow> json_clean j \<Longrightarrow> 1 \<le> json_bytes numText j"
  by (cases j) (auto simp: number_text_def booleanBytes_def Suc_le_eq)

lemma json_nodes_pos: "1 \<le> json_nodes j"
  by (cases j) auto

lemma list_all2_right: "list_all2 P xs ys \<Longrightarrow> y \<in> set ys \<Longrightarrow> \<exists>x. P x y"
  by (induction rule: list_all2_induct) auto

lemma copies_clean: "copies heap active v j \<Longrightarrow> json_clean j"
  by (induction rule: copies.induct) (fastforce simp: list_all_iff dest: list_all2_right)+

lemma members_floor:
  assumes n: "number_text numText" and clean: "\<forall>kv \<in> set kvs. json_clean (snd kv)"
  shows "4 * length kvs \<le> sum_list (map (\<lambda>(k, v). 3 + stringBytes k + json_bytes numText v) kvs)"
    and "length kvs \<le> sum_list (map (\<lambda>(k, v). json_nodes v) kvs)"
proof -
  show "4 * length kvs \<le> sum_list (map (\<lambda>(k, v). 3 + stringBytes k + json_bytes numText v) kvs)"
    using clean
  proof (induction kvs)
    case (Cons kv kvs)
    then show ?case using json_bytes_pos[OF n, of "snd kv"] by (cases kv) auto
  qed simp
  show "length kvs \<le> sum_list (map (\<lambda>(k, v). json_nodes v) kvs)"
  proof (induction kvs)
    case (Cons kv kvs)
    then show ?case using json_nodes_pos[of "snd kv"] by (cases kv) auto
  qed simp
qed


definition valueExact :: "(js_number \<Rightarrow> ustring) \<Rightarrow> limits \<Rightarrow> js_heap \<Rightarrow> nat \<Rightarrow> bool" where
  "valueExact numText l heap d =
     (\<forall>active c v path j c'. affordable l c \<longrightarrow>
        (admitValue numText l heap active c v d path = Inr (j, c')) =
        (admitted numText l heap active c v d j \<and> c' = spendValue numText j c))"

lemma array_exact:
  assumes V: "valueExact numText l heap (Suc d)" and c: "affordable l c" and d: "d \<le> maxDepth l"
    and h: "heap a = ArrayObj es"
  shows "(admitValue numText l heap active c (Ref a) d path = Inr (j, c')) =
    (admitted numText l heap active c (Ref a) d j \<and> c' = spendValue numText j c)"
proof (cases "a \<notin> set active \<and> length es \<le> 0xffffffff \<and> nodes c + 1 \<le> maxNodes l")
  case False
  have "\<not> admitted numText l heap active c (Ref a) d j"
    using False h by (auto simp: admitted_def copies_Ref affordable_def spendValue_def)
  moreover have "admitValue numText l heap active c (Ref a) d path \<noteq> Inr (j, c')"
    using False h by (auto simp: admitValue.simps refuse_def Let_def)
  ultimately show ?thesis by simp
next
  case True
  let ?n = "length es"
  let ?c2 = "spend (Suc (Suc (?n - Suc 0))) (Suc 0) ?n c"
  let ?paid = "?n \<le> maxMembers l \<and> affordable l ?c2"
  let ?E = "list_all2 (\<lambda>e j. \<exists>v. e = Some (Data v) \<and> copies heap (a # active) v j) es"
  have paid: "?paid \<longleftrightarrow> ?n \<le> maxMembers l \<and> within (maxTotalMembers l) (totalMembers c + ?n) \<and>
      bytesFit l (Suc (Suc (bytes c + (?n - Suc 0))))"
    using True by (auto simp: affordable_def)
  have "(admitValue numText l heap active c (Ref a) d path = Inr (j, c')) =
    (?paid \<and> (\<exists>xs. j = JArray xs \<and> admitElements numText l heap (a # active) ?c2 es 0 (Suc d) path = Inr (xs, c')))"
    using True h d
    by (auto simp: admitValue.simps Let_def refuse_def enter_spend countMembers_spend addBytes_spend paid chain_Inr)
  also have "\<dots> = (?paid \<and> (\<exists>xs. j = JArray xs \<and> ?E xs \<and>
      (\<forall>x \<in> set xs. Suc d + json_depth x \<le> maxDepth l \<and> shapely l x) \<and>
      c' = spendAll numText xs ?c2 \<and> affordable l c'))"
    using admitElements_iff[OF V[unfolded valueExact_def, rule_format], of ?c2] by blast
  also have "\<dots> = (admitted numText l heap active c (Ref a) d j \<and> c' = spendValue numText j c)"
  proof -
    have cost: "spendValue numText (JArray xs) c = spendAll numText xs ?c2" if "?E xs" for xs
      using list_all2_lengthD[OF that]
      by (simp add: spendValue_def spendAll_def sum_list_addf[of "\<lambda>_. 1", simplified] sum_list_Suc add.commute)
    have mono: "affordable l ?c2" if "affordable l (spendAll numText xs ?c2)" for xs
      using that by (auto simp: spendAll_def elim!: affordable_mono)
    have dep: "d + json_depth (JArray xs) \<le> maxDepth l \<longleftrightarrow> (\<forall>x \<in> set xs. Suc d + json_depth x \<le> maxDepth l)" for xs
      using d depth_array[of xs "maxDepth l - d"] by (auto simp: le_diff_conv2 add.commute)
    show ?thesis
      using True h mono cost unfolding admitted_def copies_Ref
      by (auto simp: dep list_all_iff simp del: json_depth.simps dest: list_all2_lengthD)
  qed
  finally show ?thesis .
qed


lemma object_exact:
  assumes n: "number_text numText" and V: "valueExact numText l heap (Suc d)"
    and c: "affordable l c" and d: "d \<le> maxDepth l" and h: "heap a = RecordObj pl props"
  shows "(admitValue numText l heap active c (Ref a) d path = Inr (j, c')) =
    (admitted numText l heap active c (Ref a) d j \<and> c' = spendValue numText j c)"
proof (cases "a \<notin> set active \<and> pl \<and> plainMembers props \<and> nodes c + 1 \<le> maxNodes l")
  case False
  have "\<not> admitted numText l heap active c (Ref a) d j"
    using False h by (auto simp: admitted_def copies_Ref affordable_def spendValue_def)
  moreover have "admitValue numText l heap active c (Ref a) d path \<noteq> Inr (j, c')"
    using False h by (auto simp: admitValue.simps refuse_def Let_def dest: collectMembers_sound split: sum.splits)
  ultimately show ?thesis by simp
next
  case True
  let ?ms = "dataMembers props" and ?c1 = "spend 0 (Suc 0) 0 c"
  let ?n = "length ?ms"
  let ?c2 = "spend (Suc (Suc (?n - Suc 0))) (Suc 0) ?n c"
  let ?paid = "?n \<le> maxMembers l \<and> affordable l ?c2"
  let ?E = "list_all2 (\<lambda>m kv. fst m = fst kv \<and> isWellFormed (fst kv) \<and> copies heap (a # active) (snd m) (snd kv)) ?ms"
  let ?R = "\<lambda>kvs. ?E kvs \<and> (\<forall>kv \<in> set kvs. Suc d + json_depth (snd kv) \<le> maxDepth l \<and>
      within (maxKeyBytes l) (2 + stringBytes (fst kv)) \<and> shapely l (snd kv)) \<and>
      c' = spendMembers numText kvs ?c2 \<and> affordable l c'"
  have paid: "?paid \<longleftrightarrow> ?n \<le> maxMembers l \<and> within (maxTotalMembers l) (totalMembers c + ?n) \<and>
      bytesFit l (Suc (Suc (bytes c + (?n - Suc 0))))"
    using True by (auto simp: affordable_def)
  have inner: "admitMembers numText l heap (a # active) ?c2 ?ms (Suc d) path = Inr (kvs, c') \<longleftrightarrow> ?R kvs"
    if ?paid for kvs
    using admitMembers_iff[OF V[unfolded valueExact_def, rule_format], of ?c2] that by blast
  have early: "collectMembers l ?c1 path [] props = Inr ?ms" if p: ?paid and r: "?R kvs" for kvs
  proof -
    have len: "?n = length kvs" using r list_all2_lengthD by blast
    have "\<forall>kv \<in> set kvs. json_clean (snd kv)"
      using r by (auto dest!: list_all2_right copies_clean)
    from members_floor[OF n this]
    have "?n \<le> nodes (spendMembers numText kvs ?c2) - nodes ?c1"
      and b: "bytes c + (2 + (?n - 1) + 4 * ?n) \<le> bytes (spendMembers numText kvs ?c2)"
      by (simp_all add: spendMembers_def len)
    then have "nodes ?c1 + ?n \<le> maxNodes l" using r by (auto simp: affordable_def spendMembers_def)
    moreover have "within (maxBytes l) (bytes c + (2 + (?n - 1) + 4 * ?n))"
      using r b by (auto simp: affordable_def bytesFit_def elim: within_mono)
    ultimately show ?thesis
      using True p paid by (intro collectMembers_complete[of props ?n "[]", simplified]) simp_all
  qed
  have "(admitValue numText l heap active c (Ref a) d path = Inr (j, c')) =
    (?paid \<and> collectMembers l ?c1 path [] props = Inr ?ms \<and>
     (\<exists>kvs. j = JObject kvs \<and> admitMembers numText l heap (a # active) ?c2 ?ms (Suc d) path = Inr (kvs, c')))"
    using True h d
    by (auto simp: admitValue.simps Let_def refuse_def enter_spend countMembers_spend addBytes_spend paid chain_Inr
        dest: collectMembers_sound split: sum.splits)
  also have "\<dots> = (?paid \<and> (\<exists>kvs. j = JObject kvs \<and> ?R kvs))"
    using inner early by blast
  also have "\<dots> = (admitted numText l heap active c (Ref a) d j \<and> c' = spendValue numText j c)"
  proof -
    have cost: "spendValue numText (JObject kvs) c = spendMembers numText kvs ?c2" if "?E kvs" for kvs
    proof -
      have "sum_list (map (\<lambda>(k, v). Suc (json_members v)) kvs) = length kvs + sum_list (map (\<lambda>(k, v). json_members v) kvs)"
        by (induction kvs) auto
      then show ?thesis
        using list_all2_lengthD[OF that] by (simp add: spendValue_def spendMembers_def)
    qed
    have mono: "affordable l ?c2" if "affordable l (spendMembers numText kvs ?c2)" for kvs
      using that by (auto simp: spendMembers_def elim!: affordable_mono)
    have dep: "d + json_depth (JObject kvs) \<le> maxDepth l \<longleftrightarrow> (\<forall>kv \<in> set kvs. Suc d + json_depth (snd kv) \<le> maxDepth l)" for kvs
      using d depth_object[of kvs "maxDepth l - d"] by (auto simp: le_diff_conv2 add.commute)
    have shp: "shapely l (JObject kvs) \<longleftrightarrow> ?n \<le> maxMembers l \<and>
        (\<forall>kv \<in> set kvs. within (maxKeyBytes l) (2 + stringBytes (fst kv)) \<and> shapely l (snd kv))" if "?E kvs" for kvs
      using list_all2_lengthD[OF that] by (auto simp: list_all_iff)
    have "admitted numText l heap active c (Ref a) d (JObject kvs) \<and> c' = spendValue numText (JObject kvs) c \<longleftrightarrow>
        ?paid \<and> ?R kvs" for kvs
    proof (cases "?E kvs")
      case E: True
      have "copies heap active (Ref a) (JObject kvs)" using True h E by (auto intro: copies_Object)
      with E show ?thesis unfolding admitted_def dep shp[OF E] cost[OF E] using mono by blast
    next
      case False
      have "\<not> copies heap active (Ref a) (JObject kvs)" using False h by (auto simp: copies_Ref)
      with False show ?thesis unfolding admitted_def by blast
    qed
    moreover have "\<exists>kvs. j = JObject kvs" if "admitted numText l heap active c (Ref a) d j"
      using that h by (auto simp: admitted_def copies_Ref)
    ultimately show ?thesis by blast
  qed
  finally show ?thesis .
qed

lemma value_exact: "number_text numText \<Longrightarrow> valueExact numText l heap d"
proof (induction "Suc (maxDepth l) - d" arbitrary: d)
  case 0
  then show ?case by (auto simp: valueExact_def admitted_def admitValue.simps refuse_def)
next
  case (Suc k)
  then have d: "d \<le> maxDepth l" and V: "valueExact numText l heap (Suc d)" by simp_all
  have "(admitValue numText l heap active c v d path = Inr (j, c')) =
      (admitted numText l heap active c v d j \<and> c' = spendValue numText j c)"
    if c: "affordable l c" for active c v path j c'
  proof (cases v)
    case (Ref a)
    then show ?thesis
      using array_exact[OF V c d] object_exact[OF Suc.prems V c d] by (cases "heap a") auto
  qed (use d c in \<open>auto simp: admitValue.simps Let_def enter_spend chargeValue_Inr refuse_def copies_values admitted_def
          spendValue_def affordable_def encodedStringBytes_iff quoteJson_size\<close>)
  then show ?case by (simp add: valueExact_def)
qed

text \<open>
  (C12) Admission is exact.  A value is admitted as \<open>j\<close> with \<open>b\<close> bytes exactly when \<open>j\<close> is its
  copy (acyclic, plain, dense, free of accessors, every text well formed, every number finite), its
  depth, its number of values and its members are within the limits, every string, key and
  container is, and \<open>b\<close>, the length of the UTF-8 encoding of \<open>JSON.stringify(j)\<close>, is within the
  byte limit: no early refusal rejects a value that fits, and the incremental count never drifts
  from what the encoder writes.
\<close>

theorem admission_is_exact:
  assumes "number_text numText"
  shows "admitBounded numText l heap value = Inr (j, b) \<longleftrightarrow>
    copies heap [] value j \<and> json_depth j \<le> maxDepth l \<and> json_nodes j \<le> maxNodes l \<and>
    within (maxTotalMembers l) (json_members j) \<and> shapely l j \<and>
    b = length (utf8 (stringify numText j)) \<and> b \<le> safeIntegerLimit \<and> within (maxBytes l) b"
proof -
  have start: "affordable l noBytes"
    by (auto simp: affordable_def noBytes_def bytesFit_def safeIntegerLimit_def within_def split: option.splits)
  have "admitBounded numText l heap value = Inr (j, b) \<longleftrightarrow>
    (\<exists>c'. admitValue numText l heap [] noBytes value 0 [] = Inr (j, c') \<and> b = bytes c')"
    by (auto simp: admitBounded_def split: sum.splits)
  also have "\<dots> \<longleftrightarrow> admitted numText l heap [] noBytes value 0 j \<and> b = json_bytes numText j"
    using value_exact[OF assms, unfolded valueExact_def] start by (auto simp: spendValue_def noBytes_def)
  finally show ?thesis
    using stringify_size[OF assms copies_clean]
    by (auto simp: admitted_def affordable_def spendValue_def bytesFit_def noBytes_def utf8Length_def)
qed

definition sampleLimits :: limits where
  "sampleLimits = \<lparr>maxBytes = Some 17, maxDepth = 2, maxMembers = 4, maxTotalMembers = Some 4, maxNodes = 5,
     maxStringBytes = None, maxKeyBytes = Some 8\<rparr>"

definition sampleTree :: js_heap where
  "sampleTree a = (if a = 0 then RecordObj True [(js ''a'', True, Data (Ref 1)), (js ''b'', False, Accessor)]
     else ArrayObj [Some (Data Null), Some (Data (Boolean True))])"

theorem admission_is_exact_witness:
  "number_text (\<lambda>_. js ''1'') \<and>
   admitBounded (\<lambda>_. js ''1'') sampleLimits sampleTree (Ref 0) = Inr (JObject [(js ''a'', JArray [JNull, JBool True])], 17) \<and>
   length (utf8 (stringify (\<lambda>_. js ''1'') (JObject [(js ''a'', JArray [JNull, JBool True])]))) = 17"
proof -
  have n: "number_text (\<lambda>_. js ''1'')" by (simp add: number_text_def ascii_def js_lits)
  have a: "admitBounded (\<lambda>_. js ''1'') sampleLimits sampleTree (Ref 0) = Inr (JObject [(js ''a'', JArray [JNull, JBool True])], 17)"
    by (simp add: admitBounded_def admitValue.simps sampleLimits_def sampleTree_def noBytes_def Let_def refuse_def chargeValue_def
        addBytes_def countMembers_def within_def safeIntegerLimit_def encodedStringBytes_def js_lits unitBytes_def shortEscaped_def
        isHigh_def isLow_def booleanBytes_def)
  with n admission_is_exact[OF n, of sampleLimits sampleTree "Ref 0" "JObject [(js ''a'', JArray [JNull, JBool True])]" 17]
  show ?thesis by simp
qed

end
