(* ===== verification/Run_Boundary.thy ===== *)
theory Run_Boundary
  imports Bounded_Json
begin

text \<open>
  The inputs of the run store (\<open>run-store/src/RunStore.ts\<close>, \<open>run-store/src/internal/Boundary.ts\<close>,
  \<open>journal/src/OwnerId.ts\<close>): callers pass JavaScript values, and every operation first copies
  what it needs out of own data properties, refusing anything else as \<open>invalid_run\<close>.  Numbers are
  IEEE 754 bit patterns, so that the test for a safe integer is a computation.  \<open>JSON.parse\<close> is a
  parameter of the admission of state text.
\<close>

section \<open>Errors\<close>

datatype run_error_code = Invalid_run | Not_found_row | Constraint | Decode_failed | Persistence_failed

text \<open>A \<open>RunStoreError\<close>: its code, the method and the field or stage its cause names.\<close>

datatype run_error = RunStoreError run_error_code string string

definition invalidRunError :: "string \<Rightarrow> string \<Rightarrow> run_error" where
  "invalidRunError method field = RunStoreError Invalid_run method field"

text \<open>\<open>Effect.flatMap\<close> on results.\<close>

fun andThen :: "'e + 'a \<Rightarrow> ('a \<Rightarrow> 'e + 'b) \<Rightarrow> 'e + 'b" where
  "andThen (Inl e) k = Inl e"
| "andThen (Inr x) k = k x"

section \<open>Numbers and text\<close>

text \<open>\<open>Number.isSafeInteger\<close>, answering the integer: the significand must have no bit below the unit.\<close>

definition significand :: "js_number \<Rightarrow> js_number" where
  "significand n = n AND 0xfffffffffffff"

definition safeInteger :: "js_number \<Rightarrow> int option" where
  "safeInteger n =
     (let e = unat (exponentBits n); f = unat (significand n) in
      if e = 0 then (if f = 0 then Some 0 else None)
      else if e < 1023 \<or> 1075 < e then None
      else let m = 2 ^ 52 + f; unit = 2 ^ (1075 - e) in
           if m mod unit \<noteq> 0 then None
           else Some (if bit n 63 then - int (m div unit) else int (m div unit)))"

definition validTimestamp :: "js_number \<Rightarrow> int option" where
  "validTimestamp n = (case safeInteger n of Some i \<Rightarrow> if 0 \<le> i then Some i else None | None \<Rightarrow> None)"

definition maximumIdentifierLength :: nat where "maximumIdentifierLength = 1024"

definition isDurableText :: "ustring \<Rightarrow> bool" where
  "isDurableText value =
     (value \<noteq> [] \<and> length value \<le> maximumIdentifierLength \<and> 0 \<notin> set value \<and> isWellFormed value)"

text \<open>The regular expression \<open>loneSurrogate\<close> finds nothing exactly in well-formed text.\<close>

definition wellFormedIdentifier :: "ustring \<Rightarrow> bool" where
  "wellFormedIdentifier value = (length value > 0 \<and> isWellFormed value)"

section \<open>Own data\<close>

fun ownData :: "js_heap \<Rightarrow> js_value \<Rightarrow> ustring \<Rightarrow> js_value" where
  "ownData heap (Ref a) key =
     (case heap a of
        RecordObj plain props \<Rightarrow>
          (case map_of (map (\<lambda>(k, enumerable, p). (k, (enumerable, p))) props) key of
             Some (True, Data v) \<Rightarrow> v
           | _ \<Rightarrow> Undefined)
      | ArrayObj es \<Rightarrow> Undefined)"
| "ownData heap _ key = Undefined"

fun inertRecord :: "js_heap \<Rightarrow> js_value \<Rightarrow> ustring list \<Rightarrow> bool" where
  "inertRecord heap (Ref a) allowed =
     (case heap a of
        RecordObj plain props \<Rightarrow>
          plain \<and> list_all (\<lambda>(k, enumerable, p). enumerable \<longrightarrow> k \<in> set allowed \<and> p \<noteq> Accessor) props
      | ArrayObj es \<Rightarrow> False)"
| "inertRecord heap _ allowed = False"

section \<open>Owners\<close>

record run_owner =
  hostId :: ustring
  pid :: int
  nonce :: ustring

fun validOwner :: "js_value \<Rightarrow> js_value \<Rightarrow> js_value \<Rightarrow> run_owner option" where
  "validOwner (Str h) (Number p) (Str n) =
     (case safeInteger p of
        Some i \<Rightarrow> if isDurableText h \<and> isDurableText n \<and> 0 \<le> i
                  then Some \<lparr>hostId = h, pid = i, nonce = n\<rparr> else None
      | None \<Rightarrow> None)"
| "validOwner _ _ _ = None"

definition snapshotOwner :: "string \<Rightarrow> string \<Rightarrow> js_heap \<Rightarrow> js_value \<Rightarrow> run_error + run_owner" where
  "snapshotOwner method field heap input =
     (if \<not> inertRecord heap input [js ''hostId'', js ''pid'', js ''nonce''] then Inl (invalidRunError method field)
      else case validOwner (ownData heap input (js ''hostId'')) (ownData heap input (js ''pid''))
                  (ownData heap input (js ''nonce'')) of
             Some owner \<Rightarrow> Inr owner
           | None \<Rightarrow> Inl (invalidRunError method field))"

definition sameOwner :: "run_owner \<Rightarrow> run_owner \<Rightarrow> bool" where
  "sameOwner left right = (hostId left = hostId right \<and> pid left = pid right \<and> nonce left = nonce right)"

section \<open>Identifiers, readings and state\<close>

fun snapshotRunId :: "string \<Rightarrow> js_value \<Rightarrow> run_error + ustring" where
  "snapshotRunId method (Str s) =
     (if wellFormedIdentifier s \<and> isDurableText s then Inr s else Inl (invalidRunError method ''runId''))"
| "snapshotRunId method _ = Inl (invalidRunError method ''runId'')"

fun snapshotTimestamp :: "string \<Rightarrow> string \<Rightarrow> js_value \<Rightarrow> run_error + int" where
  "snapshotTimestamp method field (Number n) =
     (case validTimestamp n of Some i \<Rightarrow> Inr i | None \<Rightarrow> Inl (invalidRunError method field))"
| "snapshotTimestamp method field _ = Inl (invalidRunError method field)"

definition heartbeatIntervalMs :: int where "heartbeatIntervalMs = 1000"
definition heartbeatStaleAfterMs :: int where "heartbeatStaleAfterMs = 30000"
definition heartbeatSkewAllowanceMs :: int where "heartbeatSkewAllowanceMs = 10000"

definition heartbeatWriteToleranceMs :: int where
  "heartbeatWriteToleranceMs = heartbeatStaleAfterMs - heartbeatSkewAllowanceMs - heartbeatIntervalMs"

definition snapshotLeaseReading :: "int \<Rightarrow> string \<Rightarrow> string \<Rightarrow> js_value \<Rightarrow> run_error + int" where
  "snapshotLeaseReading clockMs method field input =
     andThen (snapshotTimestamp method field input) (\<lambda>nowMs.
       if nowMs > clockMs + heartbeatSkewAllowanceMs then Inl (invalidRunError method field) else Inr nowMs)"

definition maximumRunJsonDepth :: nat where "maximumRunJsonDepth = 128"
definition maximumRunJsonNodes :: nat where "maximumRunJsonNodes = 100000"

definition runJsonLimits :: limits where
  "runJsonLimits = \<lparr>maxBytes = None, maxDepth = maximumRunJsonDepth, maxMembers = maximumRunJsonNodes,
     maxTotalMembers = Some maximumRunJsonNodes, maxNodes = maximumRunJsonNodes,
     maxStringBytes = None, maxKeyBytes = None\<rparr>"

text \<open>
  What lies outside the sources: the JSON codec of the runtime, \<open>json_valid\<close> of the database and
  whether it enforces foreign keys.
\<close>

record sql_host =
  parseJson :: "ustring \<Rightarrow> (js_heap \<times> js_value) option"
  numberText :: "js_number \<Rightarrow> ustring"
  jsonValid :: "ustring \<Rightarrow> bool"
  foreignKeys :: bool

fun admitJsonText :: "sql_host \<Rightarrow> js_value \<Rightarrow> limits \<Rightarrow> ustring option" where
  "admitJsonText host (Str s) l =
     (if s = [] then None
      else case parseJson host s of
        None \<Rightarrow> None
      | Some (heap, parsed) \<Rightarrow>
          (case admitBounded (numberText host) l heap parsed of
             Inl _ \<Rightarrow> None
           | Inr _ \<Rightarrow> if within (maxBytes l) (length (utf8 s)) then Some s else None))"
| "admitJsonText host _ l = None"

definition stateAdmission :: "sql_host \<Rightarrow> js_value \<Rightarrow> ustring option" where
  "stateAdmission host value = admitJsonText host value runJsonLimits"

definition snapshotState :: "sql_host \<Rightarrow> string \<Rightarrow> js_value \<Rightarrow> run_error + ustring" where
  "snapshotState host method input =
     (case stateAdmission host input of Some s \<Rightarrow> Inr s | None \<Rightarrow> Inl (invalidRunError method ''state''))"

section \<open>Status, snapshots, evidence and guards\<close>

datatype stored_status = Pending | Running | Suspended | Completed | Failed | Cancelled

fun run_status_text :: "stored_status \<Rightarrow> ustring" where
  "run_status_text Pending = js ''pending''"
| "run_status_text Running = js ''running''"
| "run_status_text Suspended = js ''suspended''"
| "run_status_text Completed = js ''completed''"
| "run_status_text Failed = js ''failed''"
| "run_status_text Cancelled = js ''cancelled''"

definition allStatuses :: "stored_status list" where
  "allStatuses = [Pending, Running, Suspended, Completed, Failed, Cancelled]"

fun decodeRunStatus :: "js_value \<Rightarrow> stored_status option" where
  "decodeRunStatus (Str s) = find (\<lambda>status. run_status_text status = s) allStatuses"
| "decodeRunStatus _ = None"

fun isTerminalStatus :: "stored_status \<Rightarrow> bool" where
  "isTerminalStatus status = (status = Completed \<or> status = Failed \<or> status = Cancelled)"

record run_snapshot =
  snapshotStatus :: stored_status
  snapshotOwnerId :: "run_owner option"
  snapshotHeartbeatAtMs :: "int option"

fun nullableTimestamp :: "js_value \<Rightarrow> int option option" where
  "nullableTimestamp Null = Some None"
| "nullableTimestamp (Number n) = map_option Some (validTimestamp n)"
| "nullableTimestamp _ = None"

definition nullableOwner :: "string \<Rightarrow> string \<Rightarrow> js_heap \<Rightarrow> js_value \<Rightarrow> run_error + run_owner option" where
  "nullableOwner method field heap input =
     (if input = Null then Inr None
      else andThen (snapshotOwner method field heap input) (\<lambda>owner. Inr (Some owner)))"

definition snapshotExpected :: "string \<Rightarrow> js_heap \<Rightarrow> js_value \<Rightarrow> run_error + run_snapshot" where
  "snapshotExpected method heap input =
     (if \<not> inertRecord heap input [js ''status'', js ''owner'', js ''heartbeatAtMs'']
      then Inl (invalidRunError method ''expected'')
      else case (decodeRunStatus (ownData heap input (js ''status'')),
                 nullableTimestamp (ownData heap input (js ''heartbeatAtMs''))) of
        (Some status, Some heartbeat) \<Rightarrow>
          andThen (nullableOwner method ''expected.owner'' heap (ownData heap input (js ''owner''))) (\<lambda>owner.
            if (if status = Running then owner = None \<or> heartbeat = None else owner \<noteq> None \<or> heartbeat \<noteq> None)
            then Inl (invalidRunError method ''expected'')
            else Inr \<lparr>snapshotStatus = status, snapshotOwnerId = owner, snapshotHeartbeatAtMs = heartbeat\<rparr>)
      | _ \<Rightarrow> Inl (invalidRunError method ''expected''))"

datatype evidence_kind = Same_host_pid_dead | Cross_host_unreachable_stale | Lease_expired

record liveness_evidence =
  expectedOwner :: run_owner
  checkedAtMs :: int
  evidenceKind :: evidence_kind

definition decodeKind :: "js_value \<Rightarrow> evidence_kind option" where
  "decodeKind value =
     (if value = Str (js ''same-host-pid-dead'') then Some Same_host_pid_dead
      else if value = Str (js ''cross-host-unreachable-stale'') then Some Cross_host_unreachable_stale
      else if value = Str (js ''lease-expired'') then Some Lease_expired
      else None)"

definition snapshotEvidence :: "string \<Rightarrow> js_heap \<Rightarrow> js_value \<Rightarrow> run_error + liveness_evidence" where
  "snapshotEvidence method heap input =
     (if \<not> inertRecord heap input [js ''expectedOwner'', js ''checkedAtMs'', js ''kind'']
      then Inl (invalidRunError method ''evidence'')
      else andThen (snapshotOwner method ''evidence.expectedOwner'' heap (ownData heap input (js ''expectedOwner''))) (\<lambda>owner.
           andThen (snapshotTimestamp method ''evidence.checkedAtMs'' (ownData heap input (js ''checkedAtMs''))) (\<lambda>checked.
           case decodeKind (ownData heap input (js ''kind'')) of
             None \<Rightarrow> Inl (invalidRunError method ''evidence.kind'')
           | Some kind \<Rightarrow> Inr \<lparr>expectedOwner = owner, checkedAtMs = checked, evidenceKind = kind\<rparr>)))"

datatype cancel_guard = Cancel_absent | Cancel_present

definition snapshotGuard :: "js_heap \<Rightarrow> js_value \<Rightarrow> run_error + cancel_guard option" where
  "snapshotGuard heap input =
     (if input = Undefined then Inr None
      else if \<not> inertRecord heap input [js ''cancelRequested''] then Inl (invalidRunError ''transitionOwned'' ''guard'')
      else let requested = ownData heap input (js ''cancelRequested'') in
           if requested = Undefined then Inr None
           else if requested = Str (js ''absent'') then Inr (Some Cancel_absent)
           else if requested = Str (js ''present'') then Inr (Some Cancel_present)
           else Inl (invalidRunError ''transitionOwned'' ''guard.cancelRequested''))"

record create_options =
  optionParentRunId :: "ustring option"
  optionLineageId :: "ustring option"
  optionRoundOrdinal :: "int option"

text \<open>An option that is absent, null or a durable identifier; an option that is absent, null or a timestamp.\<close>

fun optionalIdentifier :: "js_value \<Rightarrow> ustring option option" where
  "optionalIdentifier Undefined = Some None"
| "optionalIdentifier Null = Some None"
| "optionalIdentifier (Str s) = (if wellFormedIdentifier s \<and> isDurableText s then Some (Some s) else None)"
| "optionalIdentifier _ = None"

definition optionalOrdinal :: "js_value \<Rightarrow> int option option" where
  "optionalOrdinal value = (if value = Undefined then Some None else nullableTimestamp value)"

definition snapshotCreateOptions :: "js_heap \<Rightarrow> js_value \<Rightarrow> run_error + create_options" where
  "snapshotCreateOptions heap input =
     (if input = Undefined \<or> input = Null
      then Inr \<lparr>optionParentRunId = None, optionLineageId = None, optionRoundOrdinal = None\<rparr>
      else if \<not> inertRecord heap input [js ''parentRunId'', js ''lineageId'', js ''roundOrdinal'']
      then Inl (invalidRunError ''create'' ''options'')
      else case (optionalIdentifier (ownData heap input (js ''parentRunId'')),
                 optionalIdentifier (ownData heap input (js ''lineageId'')),
                 optionalOrdinal (ownData heap input (js ''roundOrdinal''))) of
        (Some parent, Some lineageId, Some roundOrdinal) \<Rightarrow>
          if (lineageId = None) \<noteq> (roundOrdinal = None) then Inl (invalidRunError ''create'' ''options'')
          else Inr \<lparr>optionParentRunId = parent, optionLineageId = lineageId, optionRoundOrdinal = roundOrdinal\<rparr>
      | _ \<Rightarrow> Inl (invalidRunError ''create'' ''options''))"

end
