(* ===== verification/Run_Store.thy ===== *)
theory Run_Store
  imports Run_Boundary "HOL-Library.List_Lexorder"
begin

text \<open>
  The run store (\<open>run-store/src/RunStore.ts\<close>) over the table \<open>flows_runs\<close>
  (\<open>run-store/src/migrations/0001_initial.ts\<close>, \<open>0002_lineage.ts\<close>, \<open>0003_execution_revisions.ts\<close>).
  The table is a list of rows whose nullable columns are options; an SQL comparison with a null
  column selects nothing, \<open>IS\<close> is equality.  Every operation reads its inputs from the caller's heap,
  takes the clock reading the code takes, and runs one transaction: on an error, and when the
  database refuses the transaction, the table is left as it was.  The revision counters the triggers
  of the third migration maintain are other tables and are left out; metrics and spans are left out.
\<close>

section \<open>Rows\<close>

record run_row =
  run_id :: ustring
  status :: stored_status
  created_at_ms :: int
  started_at_ms :: "int option"
  finished_at_ms :: "int option"
  owner_host_id :: "ustring option"
  owner_pid :: "int option"
  owner_nonce :: "ustring option"
  heartbeat_at_ms :: "int option"
  claim_host_id :: "ustring option"
  claim_pid :: "int option"
  claim_nonce :: "ustring option"
  claimed_at_ms :: "int option"
  parent_run_id :: "ustring option"
  cancel_requested_at_ms :: "int option"
  cancel_acknowledgement_json :: "ustring option"
  waiting_reason :: "ustring option"
  waiting_wake_at_ms :: "int option"
  waiting_token :: "ustring option"
  lineage_id :: "ustring option"
  round_ordinal :: "int option"
  state_json :: ustring

type_synonym run_table = "run_row list"

subsection \<open>The CHECK constraints of the table\<close>

definition stamp :: "int \<Rightarrow> bool" where
  "stamp n = (0 \<le> n \<and> n \<le> int safeIntegerLimit)"

definition orNull :: "('a \<Rightarrow> bool) \<Rightarrow> 'a option \<Rightarrow> bool" where
  "orNull P column = (case column of None \<Rightarrow> True | Some x \<Rightarrow> P x)"

definition notNull :: "('a \<Rightarrow> bool) \<Rightarrow> 'a option \<Rightarrow> bool" where
  "notNull P column = (case column of None \<Rightarrow> False | Some x \<Rightarrow> P x)"

definition ownerCheck :: "run_row \<Rightarrow> bool" where
  "ownerCheck r =
     (status r = Running \<and> notNull (\<lambda>h. h \<noteq> []) (owner_host_id r) \<and> notNull (\<lambda>p. 0 \<le> p) (owner_pid r) \<and>
        notNull (\<lambda>n. n \<noteq> []) (owner_nonce r) \<and> heartbeat_at_ms r \<noteq> None \<or>
      status r \<noteq> Running \<and> owner_host_id r = None \<and> owner_pid r = None \<and> owner_nonce r = None \<and> heartbeat_at_ms r = None)"

definition claimCheck :: "run_row \<Rightarrow> bool" where
  "claimCheck r =
     (claim_host_id r = None \<and> claim_pid r = None \<and> claim_nonce r = None \<and> claimed_at_ms r = None \<or>
      notNull (\<lambda>h. h \<noteq> []) (claim_host_id r) \<and> notNull (\<lambda>p. 0 \<le> p) (claim_pid r) \<and>
        notNull (\<lambda>n. n \<noteq> []) (claim_nonce r) \<and> claimed_at_ms r \<noteq> None)"

definition waitingCheck :: "run_row \<Rightarrow> bool" where
  "waitingCheck r =
     (orNull (\<lambda>t. t \<noteq> []) (waiting_reason r) \<and> orNull stamp (waiting_wake_at_ms r) \<and>
      orNull (\<lambda>t. t \<noteq> []) (waiting_token r) \<and>
      (waiting_reason r = None \<and> waiting_wake_at_ms r = None \<and> waiting_token r = None \<or> waiting_reason r \<noteq> None))"

definition rowCheck :: "sql_host \<Rightarrow> run_row \<Rightarrow> bool" where
  "rowCheck host r =
     (run_id r \<noteq> [] \<and> stamp (created_at_ms r) \<and> orNull stamp (started_at_ms r) \<and> orNull stamp (finished_at_ms r) \<and>
      orNull stamp (heartbeat_at_ms r) \<and> orNull stamp (claimed_at_ms r) \<and> orNull (\<lambda>p. p \<noteq> []) (parent_run_id r) \<and>
      orNull stamp (cancel_requested_at_ms r) \<and> jsonValid host (state_json r) \<and>
      ownerCheck r \<and> claimCheck r \<and> waitingCheck r \<and>
      orNull (\<lambda>l. l \<noteq> []) (lineage_id r) \<and> orNull stamp (round_ordinal r) \<and>
      orNull (jsonValid host) (cancel_acknowledgement_json r))"

section \<open>Statements and transactions\<close>

type_synonym 'a transaction = "run_table \<Rightarrow> run_error + ('a \<times> run_table)"

definition constraintError :: "string \<Rightarrow> run_error" where
  "constraintError method = RunStoreError Constraint method ''constraint''"

text \<open>\<open>UPDATE flows_runs SET ... WHERE run_id = ... AND ... RETURNING run_id\<close>: whether a row was updated.\<close>

definition sqlUpdate :: "sql_host \<Rightarrow> string \<Rightarrow> ustring \<Rightarrow> (run_row \<Rightarrow> bool) \<Rightarrow> (run_row \<Rightarrow> run_row) \<Rightarrow> bool transaction" where
  "sqlUpdate host method runId selected assign table =
     (let hit = (\<lambda>r. run_id r = runId \<and> selected r) in
      if list_ex (\<lambda>r. hit r \<and> \<not> rowCheck host (assign r)) table then Inl (constraintError method)
      else Inr (list_ex hit table, map (\<lambda>r. if hit r then assign r else r) table))"

text \<open>\<open>SELECT ... WHERE run_id = ...\<close>, the first row.\<close>

definition selectRun :: "run_table \<Rightarrow> ustring \<Rightarrow> run_row option" where
  "selectRun table runId = find (\<lambda>r. run_id r = runId) table"

text \<open>\<open>DurableWriter.write\<close>: the transaction commits whole or leaves the table alone.\<close>

record moment =
  clockMs :: int
  refuses :: bool \<comment> \<open>the database carries out no transaction\<close>

definition sqlWrite :: "moment \<Rightarrow> string \<Rightarrow> 'a transaction \<Rightarrow> run_table \<Rightarrow> (run_error + 'a) \<times> run_table" where
  "sqlWrite m method body table =
     (if refuses m then (Inl (RunStoreError Persistence_failed method ''persistence_failed''), table)
      else case body table of
        Inl e \<Rightarrow> (Inl e, table)
      | Inr (a, table') \<Rightarrow> (Inr a, table'))"

definition sqlRead :: "moment \<Rightarrow> string \<Rightarrow> (run_table \<Rightarrow> run_error + 'a) \<Rightarrow> run_table \<Rightarrow> (run_error + 'a) \<times> run_table" where
  "sqlRead m method body table =
     (if refuses m then (Inl (RunStoreError Persistence_failed method ''persistence_failed''), table)
      else (body table, table))"

text \<open>An update, and what to answer when no row was updated.\<close>

definition updateOr :: "sql_host \<Rightarrow> string \<Rightarrow> ustring \<Rightarrow> (run_row \<Rightarrow> bool) \<Rightarrow> (run_row \<Rightarrow> run_row) \<Rightarrow> 'a
    \<Rightarrow> 'a transaction \<Rightarrow> 'a transaction" where
  "updateOr host method runId selected assign won lost table =
     andThen (sqlUpdate host method runId selected assign table) (\<lambda>(updated, table').
       if updated then Inr (won, table') else lost table')"

definition answer :: "'a \<Rightarrow> 'a transaction" where
  "answer a table = Inr (a, table)"

text \<open>\<open>yield*\<close> on an admission inside an operation: a refusal ends it.\<close>

definition orFail :: "run_table \<Rightarrow> run_error + 'a \<Rightarrow> ('a \<Rightarrow> (run_error + 'b) \<times> run_table) \<Rightarrow> (run_error + 'b) \<times> run_table" where
  "orFail table r k = (case r of Inl e \<Rightarrow> (Inl e, table) | Inr x \<Rightarrow> k x)"

section \<open>Reading rows back\<close>

record run_view =
  viewRunId :: ustring
  viewSnapshot :: run_snapshot
  viewCreatedAtMs :: int
  viewStartedAtMs :: "int option"
  viewFinishedAtMs :: "int option"
  viewClaim :: "run_owner option"
  viewClaimedAtMs :: "int option"
  viewParentRunId :: "ustring option"
  viewCancelRequestedAtMs :: "int option"
  viewLineageId :: "ustring option"
  viewRoundOrdinal :: "int option"
  viewStateJson :: ustring

fun ownerFromColumns :: "ustring option \<Rightarrow> int option \<Rightarrow> ustring option \<Rightarrow> run_owner option option" where
  "ownerFromColumns None None None = Some None"
| "ownerFromColumns (Some h) (Some p) (Some n) = Some (Some \<lparr>hostId = h, pid = p, nonce = n\<rparr>)"
| "ownerFromColumns _ _ _ = None"

definition durableIdentifier :: "ustring \<Rightarrow> bool" where
  "durableIdentifier value =
     (value \<noteq> [] \<and> length value \<le> maximumIdentifierLength \<and> wellFormedIdentifier value \<and> isDurableText value)"

definition databaseRunRow :: "run_row \<Rightarrow> bool" where
  "databaseRunRow r =
     (durableIdentifier (run_id r) \<and> stamp (created_at_ms r) \<and> orNull stamp (started_at_ms r) \<and>
      orNull stamp (finished_at_ms r) \<and> orNull durableIdentifier (owner_host_id r) \<and> orNull stamp (owner_pid r) \<and>
      orNull durableIdentifier (owner_nonce r) \<and> orNull stamp (heartbeat_at_ms r) \<and>
      orNull durableIdentifier (claim_host_id r) \<and> orNull stamp (claim_pid r) \<and>
      orNull durableIdentifier (claim_nonce r) \<and> orNull stamp (claimed_at_ms r) \<and>
      orNull durableIdentifier (parent_run_id r) \<and> orNull stamp (cancel_requested_at_ms r) \<and>
      orNull durableIdentifier (lineage_id r) \<and> orNull stamp (round_ordinal r))"

definition decodeRunRow :: "sql_host \<Rightarrow> string \<Rightarrow> run_row \<Rightarrow> run_error + run_view" where
  "decodeRunRow host method r =
     (if \<not> databaseRunRow r then Inl (RunStoreError Decode_failed method ''row-schema'')
      else case (ownerFromColumns (owner_host_id r) (owner_pid r) (owner_nonce r),
                 ownerFromColumns (claim_host_id r) (claim_pid r) (claim_nonce r)) of
        (Some owner, Some claim) \<Rightarrow>
          let invalidOwner = (owner = None \<and> heartbeat_at_ms r \<noteq> None \<or> owner \<noteq> None \<and> heartbeat_at_ms r = None \<or>
                (if status r = Running then owner = None else owner \<noteq> None));
              invalidClaim = (claim = None \<and> claimed_at_ms r \<noteq> None \<or> claim \<noteq> None \<and> claimed_at_ms r = None) in
          if invalidOwner \<or> invalidClaim \<or> stateAdmission host (Str (state_json r)) = None
          then Inl (RunStoreError Decode_failed method ''invariants'')
          else Inr \<lparr>viewRunId = run_id r,
            viewSnapshot = \<lparr>snapshotStatus = status r, snapshotOwnerId = owner, snapshotHeartbeatAtMs = heartbeat_at_ms r\<rparr>,
            viewCreatedAtMs = created_at_ms r, viewStartedAtMs = started_at_ms r, viewFinishedAtMs = finished_at_ms r,
            viewClaim = claim, viewClaimedAtMs = claimed_at_ms r, viewParentRunId = parent_run_id r,
            viewCancelRequestedAtMs = cancel_requested_at_ms r, viewLineageId = lineage_id r,
            viewRoundOrdinal = round_ordinal r, viewStateJson = state_json r\<rparr>
      | _ \<Rightarrow> Inl (RunStoreError Decode_failed method ''invariants''))"

text \<open>
  The other modes of \<open>selectRun\<close>: the rounds of a lineage, ordered by ordinal and then by the UTF-8
  bytes of the identifier, and the newest round.
\<close>

definition lineageRoot :: "run_table \<Rightarrow> ustring \<Rightarrow> ustring option" where
  "lineageRoot table runId =
     map_option (\<lambda>r. case lineage_id r of Some l \<Rightarrow> l | None \<Rightarrow> run_id r) (selectRun table runId)"

definition roundKey :: "run_row \<Rightarrow> int" where
  "roundKey r = (case round_ordinal r of Some n \<Rightarrow> n | None \<Rightarrow> 0)"

definition compareRounds :: "run_row \<Rightarrow> run_row \<Rightarrow> int" where
  "compareRounds r s =
     (if roundKey r = roundKey s then js_compare (map unat (utf8 (run_id r))) (map unat (utf8 (run_id s)))
      else js_compare (roundKey r) (roundKey s))"

definition selectLineage :: "run_table \<Rightarrow> ustring \<Rightarrow> run_table" where
  "selectLineage table runId =
     (case lineageRoot table runId of
        None \<Rightarrow> []
      | Some root \<Rightarrow> js_sort compareRounds (filter (\<lambda>r. lineage_id r = Some root \<or> run_id r = root) table))"

text \<open>\<open>ORDER BY round_ordinal DESC LIMIT 1\<close>; a null ordinal sorts last.\<close>

fun latest :: "run_row list \<Rightarrow> run_row option" where
  "latest [] = None"
| "latest (r # rest) =
     (case latest rest of
        None \<Rightarrow> Some r
      | Some s \<Rightarrow>
          (case (round_ordinal r, round_ordinal s) of
             (None, Some _) \<Rightarrow> Some s
           | (Some m, Some n) \<Rightarrow> if m < n then Some s else Some r
           | (_, None) \<Rightarrow> Some r))"

definition selectLatest :: "run_table \<Rightarrow> ustring \<Rightarrow> run_row option" where
  "selectLatest table runId =
     (case lineageRoot table runId of
        None \<Rightarrow> None
      | Some root \<Rightarrow>
          (case latest (filter (\<lambda>r. lineage_id r = Some root) table) of
             Some r \<Rightarrow> selectRun table (run_id r)
           | None \<Rightarrow> selectRun table runId))"

definition notFoundRow :: "string \<Rightarrow> run_error" where
  "notFoundRow method = RunStoreError Not_found_row method ''runId''"

definition getRun :: "sql_host \<Rightarrow> moment \<Rightarrow> js_value \<Rightarrow> run_table \<Rightarrow> (run_error + run_view) \<times> run_table" where
  "getRun host m runIdInput table =
     orFail table (snapshotRunId ''get'' runIdInput) (\<lambda>runId.
       sqlRead m ''get'' (\<lambda>table. case selectRun table runId of
           None \<Rightarrow> Inl (notFoundRow ''get'')
         | Some r \<Rightarrow> decodeRunRow host ''get'' r) table)"

fun decodeAll :: "sql_host \<Rightarrow> string \<Rightarrow> run_row list \<Rightarrow> run_error + run_view list" where
  "decodeAll host method [] = Inr []"
| "decodeAll host method (r # rest) =
     andThen (decodeRunRow host method r) (\<lambda>v. andThen (decodeAll host method rest) (\<lambda>vs. Inr (v # vs)))"

definition lineage :: "sql_host \<Rightarrow> moment \<Rightarrow> js_value \<Rightarrow> run_table \<Rightarrow> (run_error + run_view list) \<times> run_table" where
  "lineage host m runIdInput table =
     orFail table (snapshotRunId ''lineage'' runIdInput) (\<lambda>runId.
       sqlRead m ''lineage'' (\<lambda>table. decodeAll host ''lineage'' (selectLineage table runId)) table)"

definition latestRound :: "sql_host \<Rightarrow> moment \<Rightarrow> js_value \<Rightarrow> run_table \<Rightarrow> (run_error + run_view) \<times> run_table" where
  "latestRound host m runIdInput table =
     orFail table (snapshotRunId ''latestRound'' runIdInput) (\<lambda>runId.
       sqlRead m ''latestRound'' (\<lambda>table. case selectLatest table runId of
           None \<Rightarrow> Inl (notFoundRow ''latestRound'')
         | Some r \<Rightarrow> decodeRunRow host ''latestRound'' r) table)"

section \<open>Creating runs\<close>

definition pendingRow :: "ustring \<Rightarrow> int \<Rightarrow> create_options \<Rightarrow> ustring \<Rightarrow> run_row" where
  "pendingRow runId createdAtMs options stateJson =
     \<lparr>run_id = runId, status = Pending, created_at_ms = createdAtMs, started_at_ms = None, finished_at_ms = None,
      owner_host_id = None, owner_pid = None, owner_nonce = None, heartbeat_at_ms = None,
      claim_host_id = None, claim_pid = None, claim_nonce = None, claimed_at_ms = None,
      parent_run_id = optionParentRunId options, cancel_requested_at_ms = None, cancel_acknowledgement_json = None,
      waiting_reason = None, waiting_wake_at_ms = None, waiting_token = None,
      lineage_id = optionLineageId options, round_ordinal = optionRoundOrdinal options, state_json = stateJson\<rparr>"

text \<open>The primary key, the foreign key and the unique index on the lineage; null columns never collide.\<close>

definition sqlInsert :: "sql_host \<Rightarrow> string \<Rightarrow> run_row \<Rightarrow> unit transaction" where
  "sqlInsert host method r table =
     (if rowCheck host r \<and> selectRun table (run_id r) = None \<and>
         (foreignKeys host \<longrightarrow> (case parent_run_id r of None \<Rightarrow> True
            | Some p \<Rightarrow> p = run_id r \<or> selectRun table p \<noteq> None)) \<and>
         (lineage_id r = None \<or> round_ordinal r = None \<or>
            list_all (\<lambda>s. lineage_id s \<noteq> lineage_id r \<or> round_ordinal s \<noteq> round_ordinal r) table)
      then Inr ((), table @ [r]) else Inl (constraintError method))"

definition create :: "sql_host \<Rightarrow> moment \<Rightarrow> js_heap \<Rightarrow> js_value \<Rightarrow> js_value \<Rightarrow> js_value \<Rightarrow> run_table
    \<Rightarrow> (run_error + unit) \<times> run_table" where
  "create host m heap runIdInput stateInput optionsInput table =
     orFail table (snapshotRunId ''create'' runIdInput) (\<lambda>runId.
     orFail table (snapshotCreateOptions heap optionsInput) (\<lambda>options.
     orFail table (snapshotState host ''create'' stateInput) (\<lambda>stateJson.
       sqlWrite m ''create'' (sqlInsert host ''create'' (pendingRow runId (clockMs m) options stateJson)) table)))"

end
