(* ===== verification/Run_Ownership.thy ===== *)
theory Run_Ownership
  imports Run_Store
begin

text \<open>
  Cancellation, claims, leases and owned transitions of the run store
  (\<open>run-store/src/RunStore.ts\<close>).  For each operation the \<open>WHERE\<close> clause and the \<open>SET\<close> list of its
  statement are definitions of their own, the transaction composes them with the reads that
  explain a lost comparison, and the operation admits its inputs in the order of the code.
\<close>

section \<open>Shared conditions\<close>

definition ownerColumnsAre :: "run_owner option \<Rightarrow> run_row \<Rightarrow> bool" where
  "ownerColumnsAre owner r =
     (owner_host_id r = map_option hostId owner \<and> owner_pid r = map_option pid owner \<and>
      owner_nonce r = map_option nonce owner)"

text \<open>The \<open>WHERE\<close> terms that compare a row with an exact snapshot.\<close>

definition rowMatchesSnapshot :: "run_snapshot \<Rightarrow> run_row \<Rightarrow> bool" where
  "rowMatchesSnapshot expected r =
     (status r = snapshotStatus expected \<and> ownerColumnsAre (snapshotOwnerId expected) r \<and>
      heartbeat_at_ms r = snapshotHeartbeatAtMs expected)"

definition unclaimed :: "run_row \<Rightarrow> bool" where
  "unclaimed r = (claim_host_id r = None \<and> claim_pid r = None \<and> claim_nonce r = None \<and> claimed_at_ms r = None)"

definition rowMatchesClaim :: "run_owner \<Rightarrow> int \<Rightarrow> run_row \<Rightarrow> bool" where
  "rowMatchesClaim claimant claimedAtMs r =
     (claim_host_id r = Some (hostId claimant) \<and> claim_pid r = Some (pid claimant) \<and>
      claim_nonce r = Some (nonce claimant) \<and> claimed_at_ms r = Some claimedAtMs)"

text \<open>The fence: a running row whose owner columns name the caller.\<close>

definition ownsRow :: "run_owner \<Rightarrow> run_row \<Rightarrow> bool" where
  "ownsRow owner r = (status r = Running \<and> ownerColumnsAre (Some owner) r)"

definition olderThan :: "int \<Rightarrow> int option \<Rightarrow> bool" where
  "olderThan cutoff column = (case column of None \<Rightarrow> False | Some t \<Rightarrow> t < cutoff)"

definition setClaim :: "run_owner \<Rightarrow> int \<Rightarrow> run_row \<Rightarrow> run_row" where
  "setClaim claimant nowMs r =
     r\<lparr>claim_host_id := Some (hostId claimant), claim_pid := Some (pid claimant),
       claim_nonce := Some (nonce claimant), claimed_at_ms := Some nowMs\<rparr>"

definition clearClaim :: "run_row \<Rightarrow> run_row" where
  "clearClaim r = r\<lparr>claim_host_id := None, claim_pid := None, claim_nonce := None, claimed_at_ms := None\<rparr>"

definition setOwner :: "run_owner \<Rightarrow> int \<Rightarrow> run_row \<Rightarrow> run_row" where
  "setOwner owner nowMs r =
     r\<lparr>status := Running,
       started_at_ms := (case started_at_ms r of None \<Rightarrow> Some nowMs | started \<Rightarrow> started),
       finished_at_ms := None,
       owner_host_id := Some (hostId owner), owner_pid := Some (pid owner), owner_nonce := Some (nonce owner),
       heartbeat_at_ms := Some nowMs\<rparr>"

section \<open>Evidence\<close>

fun evidenceMatchesOwner :: "run_owner \<Rightarrow> run_owner \<Rightarrow> int \<Rightarrow> liveness_evidence \<Rightarrow> bool" where
  "evidenceMatchesOwner expected observer checked evidence =
     (if \<not> sameOwner expected (expectedOwner evidence) \<or> checkedAtMs evidence \<noteq> checked then False
      else case evidenceKind evidence of
        Same_host_pid_dead \<Rightarrow> hostId expected = hostId observer
      | Cross_host_unreachable_stale \<Rightarrow> hostId expected \<noteq> hostId observer
      | Lease_expired \<Rightarrow> True)"

definition evidenceMatches :: "run_snapshot \<Rightarrow> run_owner \<Rightarrow> int \<Rightarrow> liveness_evidence \<Rightarrow> bool" where
  "evidenceMatches expected claimant checked evidence =
     (snapshotStatus expected = Running \<and>
      (case snapshotOwnerId expected of None \<Rightarrow> False
       | Some owner \<Rightarrow> evidenceMatchesOwner owner claimant checked evidence))"

section \<open>Cancellation\<close>

datatype cancel_outcome =
  CancelRequested int | AlreadyRequested int | Cancel_not_found | Terminal stored_status

definition cancellable :: "run_row \<Rightarrow> bool" where
  "cancellable r = (cancel_requested_at_ms r = None \<and> status r \<notin> {Completed, Failed, Cancelled})"

definition recordCancel :: "sql_host \<Rightarrow> ustring \<Rightarrow> int \<Rightarrow> bool transaction" where
  "recordCancel host runId nowMs =
     sqlUpdate host ''requestCancel'' runId cancellable (\<lambda>r. r\<lparr>cancel_requested_at_ms := Some nowMs\<rparr>)"

definition requestCancelBody :: "sql_host \<Rightarrow> ustring \<Rightarrow> int \<Rightarrow> cancel_outcome transaction" where
  "requestCancelBody host runId nowMs table =
     andThen (recordCancel host runId nowMs table) (\<lambda>(recorded, table).
       if recorded then Inr (CancelRequested nowMs, table)
       else case selectRun table runId of
         None \<Rightarrow> Inr (Cancel_not_found, table)
       | Some row \<Rightarrow>
           if isTerminalStatus (status row) then Inr (Terminal (status row), table)
           else case cancel_requested_at_ms row of
             Some t \<Rightarrow> Inr (AlreadyRequested t, table)
           | None \<Rightarrow>
               andThen (recordCancel host runId nowMs table) (\<lambda>(retried, table).
                 if retried then Inr (CancelRequested nowMs, table)
                 else case selectRun table runId of
                   None \<Rightarrow> Inr (Cancel_not_found, table)
                 | Some ending \<Rightarrow>
                     if isTerminalStatus (status ending) then Inr (Terminal (status ending), table)
                     else case cancel_requested_at_ms ending of
                       Some t \<Rightarrow> Inr (AlreadyRequested t, table)
                     | None \<Rightarrow> Inl (RunStoreError Persistence_failed ''requestCancel'' ''retry-invariant'')))"

definition requestCancel :: "sql_host \<Rightarrow> moment \<Rightarrow> js_value \<Rightarrow> js_value \<Rightarrow> run_table \<Rightarrow> (run_error + cancel_outcome) \<times> run_table" where
  "requestCancel host m runIdInput nowMsInput table =
     orFail table (snapshotRunId ''requestCancel'' runIdInput) (\<lambda>runId.
     orFail table (snapshotTimestamp ''requestCancel'' ''nowMs'' nowMsInput) (\<lambda>nowMs.
       sqlWrite m ''requestCancel'' (requestCancelBody host runId nowMs) table))"

text \<open>A new request dominates an existing one, which dominates a terminal predecessor.\<close>

fun isRequested :: "cancel_outcome \<Rightarrow> bool" where
  "isRequested (CancelRequested t) = True"
| "isRequested _ = False"

fun isAlready :: "cancel_outcome \<Rightarrow> bool" where
  "isAlready (AlreadyRequested t) = True"
| "isAlready _ = False"

definition mergeOutcome :: "cancel_outcome \<Rightarrow> cancel_outcome \<Rightarrow> cancel_outcome" where
  "mergeOutcome acc result =
     (if isRequested result \<or> \<not> isRequested acc \<and> (isAlready result \<or> \<not> isAlready acc) then result else acc)"

fun cancelRounds :: "sql_host \<Rightarrow> int \<Rightarrow> cancel_outcome \<Rightarrow> run_view list \<Rightarrow> cancel_outcome transaction" where
  "cancelRounds host nowMs acc [] table = Inr (acc, table)"
| "cancelRounds host nowMs acc (round # rest) table =
     andThen (requestCancelBody host (viewRunId round) nowMs table) (\<lambda>(result, table).
       cancelRounds host nowMs (mergeOutcome acc result) rest table)"

text \<open>
  The reads and writes inside are nested in the one transaction; their inputs are a decoded row and
  a reading, both admitted already.
\<close>

definition requestCancelLineage :: "sql_host \<Rightarrow> moment \<Rightarrow> js_value \<Rightarrow> js_value \<Rightarrow> run_table
    \<Rightarrow> (run_error + cancel_outcome) \<times> run_table" where
  "requestCancelLineage host m runIdInput nowMsInput table =
     orFail table (snapshotRunId ''requestCancelLineage'' runIdInput) (\<lambda>runId.
     orFail table (snapshotTimestamp ''requestCancelLineage'' ''nowMs'' nowMsInput) (\<lambda>nowMs.
       sqlWrite m ''requestCancelLineage'' (\<lambda>table.
         andThen (decodeAll host ''lineage'' (selectLineage table runId)) (\<lambda>rounds.
           cancelRounds host nowMs Cancel_not_found rounds table)) table))"

definition acknowledgementText :: "int \<Rightarrow> run_owner \<Rightarrow> ustring" where
  "acknowledgementText observedAtMs owner =
     js ''{'' @ quoteJson (js ''observedAtMs'') @ js '':'' @ decimal (nat observedAtMs) @ js '','' @
     quoteJson (js ''owner'') @ js '':'' @ js ''{'' @
       quoteJson (js ''hostId'') @ js '':'' @ quoteJson (hostId owner) @ js '','' @
       quoteJson (js ''pid'') @ js '':'' @ decimal (nat (pid owner)) @ js '','' @
       quoteJson (js ''nonce'') @ js '':'' @ quoteJson (nonce owner) @ js ''}'' @ js ''}''"

definition acknowledgeCancel :: "sql_host \<Rightarrow> moment \<Rightarrow> js_heap \<Rightarrow> js_value \<Rightarrow> js_value \<Rightarrow> js_value \<Rightarrow> run_table
    \<Rightarrow> (run_error + bool) \<times> run_table" where
  "acknowledgeCancel host m heap runIdInput ownerInput nowMsInput table =
     orFail table (snapshotRunId ''acknowledgeCancel'' runIdInput) (\<lambda>runId.
     orFail table (snapshotOwner ''acknowledgeCancel'' ''owner'' heap ownerInput) (\<lambda>owner.
     orFail table (snapshotTimestamp ''acknowledgeCancel'' ''nowMs'' nowMsInput) (\<lambda>observedAtMs.
       sqlWrite m ''acknowledgeCancel''
         (sqlUpdate host ''acknowledgeCancel'' runId
            (\<lambda>r. ownsRow owner r \<and> cancel_requested_at_ms r \<noteq> None)
            (\<lambda>r. r\<lparr>cancel_acknowledgement_json :=
               (case cancel_acknowledgement_json r of None \<Rightarrow> Some (acknowledgementText observedAtMs owner) | ack \<Rightarrow> ack)\<rparr>))
         table)))"

section \<open>Claims\<close>

datatype claim_outcome =
    Claimed int | Claim_not_found | AlreadyClaimed | HeartbeatFresh | SnapshotChanged
  | EvidenceRequired | LivenessUnconfirmed | ClaimActivated

definition classifyClaimLoss :: "run_row option \<Rightarrow> int \<Rightarrow> claim_outcome" where
  "classifyClaimLoss row nowMs =
     (case row of
        None \<Rightarrow> Claim_not_found
      | Some r \<Rightarrow>
          if claim_host_id r \<noteq> None then AlreadyClaimed
          else if status r = Running \<and> heartbeat_at_ms r \<noteq> None \<and> the (heartbeat_at_ms r) \<ge> nowMs - heartbeatStaleAfterMs
          then HeartbeatFresh
          else SnapshotChanged)"

definition explainLoss :: "ustring \<Rightarrow> int \<Rightarrow> claim_outcome transaction" where
  "explainLoss runId nowMs table = Inr (classifyClaimLoss (selectRun table runId) nowMs, table)"

definition claimable :: "run_snapshot \<Rightarrow> run_row \<Rightarrow> bool" where
  "claimable expected r = (status r \<in> {Pending, Suspended} \<and> rowMatchesSnapshot expected r \<and> unclaimed r)"

definition claim :: "sql_host \<Rightarrow> moment \<Rightarrow> js_heap \<Rightarrow> js_value \<Rightarrow> js_value \<Rightarrow> js_value \<Rightarrow> js_value \<Rightarrow> run_table
    \<Rightarrow> (run_error + claim_outcome) \<times> run_table" where
  "claim host m heap runIdInput expectedInput claimantInput nowMsInput table =
     orFail table (snapshotRunId ''claim'' runIdInput) (\<lambda>runId.
     orFail table (snapshotExpected ''claim'' heap expectedInput) (\<lambda>expected.
     orFail table (snapshotOwner ''claim'' ''claimant'' heap claimantInput) (\<lambda>claimant.
     orFail table (snapshotLeaseReading (clockMs m) ''claim'' ''nowMs'' nowMsInput) (\<lambda>nowMs.
       sqlWrite m ''claim''
         (updateOr host ''claim'' runId (claimable expected) (setClaim claimant nowMs) (Claimed nowMs)
            (explainLoss runId nowMs)) table))))"

definition ownable :: "run_snapshot \<Rightarrow> int \<Rightarrow> run_row \<Rightarrow> bool" where
  "ownable expected nowMs r =
     (status r \<in> {Pending, Suspended, Running} \<and> rowMatchesSnapshot expected r \<and> unclaimed r \<and>
      (status r \<noteq> Running \<or> heartbeat_at_ms r = None \<or> olderThan (nowMs - heartbeatStaleAfterMs) (heartbeat_at_ms r)))"

definition canReplaceExpectedOwner :: "run_snapshot \<Rightarrow> run_owner \<Rightarrow> int \<Rightarrow> liveness_evidence option \<Rightarrow> bool" where
  "canReplaceExpectedOwner expected owner nowMs evidence =
     (snapshotStatus expected \<noteq> Running \<or>
      (case snapshotOwnerId expected of None \<Rightarrow> False | Some o' \<Rightarrow> sameOwner o' owner) \<or>
      (case evidence of None \<Rightarrow> False | Some e \<Rightarrow> evidenceMatches expected owner nowMs e))"

definition claimAndOwn :: "sql_host \<Rightarrow> moment \<Rightarrow> js_heap \<Rightarrow> js_value \<Rightarrow> js_value \<Rightarrow> js_value \<Rightarrow> js_value \<Rightarrow> js_value
    \<Rightarrow> run_table \<Rightarrow> (run_error + claim_outcome) \<times> run_table" where
  "claimAndOwn host m heap runIdInput expectedInput ownerInput nowMsInput evidenceInput table =
     orFail table (snapshotRunId ''claimAndOwn'' runIdInput) (\<lambda>runId.
     orFail table (snapshotExpected ''claimAndOwn'' heap expectedInput) (\<lambda>expected.
     orFail table (snapshotOwner ''claimAndOwn'' ''owner'' heap ownerInput) (\<lambda>owner.
     orFail table (snapshotLeaseReading (clockMs m) ''claimAndOwn'' ''nowMs'' nowMsInput) (\<lambda>nowMs.
     orFail table (if evidenceInput = Undefined then Inr None
                   else andThen (snapshotEvidence ''claimAndOwn'' heap evidenceInput) (\<lambda>e. Inr (Some e))) (\<lambda>evidence.
       if \<not> canReplaceExpectedOwner expected owner nowMs evidence
       then sqlRead m ''claimAndOwn'' (\<lambda>table.
              let row = selectRun table runId; loss = classifyClaimLoss row nowMs in
              Inr (if loss = SnapshotChanged \<and> (case row of None \<Rightarrow> False | Some r \<Rightarrow> rowMatchesSnapshot expected r)
                   then EvidenceRequired else loss)) table
       else sqlWrite m ''claimAndOwn''
              (updateOr host ''claimAndOwn'' runId (ownable expected nowMs) (setOwner owner nowMs) ClaimActivated
                 (explainLoss runId nowMs)) table)))))"

definition stealable :: "run_snapshot \<Rightarrow> int \<Rightarrow> run_row \<Rightarrow> bool" where
  "stealable expected nowMs r =
     (rowMatchesSnapshot expected r \<and> olderThan (nowMs - heartbeatStaleAfterMs) (heartbeat_at_ms r) \<and> unclaimed r)"

definition steal :: "sql_host \<Rightarrow> moment \<Rightarrow> js_heap \<Rightarrow> js_value \<Rightarrow> js_value \<Rightarrow> js_value \<Rightarrow> js_value \<Rightarrow> js_value \<Rightarrow> run_table
    \<Rightarrow> (run_error + claim_outcome) \<times> run_table" where
  "steal host m heap runIdInput expectedInput claimantInput nowMsInput evidenceInput table =
     orFail table (snapshotRunId ''steal'' runIdInput) (\<lambda>runId.
     orFail table (snapshotExpected ''steal'' heap expectedInput) (\<lambda>expected.
     orFail table (snapshotOwner ''steal'' ''claimant'' heap claimantInput) (\<lambda>claimant.
     orFail table (snapshotLeaseReading (clockMs m) ''steal'' ''nowMs'' nowMsInput) (\<lambda>nowMs.
     orFail table (snapshotEvidence ''steal'' heap evidenceInput) (\<lambda>evidence.
       if \<not> evidenceMatches expected claimant nowMs evidence then (Inr LivenessUnconfirmed, table)
       else sqlWrite m ''steal''
              (updateOr host ''steal'' runId (stealable expected nowMs) (setClaim claimant nowMs) (Claimed nowMs)
                 (explainLoss runId nowMs)) table)))))"

section \<open>Activating and releasing claims\<close>

datatype activate_outcome = Activated | Activate_claim_lost | Activate_snapshot_changed

definition activatable :: "run_snapshot \<Rightarrow> run_owner \<Rightarrow> int \<Rightarrow> run_row \<Rightarrow> bool" where
  "activatable expected claimant claimedAtMs r = (rowMatchesSnapshot expected r \<and> rowMatchesClaim claimant claimedAtMs r)"

definition activate :: "sql_host \<Rightarrow> moment \<Rightarrow> js_heap \<Rightarrow> js_value \<Rightarrow> js_value \<Rightarrow> js_value \<Rightarrow> js_value \<Rightarrow> run_table
    \<Rightarrow> (run_error + activate_outcome) \<times> run_table" where
  "activate host m heap runIdInput claimantInput claimedAtMsInput expectedInput table =
     orFail table (snapshotRunId ''activate'' runIdInput) (\<lambda>runId.
     orFail table (snapshotOwner ''activate'' ''claimant'' heap claimantInput) (\<lambda>claimant.
     orFail table (snapshotTimestamp ''activate'' ''claimedAtMs'' claimedAtMsInput) (\<lambda>claimedAtMs.
     orFail table (snapshotExpected ''activate'' heap expectedInput) (\<lambda>expected.
       sqlWrite m ''activate''
         (updateOr host ''activate'' runId (activatable expected claimant claimedAtMs)
            (\<lambda>r. clearClaim (setOwner claimant (clockMs m) r)) Activated
            (\<lambda>table. case selectRun table runId of
                None \<Rightarrow> Inr (Activate_claim_lost, table)
              | Some r \<Rightarrow>
                  if \<not> rowMatchesClaim claimant claimedAtMs r then Inr (Activate_claim_lost, table)
                  else andThen (sqlUpdate host ''activate'' runId (rowMatchesClaim claimant claimedAtMs) clearClaim table)
                         (\<lambda>(_, table). Inr (Activate_snapshot_changed, table)))) table))))"

datatype abandon_outcome = Abandoned | Abandon_claim_lost

definition abandonClaim :: "sql_host \<Rightarrow> moment \<Rightarrow> js_heap \<Rightarrow> js_value \<Rightarrow> js_value \<Rightarrow> js_value \<Rightarrow> run_table
    \<Rightarrow> (run_error + abandon_outcome) \<times> run_table" where
  "abandonClaim host m heap runIdInput claimantInput claimedAtMsInput table =
     orFail table (snapshotRunId ''abandonClaim'' runIdInput) (\<lambda>runId.
     orFail table (snapshotOwner ''abandonClaim'' ''claimant'' heap claimantInput) (\<lambda>claimant.
     orFail table (snapshotTimestamp ''abandonClaim'' ''claimedAtMs'' claimedAtMsInput) (\<lambda>claimedAtMs.
       sqlWrite m ''abandonClaim''
         (updateOr host ''abandonClaim'' runId (rowMatchesClaim claimant claimedAtMs) clearClaim Abandoned
            (answer Abandon_claim_lost)) table)))"

datatype recover_outcome = Recovered | Recover_not_found | ClaimFresh | ClaimChanged | Recover_unconfirmed

definition recoverable :: "run_owner \<Rightarrow> int \<Rightarrow> int \<Rightarrow> run_row \<Rightarrow> bool" where
  "recoverable staleClaimant claimedAtMs nowMs r =
     (rowMatchesClaim staleClaimant claimedAtMs r \<and> olderThan (nowMs - heartbeatStaleAfterMs) (claimed_at_ms r))"

definition recoverClaim :: "sql_host \<Rightarrow> moment \<Rightarrow> js_heap \<Rightarrow> js_value \<Rightarrow> js_value \<Rightarrow> js_value \<Rightarrow> js_value \<Rightarrow> js_value \<Rightarrow> js_value
    \<Rightarrow> run_table \<Rightarrow> (run_error + recover_outcome) \<times> run_table" where
  "recoverClaim host m heap runIdInput staleClaimantInput claimedAtMsInput observerInput nowMsInput evidenceInput table =
     orFail table (snapshotRunId ''recoverClaim'' runIdInput) (\<lambda>runId.
     orFail table (snapshotOwner ''recoverClaim'' ''staleClaimant'' heap staleClaimantInput) (\<lambda>staleClaimant.
     orFail table (snapshotTimestamp ''recoverClaim'' ''claimedAtMs'' claimedAtMsInput) (\<lambda>claimedAtMs.
     orFail table (snapshotOwner ''recoverClaim'' ''observer'' heap observerInput) (\<lambda>observer.
     orFail table (snapshotLeaseReading (clockMs m) ''recoverClaim'' ''nowMs'' nowMsInput) (\<lambda>nowMs.
     orFail table (snapshotEvidence ''recoverClaim'' heap evidenceInput) (\<lambda>evidence.
       if \<not> evidenceMatchesOwner staleClaimant observer nowMs evidence then (Inr Recover_unconfirmed, table)
       else sqlWrite m ''recoverClaim''
              (updateOr host ''recoverClaim'' runId (recoverable staleClaimant claimedAtMs nowMs) clearClaim Recovered
                 (\<lambda>table. case selectRun table runId of
                     None \<Rightarrow> Inr (Recover_not_found, table)
                   | Some r \<Rightarrow>
                       Inr (if rowMatchesClaim staleClaimant claimedAtMs r \<and> claimedAtMs \<ge> nowMs - heartbeatStaleAfterMs
                            then ClaimFresh else ClaimChanged, table))) table))))))"

section \<open>The lease and owned transitions\<close>

datatype heartbeat_outcome = Updated | Heartbeat_fence_lost | Heartbeat_not_found

definition advanceHeartbeat :: "int \<Rightarrow> run_row \<Rightarrow> run_row" where
  "advanceHeartbeat nowMs r = r\<lparr>heartbeat_at_ms := map_option (\<lambda>t. max t nowMs) (heartbeat_at_ms r)\<rparr>"

definition heartbeat :: "sql_host \<Rightarrow> moment \<Rightarrow> js_heap \<Rightarrow> js_value \<Rightarrow> js_value \<Rightarrow> js_value \<Rightarrow> run_table
    \<Rightarrow> (run_error + heartbeat_outcome) \<times> run_table" where
  "heartbeat host m heap runIdInput ownerInput nowMsInput table =
     orFail table (snapshotRunId ''heartbeat'' runIdInput) (\<lambda>runId.
     orFail table (snapshotOwner ''heartbeat'' ''owner'' heap ownerInput) (\<lambda>owner.
     orFail table (snapshotLeaseReading (clockMs m) ''heartbeat'' ''nowMs'' nowMsInput) (\<lambda>nowMs.
       sqlWrite m ''heartbeat''
         (updateOr host ''heartbeat'' runId (ownsRow owner) (advanceHeartbeat nowMs) Updated
            (\<lambda>table. Inr (if selectRun table runId = None then Heartbeat_not_found else Heartbeat_fence_lost, table)))
         table)))"

datatype transition_outcome = Transitioned | Transition_fence_lost | Transition_not_found | GuardFailed

definition guardHolds :: "cancel_guard option \<Rightarrow> run_row \<Rightarrow> bool" where
  "guardHolds guard r =
     ((guard \<noteq> Some Cancel_absent \<or> cancel_requested_at_ms r = None) \<and>
      (guard \<noteq> Some Cancel_present \<or> cancel_requested_at_ms r \<noteq> None))"

definition keepOrReplace :: "ustring option \<Rightarrow> run_row \<Rightarrow> run_row" where
  "keepOrReplace state r = r\<lparr>state_json := (case state of Some s \<Rightarrow> s | None \<Rightarrow> state_json r)\<rparr>"

definition leaveRunning :: "stored_status \<Rightarrow> int \<Rightarrow> run_row \<Rightarrow> run_row" where
  "leaveRunning toStatus nowMs r =
     clearClaim (r\<lparr>status := toStatus,
       finished_at_ms := (if isTerminalStatus toStatus then Some nowMs else None),
       owner_host_id := None, owner_pid := None, owner_nonce := None, heartbeat_at_ms := None\<rparr>)"

definition transitionRow :: "stored_status \<Rightarrow> int \<Rightarrow> ustring option \<Rightarrow> run_row \<Rightarrow> run_row" where
  "transitionRow toStatus nowMs state r =
     (if toStatus = Running then keepOrReplace state (r\<lparr>status := Running, finished_at_ms := None\<rparr>)
      else keepOrReplace state (leaveRunning toStatus nowMs r))"

definition transitionOwned :: "sql_host \<Rightarrow> moment \<Rightarrow> js_heap \<Rightarrow> js_value \<Rightarrow> js_value \<Rightarrow> js_value \<Rightarrow> js_value \<Rightarrow> js_value \<Rightarrow> run_table
    \<Rightarrow> (run_error + transition_outcome) \<times> run_table" where
  "transitionOwned host m heap runIdInput ownerInput toStatusInput stateInput guardInput table =
     orFail table (snapshotRunId ''transitionOwned'' runIdInput) (\<lambda>runId.
     orFail table (snapshotOwner ''transitionOwned'' ''owner'' heap ownerInput) (\<lambda>owner.
     orFail table (case decodeRunStatus toStatusInput of
                     None \<Rightarrow> Inl (invalidRunError ''transitionOwned'' ''toStatus'')
                   | Some s \<Rightarrow> if s = Pending then Inl (invalidRunError ''transitionOwned'' ''toStatus'') else Inr s) (\<lambda>toStatus.
     orFail table (if stateInput = Undefined then Inr None
                   else andThen (snapshotState host ''transitionOwned'' stateInput) (\<lambda>s. Inr (Some s))) (\<lambda>state.
     orFail table (snapshotGuard heap guardInput) (\<lambda>guard.
       sqlWrite m ''transitionOwned''
         (updateOr host ''transitionOwned'' runId (\<lambda>r. ownsRow owner r \<and> guardHolds guard r)
            (transitionRow toStatus (clockMs m) state) Transitioned
            (\<lambda>table. Inr (case selectRun table runId of
                 None \<Rightarrow> Transition_not_found
               | Some r \<Rightarrow> if ownsRow owner r then GuardFailed else Transition_fence_lost, table))) table)))))"

section \<open>Histories\<close>

text \<open>One call of the service with its inputs, and the table after a sequence of calls.\<close>

datatype run_call =
    Create js_value js_value js_value
  | Get js_value
  | Lineage js_value
  | LatestRound js_value
  | RequestCancel js_value js_value
  | RequestCancelLineage js_value js_value
  | AcknowledgeCancel js_value js_value js_value
  | Claim js_value js_value js_value js_value
  | ClaimAndOwn js_value js_value js_value js_value js_value
  | Steal js_value js_value js_value js_value js_value
  | Activate js_value js_value js_value js_value
  | AbandonClaim js_value js_value js_value
  | RecoverClaim js_value js_value js_value js_value js_value js_value
  | Heartbeat js_value js_value js_value
  | TransitionOwned js_value js_value js_value js_value js_value

datatype run_answer =
    AnswerUnit | AnswerView run_view | AnswerViews "run_view list" | AnswerCancel cancel_outcome | AnswerBool bool
  | AnswerClaim claim_outcome | AnswerActivate activate_outcome | AnswerAbandon abandon_outcome
  | AnswerRecover recover_outcome | AnswerHeartbeat heartbeat_outcome | AnswerTransition transition_outcome

definition answering :: "('a \<Rightarrow> run_answer) \<Rightarrow> (run_error + 'a) \<times> run_table \<Rightarrow> (run_error + run_answer) \<times> run_table" where
  "answering f result = (map_sum id f (fst result), snd result)"

fun perform :: "sql_host \<Rightarrow> moment \<Rightarrow> js_heap \<Rightarrow> run_call \<Rightarrow> run_table \<Rightarrow> (run_error + run_answer) \<times> run_table" where
  "perform host m heap (Create i s opts) t = answering (\<lambda>_. AnswerUnit) (create host m heap i s opts t)"
| "perform host m heap (Get i) t = answering AnswerView (getRun host m i t)"
| "perform host m heap (Lineage i) t = answering AnswerViews (lineage host m i t)"
| "perform host m heap (LatestRound i) t = answering AnswerView (latestRound host m i t)"
| "perform host m heap (RequestCancel i n) t = answering AnswerCancel (requestCancel host m i n t)"
| "perform host m heap (RequestCancelLineage i n) t = answering AnswerCancel (requestCancelLineage host m i n t)"
| "perform host m heap (AcknowledgeCancel i w n) t = answering AnswerBool (acknowledgeCancel host m heap i w n t)"
| "perform host m heap (Claim i e c n) t = answering AnswerClaim (claim host m heap i e c n t)"
| "perform host m heap (ClaimAndOwn i e w n v) t = answering AnswerClaim (claimAndOwn host m heap i e w n v t)"
| "perform host m heap (Steal i e c n v) t = answering AnswerClaim (steal host m heap i e c n v t)"
| "perform host m heap (Activate i c n e) t = answering AnswerActivate (activate host m heap i c n e t)"
| "perform host m heap (AbandonClaim i c n) t = answering AnswerAbandon (abandonClaim host m heap i c n t)"
| "perform host m heap (RecoverClaim i c a w n v) t = answering AnswerRecover (recoverClaim host m heap i c a w n v t)"
| "perform host m heap (Heartbeat i w n) t = answering AnswerHeartbeat (heartbeat host m heap i w n t)"
| "perform host m heap (TransitionOwned i w s j g) t = answering AnswerTransition (transitionOwned host m heap i w s j g t)"

type_synonym run_call_event = "moment \<times> js_heap \<times> run_call"

fun performAll :: "sql_host \<Rightarrow> run_call_event list \<Rightarrow> run_table \<Rightarrow> run_table" where
  "performAll host [] t = t"
| "performAll host ((m, heap, call) # rest) t = performAll host rest (snd (perform host m heap call t))"

end
