(* ===== verification/Run_Store_Lemmas.thy ===== *)
theory Run_Store_Lemmas
  imports Run_Ownership
begin

text \<open>
  What admitted inputs satisfy, the moves a call can make on one row, the condition on rows that
  every move keeps, and the reduction of each call to such moves.
\<close>

section \<open>Admitted inputs\<close>

lemma andThen_Inr: "andThen r k = Inr y \<longleftrightarrow> (\<exists>x. r = Inr x \<and> k x = Inr y)"
  by (cases r) auto

lemma significand_bound: "unat (significand n) < 2 ^ 52"
proof -
  have "significand n \<le> 0xfffffffffffff" by (simp add: significand_def word_and_le1)
  then show ?thesis by (simp add: word_le_nat_alt)
qed

lemma safeInteger_range: "safeInteger n = Some i \<Longrightarrow> \<bar>i\<bar> \<le> int safeIntegerLimit"
proof -
  assume a: "safeInteger n = Some i"
  let ?m = "2 ^ 52 + unat (significand n)"
  have m: "?m \<le> safeIntegerLimit" using significand_bound[of n] by (simp add: safeIntegerLimit_def)
  have "?m div k \<le> safeIntegerLimit" for k
    using div_le_dividend m by (rule le_trans)
  then show ?thesis using a by (auto simp: safeInteger_def Let_def safeIntegerLimit_def split: if_splits)
qed

lemma validTimestamp_stamp: "validTimestamp n = Some i \<Longrightarrow> stamp i"
  by (auto simp: validTimestamp_def stamp_def dest: safeInteger_range split: option.splits if_splits)

lemma snapshotTimestamp_stamp: "snapshotTimestamp caller field v = Inr n \<Longrightarrow> stamp n"
  by (cases v) (auto dest: validTimestamp_stamp split: option.splits)

lemma leaseReading_admits:
  "snapshotLeaseReading clock caller field v = Inr n \<Longrightarrow> stamp n \<and> n \<le> clock + heartbeatSkewAllowanceMs"
  by (auto simp: snapshotLeaseReading_def andThen_Inr dest: snapshotTimestamp_stamp split: if_splits)

definition goodOwner :: "run_owner \<Rightarrow> bool" where
  "goodOwner owner = (isDurableText (hostId owner) \<and> isDurableText (nonce owner) \<and> stamp (pid owner))"

lemma validOwner_good: "validOwner h p n = Some owner \<Longrightarrow> goodOwner owner"
  by (cases "(h, p, n)" rule: validOwner.cases)
    (auto simp: goodOwner_def stamp_def dest: safeInteger_range split: option.splits if_splits)

lemma snapshotOwner_good: "snapshotOwner caller field heap v = Inr owner \<Longrightarrow> goodOwner owner"
  by (auto simp: snapshotOwner_def dest: validOwner_good split: if_splits option.splits)

lemma snapshotRunId_durable: "snapshotRunId caller v = Inr i \<Longrightarrow> durableIdentifier i"
  by (cases v) (auto simp: durableIdentifier_def isDurableText_def split: if_splits)

lemma isDurable_identifier: "isDurableText s \<Longrightarrow> durableIdentifier s"
  by (auto simp: durableIdentifier_def isDurableText_def wellFormedIdentifier_def)

lemma durable_nonempty: "durableIdentifier s \<Longrightarrow> s \<noteq> []"
  by (simp add: durableIdentifier_def)

lemma admitJsonText_same: "admitJsonText host (Str s) l = Some x \<Longrightarrow> x = s"
  by (auto split: if_splits option.splits sum.splits)

lemma snapshotState_admits:
  "snapshotState host caller v = Inr s \<Longrightarrow> stateAdmission host (Str s) = Some s"
  by (cases v) (auto simp: snapshotState_def stateAdmission_def split: option.splits if_splits sum.splits)

lemma createOptions_admits:
  "snapshotCreateOptions heap v = Inr c \<Longrightarrow>
     orNull durableIdentifier (optionParentRunId c) \<and> orNull durableIdentifier (optionLineageId c) \<and>
     orNull stamp (optionRoundOrdinal c) \<and> (optionLineageId c = None \<longleftrightarrow> optionRoundOrdinal c = None)"
proof -
  have i: "optionalIdentifier v = Some x \<Longrightarrow> orNull durableIdentifier x" for v x
    by (cases v) (auto simp: orNull_def isDurable_identifier split: if_splits)
  have n: "nullableTimestamp v = Some x \<Longrightarrow> orNull stamp x" for v x
    by (cases v) (auto simp: orNull_def dest: validTimestamp_stamp)
  have o: "optionalOrdinal v = Some x \<Longrightarrow> orNull stamp x" for v x
    by (auto simp: optionalOrdinal_def orNull_def dest: n split: if_splits)
  assume "snapshotCreateOptions heap v = Inr c"
  then show ?thesis
    by (auto simp: snapshotCreateOptions_def orNull_def dest!: i o split: if_splits option.splits)
qed

section \<open>Moves of one row\<close>

text \<open>What one statement does to a row it selects, and who takes hold of the run, or lets it go, by it.\<close>

datatype actor = Nobody | Takes run_owner | Leaves run_owner

inductive rowMove :: "sql_host \<Rightarrow> moment \<Rightarrow> actor \<Rightarrow> run_row \<Rightarrow> run_row \<Rightarrow> bool" for host m where
  Move_cancel: "cancellable r \<Longrightarrow> stamp n \<Longrightarrow> rowMove host m Nobody r (r\<lparr>cancel_requested_at_ms := Some n\<rparr>)"
| Move_acknowledge: "ownsRow w r \<Longrightarrow> cancel_requested_at_ms r \<noteq> None \<Longrightarrow>
    rowMove host m Nobody r (r\<lparr>cancel_acknowledgement_json :=
      (case cancel_acknowledgement_json r of None \<Rightarrow> Some (acknowledgementText n w) | ack \<Rightarrow> ack)\<rparr>)"
| Move_claim: "claimable expected r \<or> stealable expected n r \<and> status r = Running \<Longrightarrow> goodOwner w \<Longrightarrow> stamp n \<Longrightarrow>
    n \<le> clockMs m + heartbeatSkewAllowanceMs \<Longrightarrow> rowMove host m (Takes w) r (setClaim w n r)"
| Move_own: "ownable expected n r \<Longrightarrow> goodOwner w \<Longrightarrow> stamp n \<Longrightarrow> n \<le> clockMs m + heartbeatSkewAllowanceMs \<Longrightarrow>
    rowMove host m (Takes w) r (setOwner w n r)"
| Move_activate: "activatable expected w n r \<Longrightarrow> goodOwner w \<Longrightarrow>
    rowMove host m (Takes w) r (clearClaim (setOwner w (clockMs m) r))"
| Move_release: "rowMatchesClaim w n r \<Longrightarrow> rowMove host m Nobody r (clearClaim r)"
| Move_heartbeat: "ownsRow w r \<Longrightarrow> stamp n \<Longrightarrow> rowMove host m Nobody r (advanceHeartbeat n r)"
| Move_transition: "ownsRow w r \<Longrightarrow> toStatus \<noteq> Pending \<Longrightarrow>
    (\<forall>s. state = Some s \<longrightarrow> stateAdmission host (Str s) = Some s) \<Longrightarrow>
    rowMove host m (Leaves w) r (transitionRow toStatus (clockMs m) state r)"

section \<open>The row invariant\<close>

definition keptRow :: "sql_host \<Rightarrow> run_row \<Rightarrow> bool" where
  "keptRow host r =
     (rowCheck host r \<and> databaseRunRow r \<and> stateAdmission host (Str (state_json r)) = Some (state_json r) \<and>
      (unclaimed r \<or> status r \<in> {Pending, Suspended, Running}) \<and>
      (finished_at_ms r \<noteq> None \<longleftrightarrow> isTerminalStatus (status r)) \<and>
      (started_at_ms r = None \<longleftrightarrow> status r = Pending) \<and>
      (lineage_id r = None \<longleftrightarrow> round_ordinal r = None) \<and>
      (cancel_acknowledgement_json r \<noteq> None \<longrightarrow> cancel_requested_at_ms r \<noteq> None))"

text \<open>The database reads JSON text as the runtime does.\<close>

definition lawfulHost :: "sql_host \<Rightarrow> bool" where
  "lawfulHost host =
     ((\<forall>s x. stateAdmission host (Str s) = Some x \<longrightarrow> jsonValid host s) \<and>
      (\<forall>n w. jsonValid host (acknowledgementText n w)))"

lemma goodOwner_columns:
  "goodOwner w \<Longrightarrow> hostId w \<noteq> [] \<and> nonce w \<noteq> [] \<and> 0 \<le> pid w \<and> durableIdentifier (hostId w) \<and>
     durableIdentifier (nonce w) \<and> stamp (pid w)"
  by (auto simp: goodOwner_def isDurable_identifier isDurableText_def stamp_def)

lemmas row_edits = setClaim_def clearClaim_def setOwner_def advanceHeartbeat_def keepOrReplace_def leaveRunning_def

lemmas row_checks = rowCheck_def databaseRunRow_def ownerCheck_def claimCheck_def waitingCheck_def unclaimed_def

lemmas null_tests = orNull_def notNull_def

lemma kept_setClaim:
  assumes "keptRow host r" "status r \<in> {Pending, Suspended, Running}" "goodOwner w" "stamp n"
  shows "keptRow host (setClaim w n r)"
  using assms goodOwner_columns[OF assms(3)]
  by (simp add: keptRow_def row_checks setClaim_def null_tests)

lemma kept_clearClaim: "keptRow host r \<Longrightarrow> keptRow host (clearClaim r)"
  by (simp add: keptRow_def row_checks clearClaim_def null_tests)

lemma kept_setOwner:
  assumes "keptRow host r" "status r \<in> {Pending, Suspended, Running}" "goodOwner w" "stamp n"
  shows "keptRow host (setOwner w n r)"
  using assms goodOwner_columns[OF assms(3)]
  by (auto simp: keptRow_def row_checks setOwner_def null_tests split: option.splits)

lemma kept_heartbeat:
  assumes "keptRow host r" "ownsRow w r" "stamp n"
  shows "keptRow host (advanceHeartbeat n r)"
  using assms
  by (auto simp: keptRow_def row_checks advanceHeartbeat_def null_tests ownsRow_def stamp_def split: option.splits)

lemma kept_transition:
  assumes "lawfulHost host" "keptRow host r" "ownsRow w r" "toStatus \<noteq> Pending" "stamp n"
    "\<forall>s. state = Some s \<longrightarrow> stateAdmission host (Str s) = Some s"
  shows "keptRow host (transitionRow toStatus n state r)"
  using assms
  by (auto simp: keptRow_def row_checks transitionRow_def keepOrReplace_def leaveRunning_def clearClaim_def null_tests
      ownsRow_def lawfulHost_def split: option.splits)

lemma claimed_is_live: "keptRow host r \<Longrightarrow> rowMatchesClaim w n r \<Longrightarrow> status r \<in> {Pending, Suspended, Running}"
  by (auto simp: keptRow_def rowMatchesClaim_def unclaimed_def)

lemma rowMove_kept:
  assumes "rowMove host m a r r'" "lawfulHost host" "stamp (clockMs m)" "keptRow host r"
  shows "keptRow host r'"
  using assms(1)
proof cases
  case (Move_cancel n)
  then show ?thesis using assms(4) by (simp add: keptRow_def row_checks null_tests)
next
  case (Move_acknowledge w n)
  then show ?thesis using assms(2,4)
    by (auto simp: keptRow_def row_checks null_tests lawfulHost_def split: option.splits)
next
  case (Move_claim expected n w)
  then have "status r \<in> {Pending, Suspended, Running}" by (auto simp: claimable_def)
  with Move_claim assms(4) show ?thesis by (simp add: kept_setClaim)
next
  case (Move_own expected n w)
  then have "status r \<in> {Pending, Suspended, Running}" by (auto simp: ownable_def)
  with Move_own assms(4) show ?thesis by (simp add: kept_setOwner)
next
  case (Move_activate expected w n)
  then have "status r \<in> {Pending, Suspended, Running}"
    using claimed_is_live[OF assms(4)] by (auto simp: activatable_def)
  with Move_activate assms(3,4) show ?thesis by (simp add: kept_setOwner kept_clearClaim)
next
  case (Move_release w n)
  then show ?thesis using assms(4) by (simp add: kept_clearClaim)
next
  case (Move_heartbeat w n)
  then show ?thesis using assms(4) by (simp add: kept_heartbeat)
next
  case (Move_transition w toStatus state)
  then show ?thesis using assms(2-4) by (simp add: kept_transition)
qed

section \<open>Refusals\<close>

definition invalidError :: "run_error \<Rightarrow> bool" where
  "invalidError e = (\<exists>caller field. e = RunStoreError Invalid_run caller field)"

lemma invalidRunError_invalid [simp]: "invalidError (invalidRunError caller field)"
  by (simp add: invalidError_def invalidRunError_def)

lemma snapshotRunId_refuses: "snapshotRunId caller v = Inl e \<Longrightarrow> invalidError e"
  by (cases v) (auto split: if_splits)

lemma snapshotTimestamp_refuses: "snapshotTimestamp caller field v = Inl e \<Longrightarrow> invalidError e"
  by (cases v) (auto split: option.splits)

lemma andThen_Inl: "andThen r k = Inl e \<longleftrightarrow> r = Inl e \<or> (\<exists>x. r = Inr x \<and> k x = Inl e)"
  by (cases r) auto

lemma leaseReading_refuses: "snapshotLeaseReading c caller field v = Inl e \<Longrightarrow> invalidError e"
  by (auto simp: snapshotLeaseReading_def andThen_Inl dest: snapshotTimestamp_refuses split: if_splits)

lemma snapshotOwner_refuses: "snapshotOwner caller field heap v = Inl e \<Longrightarrow> invalidError e"
  by (auto simp: snapshotOwner_def split: if_splits option.splits)

lemma snapshotState_refuses: "snapshotState host caller v = Inl e \<Longrightarrow> invalidError e"
  by (auto simp: snapshotState_def split: option.splits)

lemma snapshotExpected_refuses: "snapshotExpected caller heap v = Inl e \<Longrightarrow> invalidError e"
  by (auto simp: snapshotExpected_def nullableOwner_def andThen_Inl dest: snapshotOwner_refuses
      split: if_splits option.splits)

lemma snapshotEvidence_refuses: "snapshotEvidence caller heap v = Inl e \<Longrightarrow> invalidError e"
  by (auto simp: snapshotEvidence_def andThen_Inl dest: snapshotOwner_refuses snapshotTimestamp_refuses
      split: if_splits option.splits)

lemma snapshotGuard_refuses: "snapshotGuard heap v = Inl e \<Longrightarrow> invalidError e"
  by (auto simp: snapshotGuard_def Let_def split: if_splits)

lemma createOptions_refuses: "snapshotCreateOptions heap v = Inl e \<Longrightarrow> invalidError e"
  by (auto simp: snapshotCreateOptions_def split: if_splits option.splits)

lemmas refusals = snapshotRunId_refuses snapshotTimestamp_refuses leaseReading_refuses snapshotOwner_refuses
  snapshotState_refuses snapshotExpected_refuses snapshotEvidence_refuses snapshotGuard_refuses createOptions_refuses

section \<open>Calls as moves of rows\<close>

definition keptTable :: "sql_host \<Rightarrow> run_table \<Rightarrow> bool" where
  "keptTable host t = (list_all (keptRow host) t \<and> distinct (map run_id t))"

text \<open>Every row of one table is reached from its row of the other by moves of the given actors.\<close>

definition tableMove :: "sql_host \<Rightarrow> moment \<Rightarrow> actor set \<Rightarrow> run_table \<Rightarrow> run_table \<Rightarrow> bool" where
  "tableMove host m A = list_all2 (\<lambda>r r'. \<exists>a \<in> A. rowMove host m a r r')\<^sup>*\<^sup>*"

definition benign :: "moment \<Rightarrow> run_error \<Rightarrow> bool" where
  "benign m e = (invalidError e \<or> (\<exists>caller. e = notFoundRow caller) \<or>
     refuses m \<and> (\<exists>caller. e = RunStoreError Persistence_failed caller ''persistence_failed''))"

definition settlesCall :: "sql_host \<Rightarrow> moment \<Rightarrow> actor set \<Rightarrow> run_table \<Rightarrow> (run_error + 'a) \<times> run_table \<Rightarrow> bool" where
  "settlesCall host m A t result =
     (tableMove host m A t (snd result) \<and> (\<forall>e. fst result = Inl e \<longrightarrow> benign m e \<and> snd result = t))"

definition txSettles :: "sql_host \<Rightarrow> moment \<Rightarrow> actor set \<Rightarrow> run_table \<Rightarrow> run_error + ('a \<times> run_table) \<Rightarrow> bool" where
  "txSettles host m A t result = (\<exists>x t'. result = Inr (x, t') \<and> tableMove host m A t t')"

lemma tableMove_refl [simp]: "tableMove host m A t t"
  by (simp add: tableMove_def list_all2_same)

lemma tableMove_trans: "tableMove host m A t t' \<Longrightarrow> tableMove host m A t' t'' \<Longrightarrow> tableMove host m A t t''"
  unfolding tableMove_def by (rule list_all2_trans) (auto intro: rtranclp_trans)

lemma rowMove_id: "rowMove host m a r r' \<Longrightarrow> run_id r' = run_id r \<and> created_at_ms r' = created_at_ms r \<and>
    parent_run_id r' = parent_run_id r \<and> lineage_id r' = lineage_id r \<and> round_ordinal r' = round_ordinal r"
  by (cases rule: rowMove.cases) (auto simp: row_edits transitionRow_def)

lemma moves_id: "(\<lambda>r r'. \<exists>a \<in> A. rowMove host m a r r')\<^sup>*\<^sup>* r r' \<Longrightarrow> run_id r' = run_id r"
  by (induction rule: rtranclp_induct) (auto dest: rowMove_id)

lemma tableMove_ids: "tableMove host m A t t' \<Longrightarrow> map run_id t' = map run_id t"
  unfolding tableMove_def by (induction rule: list_all2_induct) (auto dest: moves_id)

lemma moves_kept:
  assumes "(\<lambda>r r'. \<exists>a \<in> A. rowMove host m a r r')\<^sup>*\<^sup>* r r'" "lawfulHost host" "stamp (clockMs m)" "keptRow host r"
  shows "keptRow host r' \<and> run_id r' = run_id r"
  using assms(1) by (induction rule: rtranclp_induct) (use assms rowMove_kept rowMove_id in auto)

lemma tableMove_kept:
  assumes "tableMove host m A t t'" "lawfulHost host" "stamp (clockMs m)" "keptTable host t"
  shows "keptTable host t'"
proof -
  have "list_all (keptRow host) t' \<and> map run_id t' = map run_id t"
    using assms(1,4) unfolding tableMove_def keptTable_def
    by (induction rule: list_all2_induct) (use moves_kept[OF _ assms(2,3)] in auto)
  then show ?thesis using assms(4) by (simp add: keptTable_def)
qed

lemma sqlUpdate_moves:
  assumes t: "keptTable host t" and h: "lawfulHost host" "stamp (clockMs m)" and a: "a \<in> A"
    and move: "\<And>r. keptRow host r \<Longrightarrow> run_id r = i \<Longrightarrow> selected r \<Longrightarrow> rowMove host m a r (assign r)"
  shows "sqlUpdate host caller i selected assign t =
      Inr (list_ex (\<lambda>r. run_id r = i \<and> selected r) t, map (\<lambda>r. if run_id r = i \<and> selected r then assign r else r) t)"
    and "tableMove host m A t (map (\<lambda>r. if run_id r = i \<and> selected r then assign r else r) t)"
proof -
  have k: "keptRow host r" if "r \<in> set t" for r using t that by (auto simp: keptTable_def list_all_iff)
  have "rowCheck host (assign r)" if "r \<in> set t" "run_id r = i" "selected r" for r
    using rowMove_kept[OF move[OF k[OF that(1)] that(2,3)] h k[OF that(1)]] by (simp add: keptRow_def)
  then show "sqlUpdate host caller i selected assign t =
      Inr (list_ex (\<lambda>r. run_id r = i \<and> selected r) t, map (\<lambda>r. if run_id r = i \<and> selected r then assign r else r) t)"
    by (auto simp: sqlUpdate_def Let_def list_ex_iff)
  have "\<exists>a \<in> A. rowMove host m a r (assign r)" if "r \<in> set t" "run_id r = i" "selected r" for r
    using move[OF k[OF that(1)] that(2,3)] a by blast
  then show "tableMove host m A t (map (\<lambda>r. if run_id r = i \<and> selected r then assign r else r) t)"
    unfolding tableMove_def list_all2_map2 by (auto simp: list_all2_same intro: r_into_rtranclp)
qed

lemma update_miss: "\<not> list_ex P t \<Longrightarrow> map (\<lambda>r. if P r then f r else r) t = t"
  by (induction t) auto

lemma updateOr_settles:
  assumes "keptTable host t" "lawfulHost host" "stamp (clockMs m)" "a \<in> A"
    and "\<And>r. keptRow host r \<Longrightarrow> run_id r = i \<Longrightarrow> selected r \<Longrightarrow> rowMove host m a r (assign r)"
    and "txSettles host m A t (lost t)"
  shows "txSettles host m A t (updateOr host caller i selected assign won lost t)"
  using sqlUpdate_moves(2)[OF assms(1-5)] assms(6)
  by (auto simp: updateOr_def txSettles_def sqlUpdate_moves(1)[OF assms(1-5)] update_miss)

lemma update_settles:
  assumes "keptTable host t" "lawfulHost host" "stamp (clockMs m)" "a \<in> A"
    and "\<And>r. keptRow host r \<Longrightarrow> run_id r = i \<Longrightarrow> selected r \<Longrightarrow> rowMove host m a r (assign r)"
  shows "txSettles host m A t (sqlUpdate host caller i selected assign t)"
  using sqlUpdate_moves(2)[OF assms] by (auto simp: txSettles_def sqlUpdate_moves(1)[OF assms])

lemma answer_settles [simp]: "txSettles host m A t (Inr (x, t))"
  by (simp add: txSettles_def)

lemma write_settles: "txSettles host m A t (body t) \<Longrightarrow> settlesCall host m A t (sqlWrite m caller body t)"
  by (auto simp: settlesCall_def sqlWrite_def txSettles_def benign_def)

lemma value_settles [simp]: "settlesCall host m A t (Inr x, t)"
  by (simp add: settlesCall_def)

lemma orFail_settles:
  "(\<And>e. r = Inl e \<Longrightarrow> invalidError e) \<Longrightarrow> (\<And>x. r = Inr x \<Longrightarrow> settlesCall host m A t (k x)) \<Longrightarrow>
     settlesCall host m A t (orFail t r k)"
  by (cases r) (auto simp: orFail_def settlesCall_def benign_def)

end
