(* ===== verification/Run_Store_Moves.thy ===== *)
theory Run_Store_Moves
  imports Run_Store_Lemmas
begin

text \<open>
  Each operation of the run store, on a table whose rows are kept: it reports no storage-level
  surprise and moves rows only as \<open>rowMove\<close> allows, and only a run's claimant or new owner takes hold.
\<close>

lemma selectRun_Some: "selectRun t i = Some r \<Longrightarrow> r \<in> set t \<and> run_id r = i"
  by (auto simp: selectRun_def find_Some_iff)

lemma keptTable_row: "keptTable host t \<Longrightarrow> r \<in> set t \<Longrightarrow> keptRow host r"
  by (simp add: keptTable_def list_all_iff)

lemma owner_columns:
  "orNull P a \<Longrightarrow> (a = None \<and> b = None \<and> c = None) \<or> (a \<noteq> None \<and> b \<noteq> None \<and> c \<noteq> None) \<Longrightarrow>
     \<exists>w. ownerFromColumns a b c = Some w \<and> (w = None \<longleftrightarrow> a = None)"
  by (cases a; cases b; cases c) auto

lemma decode_kept: "keptRow host r \<Longrightarrow> \<exists>v. decodeRunRow host caller r = Inr v \<and> viewRunId v = run_id r"
proof -
  assume k: "keptRow host r"
  have "(owner_host_id r = None \<and> owner_pid r = None \<and> owner_nonce r = None) \<or>
      (owner_host_id r \<noteq> None \<and> owner_pid r \<noteq> None \<and> owner_nonce r \<noteq> None)"
    "(claim_host_id r = None \<and> claim_pid r = None \<and> claim_nonce r = None) \<or>
      (claim_host_id r \<noteq> None \<and> claim_pid r \<noteq> None \<and> claim_nonce r \<noteq> None)"
    using k by (auto simp: keptRow_def row_checks null_tests split: option.splits)
  then obtain w c where
    w: "ownerFromColumns (owner_host_id r) (owner_pid r) (owner_nonce r) = Some w" "w = None \<longleftrightarrow> owner_host_id r = None" and
    c: "ownerFromColumns (claim_host_id r) (claim_pid r) (claim_nonce r) = Some c" "c = None \<longleftrightarrow> claim_host_id r = None"
    using owner_columns[of "\<lambda>_. True"] by (metis (no_types, lifting) null_tests(1) option.case_eq_if)
  have s: "stateAdmission host (Str (state_json r)) \<noteq> None" "databaseRunRow r"
    using k by (simp_all add: keptRow_def)
  have o: "(w = None \<longleftrightarrow> heartbeat_at_ms r = None) \<and> (w = None \<longleftrightarrow> status r \<noteq> Running) \<and> (c = None \<longleftrightarrow> claimed_at_ms r = None)"
    using k w(2) c(2) by (auto simp: keptRow_def row_checks null_tests split: option.splits)
  show ?thesis using w(1) c(1) s o by (auto simp: decodeRunRow_def Let_def)
qed

lemma decodeAll_kept:
  "\<forall>r \<in> set rs. keptRow host r \<Longrightarrow> \<exists>vs. decodeAll host caller rs = Inr vs \<and> map viewRunId vs = map run_id rs"
proof (induction rs)
  case (Cons r rs)
  then obtain v vs where "decodeRunRow host caller r = Inr v" "viewRunId v = run_id r"
    "decodeAll host caller rs = Inr vs" "map viewRunId vs = map run_id rs"
    using decode_kept[of host r caller] by auto
  then show ?case by simp
qed simp

lemma lineage_rows: "r \<in> set (selectLineage t i) \<Longrightarrow> r \<in> set t"
  by (auto simp: selectLineage_def split: option.splits)

lemma latest_in: "latest rs = Some r \<Longrightarrow> r \<in> set rs"
  by (induction rs arbitrary: r) (auto split: option.splits if_splits)

lemma selectLatest_in: "selectLatest t i = Some r \<Longrightarrow> r \<in> set t"
  by (auto simp: selectLatest_def split: option.splits dest: selectRun_Some)

lemma read_settles:
  "(\<And>e. body t = Inl e \<Longrightarrow> \<exists>caller. e = notFoundRow caller) \<Longrightarrow> settlesCall host m A t (sqlRead m caller body t)"
  by (auto simp: settlesCall_def sqlRead_def benign_def)

lemma getRun_settles: "keptTable host t \<Longrightarrow> settlesCall host m A t (getRun host m i t)"
  unfolding getRun_def
  by (rule orFail_settles, erule refusals, rule read_settles)
    (use decode_kept[of host _ "''get''"] in \<open>fastforce dest: selectRun_Some keptTable_row split: option.splits\<close>)

lemma latestRound_settles: "keptTable host t \<Longrightarrow> settlesCall host m A t (latestRound host m i t)"
  unfolding latestRound_def
  by (rule orFail_settles, erule refusals, rule read_settles)
    (use decode_kept[of host _ "''latestRound''"] in \<open>fastforce dest: selectLatest_in keptTable_row split: option.splits\<close>)

lemma lineage_settles: "keptTable host t \<Longrightarrow> settlesCall host m A t (lineage host m i t)"
  unfolding lineage_def
proof (rule orFail_settles, erule refusals, rule read_settles)
  fix runId e assume "keptTable host t" "decodeAll host ''lineage'' (selectLineage t runId) = Inl e"
  then show "\<exists>caller. e = notFoundRow caller"
    using decodeAll_kept[of "selectLineage t runId" host "''lineage''"] by (auto dest: lineage_rows keptTable_row)
qed

section \<open>Writing operations\<close>

definition namedOwner :: "js_heap \<Rightarrow> js_value \<Rightarrow> run_owner option" where
  "namedOwner heap v = (case snapshotOwner [] [] heap v of Inr w \<Rightarrow> Some w | Inl _ \<Rightarrow> None)"

lemma snapshotOwner_named: "snapshotOwner caller field heap v = Inr w \<longleftrightarrow> namedOwner heap v = Some w"
  by (auto simp: namedOwner_def snapshotOwner_def split: option.splits)

text \<open>Whom a call makes claimant or owner of a run, and who lets a run go by it.\<close>

fun actors :: "js_heap \<Rightarrow> run_call \<Rightarrow> actor set" where
  "actors heap (Claim i e c n) = Takes ` set_option (namedOwner heap c)"
| "actors heap (ClaimAndOwn i e w n v) = Takes ` set_option (namedOwner heap w)"
| "actors heap (Steal i e c n v) = Takes ` set_option (namedOwner heap c)"
| "actors heap (Activate i c n e) = Takes ` set_option (namedOwner heap c)"
| "actors heap (TransitionOwned i w s j g) = Leaves ` set_option (namedOwner heap w)"
| "actors heap _ = {}"

lemma cancel_settles:
  assumes "keptTable host t" "lawfulHost host" "stamp (clockMs m)" "Nobody \<in> A" "stamp n"
  shows "txSettles host m A t (requestCancelBody host i n t)"
proof -
  let ?assign = "\<lambda>r. r\<lparr>cancel_requested_at_ms := Some n\<rparr>"
  let ?hit = "\<lambda>r. run_id r = i \<and> cancellable r"
  have move: "rowMove host m Nobody r (?assign r)" if "cancellable r" for r
    using that assms(5) by (rule Move_cancel)
  note u = sqlUpdate_moves[OF assms(1-4) move]
  have rec: "recordCancel host i n t = Inr (list_ex ?hit t, map (\<lambda>r. if ?hit r then ?assign r else r) t)"
    unfolding recordCancel_def by (rule u(1))
  show ?thesis
  proof (cases "list_ex ?hit t")
    case True
    then show ?thesis using u(2) rec by (simp add: requestCancelBody_def txSettles_def)
  next
    case False
    have "cancel_requested_at_ms r \<noteq> None \<or> isTerminalStatus (status r)" if "selectRun t i = Some r" for r
      using selectRun_Some[OF that] False by (auto simp: list_ex_iff cancellable_def)
    then show ?thesis
      using False rec by (fastforce simp: requestCancelBody_def update_miss split: option.splits)
  qed
qed

lemma requestCancel_settles:
  assumes "keptTable host t" "lawfulHost host" "stamp (clockMs m)" "Nobody \<in> A"
  shows "settlesCall host m A t (requestCancel host m i n t)"
  unfolding requestCancel_def
  by (rule orFail_settles, erule refusals)+
    (intro write_settles cancel_settles[OF assms] snapshotTimestamp_stamp)

lemma txSettles_chain:
  assumes "txSettles host m A t r" "\<And>x t'. r = Inr (x, t') \<Longrightarrow> tableMove host m A t t' \<Longrightarrow> txSettles host m A t' (k (x, t'))"
  shows "txSettles host m A t (andThen r k)"
  using assms(1) assms(2) tableMove_trans by (fastforce simp: txSettles_def)

lemma cancelRounds_settles:
  assumes "lawfulHost host" "stamp (clockMs m)" "Nobody \<in> A" "stamp n"
  shows "keptTable host t \<Longrightarrow> txSettles host m A t (cancelRounds host n acc rounds t)"
proof (induction rounds arbitrary: acc t)
  case (Cons round rounds)
  have "txSettles host m A t (requestCancelBody host (viewRunId round) n t)"
    by (rule cancel_settles[OF Cons.prems assms])
  then show ?case
    using Cons.IH tableMove_kept[OF _ assms(1,2) Cons.prems] by (auto intro!: txSettles_chain)
qed simp

lemma requestCancelLineage_settles:
  assumes "keptTable host t" "lawfulHost host" "stamp (clockMs m)" "Nobody \<in> A"
  shows "settlesCall host m A t (requestCancelLineage host m i n t)"
  unfolding requestCancelLineage_def
proof (rule orFail_settles, erule refusals, rule orFail_settles, erule refusals, rule write_settles)
  fix runId nowMs
  assume n: "snapshotTimestamp ''requestCancelLineage'' ''nowMs'' n = Inr nowMs"
  obtain vs where "decodeAll host ''lineage'' (selectLineage t runId) = Inr vs"
    using decodeAll_kept[of "selectLineage t runId" host] assms(1) by (auto dest: lineage_rows keptTable_row)
  then show "txSettles host m A t (andThen (decodeAll host ''lineage'' (selectLineage t runId))
      (\<lambda>rounds. cancelRounds host nowMs Cancel_not_found rounds t))"
    using cancelRounds_settles[OF assms(2-4) snapshotTimestamp_stamp[OF n] assms(1)] by simp
qed

lemma acknowledgeCancel_settles:
  assumes "keptTable host t" "lawfulHost host" "stamp (clockMs m)" "Nobody \<in> A"
  shows "settlesCall host m A t (acknowledgeCancel host m heap i w n t)"
  unfolding acknowledgeCancel_def
  by (rule orFail_settles, erule refusals)+
    (intro write_settles update_settles[OF assms]; auto intro: Move_acknowledge)

lemma named_in: "f ` set_option (namedOwner heap c) \<subseteq> A \<Longrightarrow> snapshotOwner caller field heap c = Inr w \<Longrightarrow> f w \<in> A"
  using snapshotOwner_named[of caller field heap c w] by auto

lemma admitted_claim:
  "snapshotOwner caller field heap c = Inr w \<Longrightarrow> snapshotLeaseReading (clockMs m) caller' field' v = Inr n \<Longrightarrow>
     claimable expected r \<or> stealable expected n r \<and> status r = Running \<Longrightarrow> rowMove host m (Takes w) r (setClaim w n r)"
  using leaseReading_admits[of "clockMs m" caller' field' v n] by (auto intro: Move_claim snapshotOwner_good)

lemma admitted_own:
  "snapshotOwner caller field heap c = Inr w \<Longrightarrow> snapshotLeaseReading (clockMs m) caller' field' v = Inr n \<Longrightarrow>
     ownable expected n r \<Longrightarrow> rowMove host m (Takes w) r (setOwner w n r)"
  using leaseReading_admits[of "clockMs m" caller' field' v n] by (auto intro: Move_own snapshotOwner_good)

lemma claim_settles:
  assumes "keptTable host t" "lawfulHost host" "stamp (clockMs m)" "Takes ` set_option (namedOwner heap c) \<subseteq> A"
  shows "settlesCall host m A t (claim host m heap i e c n t)"
  unfolding claim_def
proof ((rule orFail_settles, erule refusals)+, goal_cases)
  case (1 runId expected w nowMs)
  show ?case
    by (auto simp: explainLoss_def intro!: write_settles updateOr_settles[OF assms(1-3) named_in[OF assms(4) 1(3)]] admitted_claim[OF 1(3,4)])
qed

lemma steal_settles:
  assumes "keptTable host t" "lawfulHost host" "stamp (clockMs m)" "Takes ` set_option (namedOwner heap c) \<subseteq> A"
  shows "settlesCall host m A t (steal host m heap i e c n v t)"
  unfolding steal_def
proof ((rule orFail_settles, erule refusals)+, goal_cases)
  case (1 runId expected w nowMs evidence)
  have "status r = Running" if "evidenceMatches expected w nowMs evidence" "stealable expected nowMs r" for r
    using that by (simp add: evidenceMatches_def stealable_def rowMatchesSnapshot_def)
  then show ?case
    by (auto simp: explainLoss_def intro!: write_settles updateOr_settles[OF assms(1-3) named_in[OF assms(4) 1(3)]] admitted_claim[OF 1(3,4)])
qed

lemma claimAndOwn_settles:
  assumes "keptTable host t" "lawfulHost host" "stamp (clockMs m)" "Takes ` set_option (namedOwner heap w) \<subseteq> A"
  shows "settlesCall host m A t (claimAndOwn host m heap i e w n v t)"
  unfolding claimAndOwn_def
proof ((rule orFail_settles, erule refusals)+, goal_cases)
  case (1 runId expected owner nowMs)
  note up = updateOr_settles[OF assms(1-3) named_in[OF assms(4) 1(3)]]
  show ?case
  proof (rule orFail_settles, goal_cases)
    case (1 e)
    then show ?case by (auto simp: andThen_Inl dest: refusals split: if_splits)
  next
    case (2 evidence)
    show ?case
      by (auto simp: explainLoss_def Let_def intro!: write_settles read_settles up admitted_own[OF 1(3,4)])
  qed
qed

lemma activate_settles:
  assumes "keptTable host t" "lawfulHost host" "stamp (clockMs m)" "Takes ` set_option (namedOwner heap c) \<subseteq> A" "Nobody \<in> A"
  shows "settlesCall host m A t (activate host m heap i c n e t)"
  unfolding activate_def
proof ((rule orFail_settles, erule refusals)+, rule write_settles, goal_cases)
  case (1 runId w claimedAtMs expected)
  have "txSettles host m A t (andThen (sqlUpdate host ''activate'' runId (rowMatchesClaim w claimedAtMs) clearClaim t)
      (\<lambda>(_, t). Inr (Activate_snapshot_changed, t)))"
    by (rule txSettles_chain[OF update_settles[OF assms(1-3,5)]]) (auto intro: Move_release)
  then show ?case
    by (intro updateOr_settles[OF assms(1-3) named_in[OF assms(4) 1(2)]])
      (auto intro: Move_activate snapshotOwner_good[OF 1(2)] split: option.splits)
qed

lemma abandonClaim_settles:
  assumes "keptTable host t" "lawfulHost host" "stamp (clockMs m)" "Nobody \<in> A"
  shows "settlesCall host m A t (abandonClaim host m heap i c n t)"
  unfolding abandonClaim_def
  by (rule orFail_settles, erule refusals)+
    (intro write_settles updateOr_settles[OF assms]; auto simp: answer_def intro: Move_release)

lemma recoverClaim_settles:
  assumes "keptTable host t" "lawfulHost host" "stamp (clockMs m)" "Nobody \<in> A"
  shows "settlesCall host m A t (recoverClaim host m heap i c a w n v t)"
  unfolding recoverClaim_def
proof ((rule orFail_settles, erule refusals)+, goal_cases)
  case (1 runId w claimedAtMs observer nowMs evidence)
  have "rowMove host m Nobody r (clearClaim r)" if "recoverable w claimedAtMs nowMs r" for r
    using that by (auto simp: recoverable_def intro: Move_release)
  then show ?case
    by (auto intro!: write_settles updateOr_settles[OF assms] split: option.splits)
qed

lemma heartbeat_settles:
  assumes "keptTable host t" "lawfulHost host" "stamp (clockMs m)" "Nobody \<in> A"
  shows "settlesCall host m A t (heartbeat host m heap i w n t)"
  unfolding heartbeat_def
proof ((rule orFail_settles, erule refusals)+, rule write_settles, rule updateOr_settles[OF assms], goal_cases)
  case (1 runId owner nowMs r)
  then show ?case using leaseReading_admits by (blast intro: Move_heartbeat)
qed simp

lemma transitionOwned_settles:
  assumes "keptTable host t" "lawfulHost host" "stamp (clockMs m)" "Leaves ` set_option (namedOwner heap w) \<subseteq> A"
  shows "settlesCall host m A t (transitionOwned host m heap i w s j g t)"
  unfolding transitionOwned_def
proof (rule orFail_settles, erule refusals, rule orFail_settles, erule refusals, rule orFail_settles)
  fix runId owner toStatus
  assume w: "snapshotOwner ''transitionOwned'' ''owner'' heap w = Inr owner"
  assume s: "(case decodeRunStatus s of None \<Rightarrow> Inl (invalidRunError ''transitionOwned'' ''toStatus'')
      | Some s \<Rightarrow> if s = Pending then Inl (invalidRunError ''transitionOwned'' ''toStatus'') else Inr s) = Inr toStatus"
  show "settlesCall host m A t
     (orFail t (if j = Undefined then Inr None else andThen (snapshotState host ''transitionOwned'' j) (\<lambda>s. Inr (Some s)))
       (\<lambda>state. orFail t (snapshotGuard heap g) (\<lambda>guard. sqlWrite m ''transitionOwned''
         (updateOr host ''transitionOwned'' runId (\<lambda>r. ownsRow owner r \<and> guardHolds guard r)
            (transitionRow toStatus (clockMs m) state) Transitioned
            (\<lambda>table. Inr (case selectRun table runId of None \<Rightarrow> Transition_not_found
               | Some r \<Rightarrow> if ownsRow owner r then GuardFailed else Transition_fence_lost, table))) t)))"
  proof (rule orFail_settles, goal_cases)
    case (1 e)
    then show ?case by (auto simp: andThen_Inl dest: refusals split: if_splits)
  next
    case (2 state)
    have st: "toStatus \<noteq> Pending" using s by (auto split: option.splits if_splits)
    have "\<forall>s. state = Some s \<longrightarrow> stateAdmission host (Str s) = Some s"
      using 2 by (auto simp: andThen_Inr dest: snapshotState_admits split: if_splits)
    then have "rowMove host m (Leaves owner) r (transitionRow toStatus (clockMs m) state r)" if "ownsRow owner r" for r
      by (rule Move_transition[OF that st])
    then show ?case
      by (intro orFail_settles write_settles updateOr_settles[OF assms(1-3) named_in[OF assms(4) w]]) (auto intro: refusals)
  qed
qed (auto split: option.splits if_splits)


section \<open>Creation\<close>

lemma pendingRow_kept:
  assumes "lawfulHost host" "stamp (clockMs m)" "snapshotRunId a v = Inr i" "snapshotCreateOptions heap v' = Inr c"
    "snapshotState host b v'' = Inr s"
  shows "keptRow host (pendingRow i (clockMs m) c s)"
  using assms(1,2) snapshotRunId_durable[OF assms(3)] createOptions_admits[OF assms(4)] snapshotState_admits[OF assms(5)]
  by (auto simp: keptRow_def row_checks pendingRow_def null_tests lawfulHost_def durable_nonempty
      split: option.splits)

text \<open>Creation appends one kept row with a new identifier, or leaves the table alone.\<close>

lemma create_cases:
  assumes "lawfulHost host" "stamp (clockMs m)"
  obtains (refused) e where "create host m heap i s opts t = (Inl e, t)"
      "benign m e \<or> e = constraintError ''create''"
    | (created) r where "create host m heap i s opts t = (Inr (), t @ [r])" "keptRow host r" "status r = Pending"
      "run_id r \<notin> run_id ` set t" "unclaimed r" "cancel_requested_at_ms r = None"
proof -
  let ?r = "\<lambda>runId options stateJson. pendingRow runId (clockMs m) options stateJson"
  have shape: "status (?r i c x) = Pending \<and> unclaimed (?r i c x) \<and> cancel_requested_at_ms (?r i c x) = None" for i c x
    by (simp add: pendingRow_def unclaimed_def)
  have "(\<exists>e. create host m heap i s opts t = (Inl e, t) \<and> (benign m e \<or> e = constraintError ''create'')) \<or>
    (\<exists>r. create host m heap i s opts t = (Inr (), t @ [r]) \<and> keptRow host r \<and> status r = Pending \<and>
       run_id r \<notin> run_id ` set t \<and> unclaimed r \<and> cancel_requested_at_ms r = None)"
  proof (cases "snapshotRunId ''create'' i")
    case (Inl e)
    then show ?thesis by (auto simp: create_def orFail_def benign_def dest: refusals)
  next
    case i: (Inr runId)
    show ?thesis
    proof (cases "snapshotCreateOptions heap opts")
      case (Inl e)
      then show ?thesis using i by (auto simp: create_def orFail_def benign_def dest: refusals)
    next
      case c: (Inr options)
      show ?thesis
      proof (cases "snapshotState host ''create'' s")
        case (Inl e)
        then show ?thesis using i c by (auto simp: create_def orFail_def benign_def dest: refusals)
      next
        case x: (Inr stateJson)
        have new: "r \<notin> run_id ` set t" if "selectRun t r = None" for r
          using that by (auto simp: selectRun_def find_None_iff)
        have id: "run_id (?r runId options stateJson) = runId" by (simp add: pendingRow_def)
        show ?thesis
          using pendingRow_kept[OF assms i c x] shape[of runId options stateJson] new[of runId] i c x
          by (auto simp: create_def orFail_def sqlWrite_def sqlInsert_def id benign_def)
      qed
    qed
  qed
  with that show thesis by blast
qed

section \<open>Every call\<close>

definition isCreate :: "run_call \<Rightarrow> bool" where
  "isCreate call = (case call of Create i s c \<Rightarrow> True | _ \<Rightarrow> False)"

lemma answering_settles: "settlesCall host m A t r \<Longrightarrow> settlesCall host m A t (answering f r)"
  by (cases "fst r") (auto simp: settlesCall_def answering_def)

lemma perform_settles:
  assumes "keptTable host t" "lawfulHost host" "stamp (clockMs m)" "\<not> isCreate call"
  shows "settlesCall host m (insert Nobody (actors heap call)) t (perform host m heap call t)"
  using assms(4)
  by (cases call; simp only: perform.simps; intro answering_settles getRun_settles lineage_settles latestRound_settles
      requestCancel_settles[OF assms(1-3)] requestCancelLineage_settles[OF assms(1-3)]
      acknowledgeCancel_settles[OF assms(1-3)] claim_settles[OF assms(1-3)] claimAndOwn_settles[OF assms(1-3)]
      steal_settles[OF assms(1-3)] activate_settles[OF assms(1-3)] abandonClaim_settles[OF assms(1-3)]
      recoverClaim_settles[OF assms(1-3)] heartbeat_settles[OF assms(1-3)] transitionOwned_settles[OF assms(1-3)]
      assms(1); auto simp: isCreate_def)

text \<open>The effect of any call on the table: moves of the rows there, and at most one new pending row.\<close>

lemma perform_effect:
  assumes "keptTable host t" "lawfulHost host" "stamp (clockMs m)"
  shows "\<exists>t' new. snd (perform host m heap call t) = t' @ new \<and> tableMove host m (insert Nobody (actors heap call)) t t' \<and>
    (\<forall>r \<in> set new. keptRow host r \<and> status r = Pending \<and> run_id r \<notin> run_id ` set t \<and> unclaimed r \<and>
       cancel_requested_at_ms r = None) \<and> length new \<le> 1"
proof (cases "isCreate call")
  case False
  then have "tableMove host m (insert Nobody (actors heap call)) t (snd (perform host m heap call t))"
    using perform_settles[OF assms False] by (simp add: settlesCall_def)
  then show ?thesis by (intro exI[of _ "snd (perform host m heap call t)"] exI[of _ "[]"]) simp
next
  case True
  then obtain i s c where "call = Create i s c" by (auto simp: isCreate_def split: run_call.splits)
  then have c: "snd (perform host m heap call t) = snd (create host m heap i s c t)" by (simp add: answering_def)
  show ?thesis
  proof (cases rule: create_cases[OF assms(2,3), of heap i s c t])
    case (1 e)
    then show ?thesis by (intro exI[of _ t] exI[of _ "[]"]) (simp add: c)
  next
    case (2 r)
    then show ?thesis by (intro exI[of _ t] exI[of _ "[r]"]) (simp add: c)
  qed
qed

lemma perform_kept:
  assumes "keptTable host t" "lawfulHost host" "stamp (clockMs m)"
  shows "keptTable host (snd (perform host m heap call t))"
proof -
  let ?new = "\<lambda>r. keptRow host r \<and> status r = Pending \<and> run_id r \<notin> run_id ` set t \<and> unclaimed r \<and> cancel_requested_at_ms r = None"
  obtain t' new where "snd (perform host m heap call t) = t' @ new \<and> tableMove host m (insert Nobody (actors heap call)) t t' \<and>
      (\<forall>r \<in> set new. ?new r) \<and> length new \<le> 1"
    using perform_effect[OF assms, of heap call] by (elim exE) (rule that)
  then have e: "snd (perform host m heap call t) = t' @ new" "tableMove host m (insert Nobody (actors heap call)) t t'"
    "\<forall>r \<in> set new. ?new r" "length new \<le> 1" by simp_all
  have k: "keptTable host t'" by (rule tableMove_kept[OF e(2) assms(2,3,1)])
  have "map run_id t' = map run_id t" by (rule tableMove_ids[OF e(2)])
  then have "run_id ` set t' = run_id ` set t" by (metis list.set_map)
  then show ?thesis using e k by (cases new) (auto simp: keptTable_def list_all_iff)
qed

end
