(* ===== verification/Run_Store_Properties.thy ===== *)
theory Run_Store_Properties
  imports Run_Store_Moves
begin

text \<open>
  The guarantees of the run store over every history of calls: its table keeps its invariant and no
  call meets a storage-level surprise, settled runs are final, a fresh lease cannot be displaced, a
  displaced owner stays fenced, and a revived owner defeats a steal.
\<close>

section \<open>Carrying a property of a row along a history\<close>

lemma list_all2_left: "list_all2 P xs ys \<Longrightarrow> x \<in> set xs \<Longrightarrow> \<exists>y \<in> set ys. P x y"
  by (induction rule: list_all2_induct) auto

lemma perform_preserves:
  assumes "keptTable host t" "lawfulHost host" "stamp (clockMs m)" "r \<in> set t" "P r"
    and step: "\<And>a r r'. a \<in> insert Nobody (actors heap call) \<Longrightarrow> rowMove host m a r r' \<Longrightarrow> keptRow host r \<Longrightarrow> P r \<Longrightarrow> P r'"
  shows "\<exists>r' \<in> set (snd (perform host m heap call t)). run_id r' = run_id r \<and> P r'"
proof -
  let ?A = "insert Nobody (actors heap call)"
  obtain t' new where e: "snd (perform host m heap call t) = t' @ new" "tableMove host m ?A t t'"
    using perform_effect[OF assms(1-3), of heap call] by (elim exE conjE) (rule that)
  then obtain r' where r': "r' \<in> set t'" "(\<lambda>r r'. \<exists>a \<in> ?A. rowMove host m a r r')\<^sup>*\<^sup>* r r'"
    using list_all2_left[OF e(2)[unfolded tableMove_def] assms(4)] by blast
  have "keptRow host r' \<and> run_id r' = run_id r \<and> P r'"
    using r'(2)
  proof (induction rule: rtranclp_induct)
    case base
    then show ?case using assms(5) keptTable_row[OF assms(1,4)] by simp
  next
    case (step r1 r2)
    then obtain a where a: "a \<in> ?A" "rowMove host m a r1 r2" by blast
    then show ?case
      using step.IH assms(6)[OF a] rowMove_kept[OF a(2) assms(2,3)] rowMove_id[OF a(2)] by simp
  qed
  then show ?thesis using e(1) r'(1) by auto
qed

definition timely :: "run_call_event list \<Rightarrow> bool" where
  "timely events = (\<forall>(m, heap, call) \<in> set events. stamp (clockMs m))"

lemma performAll_kept:
  "lawfulHost host \<Longrightarrow> timely events \<Longrightarrow> keptTable host t \<Longrightarrow> keptTable host (performAll host events t)"
  by (induction host events t rule: performAll.induct) (auto simp: timely_def perform_kept)

lemma performAll_preserves:
  assumes "lawfulHost host" "timely events" "keptTable host t" "r \<in> set t" "P r"
    and step: "\<And>m heap call a r r'. (m, heap, call) \<in> set events \<Longrightarrow> a \<in> insert Nobody (actors heap call) \<Longrightarrow>
      rowMove host m a r r' \<Longrightarrow> keptRow host r \<Longrightarrow> P r \<Longrightarrow> P r'"
  shows "\<exists>r' \<in> set (performAll host events t). run_id r' = run_id r \<and> P r'"
  using assms
proof (induction host events t arbitrary: r rule: performAll.induct)
  case (2 host m heap call rest t)
  have c: "stamp (clockMs m)" "timely rest" using "2.prems"(2) by (auto simp: timely_def)
  have step: "P r'" if "a \<in> insert Nobody (actors heap call)" "rowMove host m a r r'" "keptRow host r" "P r" for a r r'
    by (rule "2.prems"(6)[OF _ that]) simp
  have "\<exists>r' \<in> set (snd (perform host m heap call t)). run_id r' = run_id r \<and> P r'"
    by (rule perform_preserves[where P = P, OF "2.prems"(3,1) c(1) "2.prems"(4,5)]) (rule step)
  then obtain r1 where r1: "r1 \<in> set (snd (perform host m heap call t))" "run_id r1 = run_id r" "P r1" by blast
  have later: "P r'" if "(m', heap', call') \<in> set rest" "a \<in> insert Nobody (actors heap' call')"
    "rowMove host m' a r r'" "keptRow host r" "P r" for m' heap' call' a r r'
    by (rule "2.prems"(6)[OF _ that(2-5)]) (simp add: that(1))
  obtain r2 where "r2 \<in> set (performAll host rest (snd (perform host m heap call t)))" "run_id r2 = run_id r1" "P r2"
    using "2.IH"[OF "2.prems"(1) c(2) perform_kept[OF "2.prems"(3,1) c(1)] r1(1,3)] later by blast
  then show ?case using r1(2) by auto
qed auto

lemma keptTable_Nil [simp]: "keptTable host []"
  by (simp add: keptTable_def)

section \<open>The invariant\<close>


section \<open>Settled runs\<close>

lemma settled_stays:
  assumes "keptRow host r" "isTerminalStatus (status r)"
  shows "\<not> rowMove host m a r r'"
proof
  assume "rowMove host m a r r'"
  then show False
    by cases (use assms claimed_is_live[OF assms(1)] in
      \<open>auto simp: cancellable_def ownsRow_def claimable_def ownable_def activatable_def\<close>)
qed

text \<open>
  (C4) A settled run is final: once a row is completed, failed or cancelled, no later history of
  calls changes any column of it.
\<close>

theorem settled_runs_are_final:
  assumes "lawfulHost host" and "timely before" and "timely after"
    and "r \<in> set (performAll host before [])" and "isTerminalStatus (status r)"
  shows "r \<in> set (performAll host after (performAll host before []))"
proof -
  have k: "keptTable host (performAll host before [])" by (rule performAll_kept[OF assms(1,2)]) simp
  obtain r' where "r' \<in> set (performAll host after (performAll host before []))" "r' = r"
    using performAll_preserves[OF assms(1,3) k assms(4), of "\<lambda>x. x = r"] settled_stays[OF _ assms(5)] by blast
  then show ?thesis by simp
qed

section \<open>Leases\<close>





section \<open>The fence\<close>

text \<open>Neither owner nor claimant of a row.\<close>

definition outside :: "run_owner \<Rightarrow> run_row \<Rightarrow> bool" where
  "outside w r = (\<not> ownerColumnsAre (Some w) r \<and>
     \<not> (claim_host_id r = Some (hostId w) \<and> claim_pid r = Some (pid w) \<and> claim_nonce r = Some (nonce w)))"

lemma outside_kept:
  assumes "rowMove host m a r r'" "outside w r" "a \<noteq> Takes w"
  shows "outside w r'"
  using assms(1)
proof cases
  case (Move_claim expected n v)
  then show ?thesis using assms(2,3) by (auto simp: outside_def setClaim_def ownerColumnsAre_def)
next
  case (Move_own expected n v)
  then show ?thesis using assms(2,3) by (auto simp: outside_def setOwner_def ownerColumnsAre_def)
next
  case (Move_activate expected v n)
  then show ?thesis using assms(2,3) by (auto simp: outside_def setOwner_def clearClaim_def ownerColumnsAre_def)
qed (use assms(2) in \<open>auto simp: outside_def row_edits transitionRow_def ownerColumnsAre_def\<close>)

lemma update_none:
  "(\<And>r. r \<in> set t \<Longrightarrow> run_id r = i \<Longrightarrow> \<not> selected r) \<Longrightarrow> sqlUpdate host caller i selected assign t = Inr (False, t)"
proof -
  assume none: "\<And>r. r \<in> set t \<Longrightarrow> run_id r = i \<Longrightarrow> \<not> selected r"
  then have "\<not> list_ex (\<lambda>r. run_id r = i \<and> selected r) t" by (auto simp: list_ex_iff)
  with none show ?thesis by (auto simp: sqlUpdate_def Let_def list_ex_iff update_miss)
qed

lemma orFail_without:
  "(\<And>x. r = Inr x \<Longrightarrow> snd (k x) = t \<and> fst (k x) \<noteq> Inr y) \<Longrightarrow> snd (orFail t r k) = t \<and> fst (orFail t r k) \<noteq> Inr y"
  by (cases r) (auto simp: orFail_def)

lemma write_without:
  "(\<And>x t'. body t = Inr (x, t') \<Longrightarrow> t' = t \<and> x \<noteq> y) \<Longrightarrow>
     snd (sqlWrite m caller body t) = t \<and> fst (sqlWrite m caller body t) \<noteq> Inr y"
  by (auto simp: sqlWrite_def split: sum.splits)

lemma snapshotRunId_value: "snapshotRunId caller (Str s) = Inr i \<Longrightarrow> i = s"
  by (auto split: if_splits)

lemma fenced:
  assumes none: "\<And>r. r \<in> set t \<Longrightarrow> run_id r = i \<Longrightarrow> \<not> ownsRow w r" and w: "namedOwner heap wv = Some w"
  shows "snd (heartbeat host m heap (Str i) wv nv t) = t \<and> fst (heartbeat host m heap (Str i) wv nv t) \<noteq> Inr Updated"
    and "snd (transitionOwned host m heap (Str i) wv sv jv gv t) = t \<and>
      fst (transitionOwned host m heap (Str i) wv sv jv gv t) \<noteq> Inr Transitioned"
    and "snd (acknowledgeCancel host m heap (Str i) wv nv t) = t \<and>
      fst (acknowledgeCancel host m heap (Str i) wv nv t) \<noteq> Inr True"
proof -
  have o: "v = w" if "snapshotOwner caller field heap wv = Inr v" for caller field v
    using that w by (simp add: snapshotOwner_named)
  note miss = update_none[of t i "ownsRow w", OF none]
  have miss2: "sqlUpdate host caller i (\<lambda>r. ownsRow w r \<and> P r) f t = Inr (False, t)" for caller P f
    by (rule update_none) (use none in blast)
  show "snd (heartbeat host m heap (Str i) wv nv t) = t \<and> fst (heartbeat host m heap (Str i) wv nv t) \<noteq> Inr Updated"
    unfolding heartbeat_def
    by ((rule orFail_without)+, rule write_without)
      (auto simp: updateOr_def miss simp del: snapshotRunId.simps dest!: snapshotRunId_value o split: if_splits)
  show "snd (acknowledgeCancel host m heap (Str i) wv nv t) = t \<and>
      fst (acknowledgeCancel host m heap (Str i) wv nv t) \<noteq> Inr True"
    unfolding acknowledgeCancel_def
    by ((rule orFail_without)+, rule write_without) (auto simp: miss2 simp del: snapshotRunId.simps dest!: snapshotRunId_value o)
  show "snd (transitionOwned host m heap (Str i) wv sv jv gv t) = t \<and>
      fst (transitionOwned host m heap (Str i) wv sv jv gv t) \<noteq> Inr Transitioned"
    unfolding transitionOwned_def
    by ((rule orFail_without)+, rule write_without)
      (auto simp: updateOr_def miss2 simp del: snapshotRunId.simps dest!: snapshotRunId_value o split: option.splits if_splits)
qed

text \<open>
  (C3) A displaced owner stays fenced.  Once a process is neither owner nor claimant of a run, then
  whatever others do, and until it takes hold of the run again itself, none of its heartbeats,
  transitions and acknowledgements succeeds, and none of them changes the table.
\<close>

theorem displaced_owner_stays_fenced:
  assumes "lawfulHost host" and "timely before" and "timely after"
    and "r \<in> set (performAll host before [])" and "outside w r"
    and "\<forall>(m, heap, call) \<in> set after. Takes w \<notin> actors heap call"
    and "namedOwner heap wv = Some w"
    and "t = performAll host after (performAll host before [])"
  shows "snd (heartbeat host m heap (Str (run_id r)) wv nv t) = t \<and>
      fst (heartbeat host m heap (Str (run_id r)) wv nv t) \<noteq> Inr Updated \<and>
    snd (transitionOwned host m heap (Str (run_id r)) wv sv jv gv t) = t \<and>
      fst (transitionOwned host m heap (Str (run_id r)) wv sv jv gv t) \<noteq> Inr Transitioned \<and>
    snd (acknowledgeCancel host m heap (Str (run_id r)) wv nv t) = t \<and>
      fst (acknowledgeCancel host m heap (Str (run_id r)) wv nv t) \<noteq> Inr True"
proof -
  have k: "keptTable host (performAll host before [])" by (rule performAll_kept[OF assms(1,2)]) simp
  have kt: "keptTable host t" unfolding assms(8) by (rule performAll_kept[OF assms(1,3) k])
  have "\<exists>r' \<in> set t. run_id r' = run_id r \<and> outside w r'"
    unfolding assms(8)
    by (rule performAll_preserves[where P = "outside w", OF assms(1,3) k assms(4,5)])
      (use assms(6) outside_kept in fastforce)
  then have "\<not> ownsRow w x" if "x \<in> set t" "run_id x = run_id r" for x
    using that kt by (auto simp: keptTable_def distinct_map inj_on_def outside_def ownsRow_def)
  from fenced[OF this assms(7)] show ?thesis by blast
qed

section \<open>Statements on the selected row\<close>

lemma selectRun_in: "distinct (map run_id t) \<Longrightarrow> r \<in> set t \<Longrightarrow> selectRun t (run_id r) = Some r"
  by (induction t) (auto simp: selectRun_def image_iff)

lemma selectRun_update:
  assumes "\<And>r. run_id (assign r) = run_id r"
  shows "selectRun (map (\<lambda>r. if run_id r = i \<and> selected r then assign r else r) t) i =
    map_option (\<lambda>r. if selected r then assign r else r) (selectRun t i)"
  by (induction t) (auto simp: selectRun_def assms)

lemma sqlUpdate_select:
  assumes "sqlUpdate host caller i selected assign t = Inr (b, t')" "distinct (map run_id t)"
    "\<And>r. run_id (assign r) = run_id r"
  shows "b = (\<exists>r. selectRun t i = Some r \<and> selected r)"
    and "selectRun t' i = map_option (\<lambda>r. if selected r then assign r else r) (selectRun t i)"
    and "distinct (map run_id t')"
proof -
  have t': "t' = map (\<lambda>r. if run_id r = i \<and> selected r then assign r else r) t"
    and b: "b = list_ex (\<lambda>r. run_id r = i \<and> selected r) t"
    using assms(1) by (auto simp: sqlUpdate_def Let_def split: if_splits)
  show "b = (\<exists>r. selectRun t i = Some r \<and> selected r)"
    using selectRun_in[OF assms(2)] selectRun_Some by (fastforce simp: b list_ex_iff)
  show "selectRun t' i = map_option (\<lambda>r. if selected r then assign r else r) (selectRun t i)"
    unfolding t' by (rule selectRun_update) (rule assms(3))
  have "map run_id t' = map run_id t" by (simp add: t' assms(3))
  then show "distinct (map run_id t')" using assms(2) by simp
qed

lemma write_Inr: "sqlWrite m caller body t = (Inr x, t') \<longleftrightarrow> \<not> refuses m \<and> body t = Inr (x, t')"
  by (auto simp: sqlWrite_def split: sum.splits)

lemma orFail_Inr: "orFail t r k = (Inr y, t') \<longleftrightarrow> (\<exists>x. r = Inr x \<and> k x = (Inr y, t'))"
  by (cases r) (auto simp: orFail_def)

lemma updateOr_Inr:
  "updateOr host caller i selected assign won lost t = Inr (x, t') \<longleftrightarrow>
     (\<exists>b t1. sqlUpdate host caller i selected assign t = Inr (b, t1) \<and>
        (if b then x = won \<and> t' = t1 else lost t1 = Inr (x, t')))"
  by (auto simp: updateOr_def andThen_Inr split: if_splits)

lemma explainLoss_not_won: "explainLoss i n t \<noteq> Inr (Claimed k, t')" "explainLoss i n t \<noteq> Inr (ClaimActivated, t')"
  by (auto simp: explainLoss_def classifyClaimLoss_def split: option.splits)

lemma row_edit_ids [simp]:
  "run_id (setClaim w n r) = run_id r" "run_id (clearClaim r) = run_id r" "run_id (setOwner w n r) = run_id r"
  "run_id (advanceHeartbeat n r) = run_id r"
  by (simp_all add: row_edits)

definition namedSnapshot :: "js_heap \<Rightarrow> js_value \<Rightarrow> run_snapshot option" where
  "namedSnapshot heap v = (case snapshotExpected [] heap v of Inr e \<Rightarrow> Some e | Inl _ \<Rightarrow> None)"

lemma nullableOwner_named: "nullableOwner caller field heap v = Inr w \<longleftrightarrow> nullableOwner [] [] heap v = Inr w"
  by (auto simp: nullableOwner_def andThen_Inr snapshotOwner_named)

lemma snapshotExpected_named: "snapshotExpected caller heap v = Inr e \<longleftrightarrow> namedSnapshot heap v = Some e"
proof -
  have "snapshotExpected caller heap v = Inr e \<longleftrightarrow> snapshotExpected [] heap v = Inr e"
    unfolding snapshotExpected_def
    by (auto simp: andThen_Inr nullableOwner_named[of caller] nullableOwner_named[of "[]" "''expected.owner''"]
        split: option.splits if_splits)
  then show ?thesis by (auto simp: namedSnapshot_def split: sum.splits)
qed

lemma timestamp_named: "snapshotTimestamp caller field v = Inr n \<longleftrightarrow> snapshotTimestamp [] [] v = Inr n"
  by (cases v) (auto split: option.splits)

lemma update_hits:
  assumes "keptTable host t" "lawfulHost host" "stamp (clockMs m)" "selectRun t i = Some r" "selected r"
    "\<And>r. selected r \<Longrightarrow> rowMove host m Nobody r (assign r)" "\<And>r. run_id (assign r) = run_id r"
  shows "\<exists>t'. sqlUpdate host caller i selected assign t = Inr (True, t') \<and> selectRun t' i = Some (assign r)"
proof -
  have d: "distinct (map run_id t)" using assms(1) by (simp add: keptTable_def)
  have u: "sqlUpdate host caller i selected assign t = Inr (list_ex (\<lambda>r. run_id r = i \<and> selected r) t,
      map (\<lambda>r. if run_id r = i \<and> selected r then assign r else r) t)"
    by (rule sqlUpdate_moves(1)[OF assms(1-3), of Nobody UNIV]) (use assms(6) in simp_all)
  from sqlUpdate_select(1)[OF u d assms(7)] have "list_ex (\<lambda>r. run_id r = i \<and> selected r) t"
    using assms(4,5) by auto
  moreover have "selectRun (map (\<lambda>r. if run_id r = i \<and> selected r then assign r else r) t) i = Some (assign r)"
    using selectRun_update[OF assms(7), of i selected t] assms(4,5) by simp
  ultimately show ?thesis using u by simp
qed

lemma snapshotRunId_named: "snapshotRunId caller (Str s) = Inr i \<longleftrightarrow> snapshotRunId [] (Str s) = Inr i"
  by auto

section \<open>Stealing\<close>

lemma steal_won:
  assumes "steal host m heap (Str i) ev cv nv vv t = (Inr (Claimed n), t')" "distinct (map run_id t)"
    "namedSnapshot heap ev = Some expected" "namedOwner heap cv = Some c"
  shows "\<exists>r. selectRun t i = Some r \<and> stealable expected n r \<and> selectRun t' i = Some (setClaim c n r) \<and>
    distinct (map run_id t')"
proof -
  from assms(1,3,4) obtain t1 where u: "sqlUpdate host ''steal'' i (stealable expected n) (setClaim c n) t = Inr (True, t')"
    unfolding steal_def
    by (auto simp: orFail_Inr write_Inr updateOr_Inr snapshotOwner_named snapshotExpected_named explainLoss_not_won
        simp del: snapshotRunId.simps dest!: snapshotRunId_value split: if_splits)
  note s = sqlUpdate_select[OF u assms(2)]
  show ?thesis using s by auto
qed

lemma heartbeat_won:
  assumes "heartbeat host m heap (Str i) wv nv t = (Inr Updated, t')" "distinct (map run_id t)"
    "namedOwner heap wv = Some w" "snapshotTimestamp [] [] nv = Inr n"
  shows "(\<exists>r. selectRun t i = Some r \<and> ownsRow w r \<and> selectRun t' i = Some (advanceHeartbeat n r)) \<and>
    distinct (map run_id t') \<and> snapshotRunId [] (Str i) = Inr i"
proof -
  have n: "k = n" if "snapshotLeaseReading clock caller field nv = Inr k" for clock caller field k
    using that assms(4) timestamp_named[of caller field nv]
    by (auto simp: snapshotLeaseReading_def andThen_Inr split: if_splits)
  from assms(1,3) have u: "sqlUpdate host ''heartbeat'' i (ownsRow w) (advanceHeartbeat n) t = Inr (True, t')"
    unfolding heartbeat_def
    by (auto simp: orFail_Inr write_Inr updateOr_Inr snapshotOwner_named
        simp del: snapshotRunId.simps dest!: snapshotRunId_value n split: if_splits)
  have "snapshotRunId [] (Str i) = Inr i"
    using assms(1) unfolding heartbeat_def
    by (auto simp: orFail_Inr snapshotRunId_named[of "''heartbeat''"] simp del: snapshotRunId.simps dest: snapshotRunId_value)
  then show ?thesis using sqlUpdate_select[OF u assms(2)] by auto
qed

text \<open>
  (C10) A revived owner defeats a steal.  When an owner that was stolen from sends a later heartbeat
  before the thief activates its claim with the snapshot it stole, the activation does not take the
  run: it answers that the snapshot changed and releases the claim, and the run stays with its owner
  under the new heartbeat.
\<close>

theorem revived_owner_defeats_steal:
  assumes "lawfulHost host" and "timely before" and "stamp (clockMs m1)" and "stamp (clockMs m2)"
    and "stamp (clockMs m3)" and "\<not> refuses m3"
    and "steal host m1 heap (Str i) ev cv nv vv (performAll host before []) = (Inr (Claimed n), t1)"
    and "namedSnapshot heap ev = Some expected" and "snapshotHeartbeatAtMs expected = Some h"
    and "namedOwner heap cv = Some c"
    and "heartbeat host m2 heap (Str i) wv hv t1 = (Inr Updated, t2)" and "namedOwner heap wv = Some w"
    and "snapshotTimestamp [] [] hv = Inr later" and "h < later"
    and "snapshotTimestamp [] [] nv' = Inr n"
  shows "\<exists>t3 r. activate host m3 heap (Str i) cv nv' ev t2 = (Inr Activate_snapshot_changed, t3) \<and>
    selectRun t3 i = Some r \<and> ownsRow w r \<and> unclaimed r \<and> heartbeat_at_ms r = Some later"
proof -
  have k: "keptTable host (performAll host before [])" by (rule performAll_kept[OF assms(1,2)]) simp
  then have d: "distinct (map run_id (performAll host before []))" by (simp add: keptTable_def)
  obtain r where r: "stealable expected n r" "selectRun t1 i = Some (setClaim c n r)" "distinct (map run_id t1)"
    using steal_won[OF assms(7) d assms(8,10)] by blast
  obtain r2 where r2: "ownsRow w r2" "r2 = setClaim c n r" "selectRun t2 i = Some (advanceHeartbeat later r2)"
    "distinct (map run_id t2)" and i: "snapshotRunId [] (Str i) = Inr i"
    using heartbeat_won[OF assms(11) r(3) assms(12,13)] r(2) by auto
  let ?r = "advanceHeartbeat later r2"
  have hb: "heartbeat_at_ms ?r = Some later"
    using r(1) r2(2) assms(9,14) by (simp add: stealable_def rowMatchesSnapshot_def row_edits)
  have claimed: "rowMatchesClaim c n ?r" by (simp add: r2(2) rowMatchesClaim_def row_edits)
  have lost: "\<not> activatable expected c n ?r"
    using hb assms(9,14) by (simp add: activatable_def rowMatchesSnapshot_def)
  have k1: "keptTable host t1" using perform_kept[OF k assms(1,3), of heap "Steal (Str i) ev cv nv vv"] assms(7)
    by (simp add: answering_def)
  have k2: "keptTable host t2" using perform_kept[OF k1 assms(1,4), of heap "Heartbeat (Str i) wv hv"] assms(11)
    by (simp add: answering_def)
  have miss: "sqlUpdate host ''activate'' i (activatable expected c n) f t2 = Inr (False, t2)" for f
    by (rule update_none) (use lost r2(3) selectRun_in[OF r2(4)] in force)
  obtain t3 where t3: "sqlUpdate host ''activate'' i (rowMatchesClaim c n) clearClaim t2 = Inr (True, t3)"
      "selectRun t3 i = Some (clearClaim ?r)"
    using update_hits[where selected = "rowMatchesClaim c n" and assign = clearClaim,
      OF k2 assms(1,5) r2(3) claimed Move_release[of c n] row_edit_ids(2)] by blast
  have "activate host m3 heap (Str i) cv nv' ev t2 = (Inr Activate_snapshot_changed, t3)"
    unfolding activate_def orFail_Inr write_Inr updateOr_Inr
    using i assms(6,8,10,15) claimed miss t3 r2(3)
    by (auto simp: snapshotRunId_named[of "''activate''"] snapshotOwner_named snapshotExpected_named
        timestamp_named[of "''activate''"] simp del: snapshotRunId.simps)
  moreover have "ownsRow w (clearClaim ?r) \<and> unclaimed (clearClaim ?r) \<and> heartbeat_at_ms (clearClaim ?r) = Some later"
    using r2(1) hb by (simp add: ownsRow_def ownerColumnsAre_def unclaimed_def row_edits)
  ultimately show ?thesis using t3(2) by blast
qed

end
