(* ===== verification/Run_Cancellation.thy ===== *)
theory Run_Cancellation
  imports Run_Store_Properties
begin

text \<open>
  Cancellation requests of the run store: the first request of a run is never overwritten and blocks
  every transition guarded against it, and a request to a lineage reaches every unsettled round in
  one transaction and answers for the whole.
\<close>

section \<open>One run\<close>

definition cancelOutcome :: "int \<Rightarrow> run_row option \<Rightarrow> cancel_outcome" where
  "cancelOutcome nowMs row =
     (case row of
        None \<Rightarrow> Cancel_not_found
      | Some r \<Rightarrow>
          if cancellable r then CancelRequested nowMs
          else if isTerminalStatus (status r) then Terminal (status r)
          else AlreadyRequested (the (cancel_requested_at_ms r)))"

definition markCancelled :: "int \<Rightarrow> run_row \<Rightarrow> run_row" where
  "markCancelled nowMs r = r\<lparr>cancel_requested_at_ms := Some nowMs\<rparr>"

lemma cancelBody_effect:
  assumes "keptTable host t" "lawfulHost host" "stamp n"
  shows "requestCancelBody host i n t = Inr (cancelOutcome n (selectRun t i),
    map (\<lambda>r. if run_id r = i \<and> cancellable r then markCancelled n r else r) t)"
proof -
  let ?hit = "\<lambda>r. run_id r = i \<and> cancellable r" and ?m = "\<lparr>clockMs = 0, refuses = False\<rparr>"
  have d: "distinct (map run_id t)" using assms(1) by (simp add: keptTable_def)
  have c: "stamp (clockMs ?m)" by (simp add: stamp_def)
  have move: "rowMove host ?m Nobody r (markCancelled n r)" if "cancellable r" for r
    unfolding markCancelled_def by (rule Move_cancel[OF that assms(3)])
  have rec: "recordCancel host i n t = Inr (list_ex ?hit t, map (\<lambda>r. if ?hit r then markCancelled n r else r) t)"
    unfolding recordCancel_def markCancelled_def[symmetric]
    by (rule sqlUpdate_moves(1)[OF assms(1,2) c, of Nobody UNIV]) (use move in simp_all)
  show ?thesis
  proof (cases "list_ex ?hit t")
    case True
    then obtain r where "selectRun t i = Some r" "cancellable r"
      using selectRun_in[OF d] by (auto simp: list_ex_iff)
    then show ?thesis using True by (simp add: requestCancelBody_def rec cancelOutcome_def)
  next
    case False
    have miss: "\<not> cancellable r" if "selectRun t i = Some r" for r
      using False selectRun_Some[OF that] by (auto simp: list_ex_iff)
    have "map (\<lambda>r. if ?hit r then markCancelled n r else r) t = t" by (rule update_miss[OF False])
    then show ?thesis
      using False miss by (auto simp: requestCancelBody_def rec cancelOutcome_def cancellable_def split: option.splits)
  qed
qed

text \<open>A row that carries a request: asking again and a guarded transition both find it and write nothing.\<close>

lemma requested_unique:
  "keptTable host t \<Longrightarrow> selectRun t i = Some r \<Longrightarrow> x \<in> set t \<Longrightarrow> run_id x = i \<Longrightarrow> x = r"
  using selectRun_in[of t x] by (simp add: keptTable_def)

lemma requested_again:
  assumes "keptTable host t" "lawfulHost host" "selectRun t i = Some r" "cancel_requested_at_ms r = Some n"
  shows "snd (requestCancel host m (Str i) nv t) = t \<and>
    (\<forall>outcome. fst (requestCancel host m (Str i) nv t) = Inr outcome \<longrightarrow>
       outcome = AlreadyRequested n \<or> (\<exists>s. outcome = Terminal s \<and> isTerminalStatus s))"
proof (cases "snapshotRunId ''requestCancel'' (Str i)"; cases "snapshotTimestamp ''requestCancel'' ''nowMs'' nv")
  fix i' now
  assume i: "snapshotRunId ''requestCancel'' (Str i) = Inr i'"
    and now: "snapshotTimestamp ''requestCancel'' ''nowMs'' nv = Inr now"
  have "\<not> list_ex (\<lambda>x. run_id x = i \<and> cancellable x) t"
    using requested_unique[OF assms(1,3)] assms(4) by (auto simp: list_ex_iff cancellable_def)
  then have body: "requestCancelBody host i now t = Inr (cancelOutcome now (Some r), t)"
    using cancelBody_effect[OF assms(1,2) snapshotTimestamp_stamp[OF now], of i] by (simp add: assms(3) update_miss)
  have "requestCancel host m (Str i) nv t = sqlWrite m ''requestCancel'' (requestCancelBody host i now) t"
    using i now snapshotRunId_value[OF i] by (simp add: requestCancel_def orFail_def del: snapshotRunId.simps)
  then show ?thesis using assms(4) by (simp add: sqlWrite_def body cancelOutcome_def cancellable_def)
qed (simp_all add: requestCancel_def orFail_def del: snapshotRunId.simps)

lemma requested_blocks:
  assumes "keptTable host t" "selectRun t i = Some r" "cancel_requested_at_ms r = Some n"
    "snapshotGuard heap gv = Inr (Some Cancel_absent)"
  shows "snd (transitionOwned host m heap (Str i) wv sv jv gv t) = t \<and>
    fst (transitionOwned host m heap (Str i) wv sv jv gv t) \<noteq> Inr Transitioned"
proof -
  have "\<not> guardHolds (Some Cancel_absent) x" if "x \<in> set t" "run_id x = i" for x
    using requested_unique[OF assms(1,2) that] assms(3) by (simp add: guardHolds_def)
  then have miss: "sqlUpdate host caller i (\<lambda>x. ownsRow w x \<and> guardHolds (Some Cancel_absent) x) f t = Inr (False, t)"
    for caller w f by (intro update_none) blast
  show ?thesis
    unfolding transitionOwned_def
    by ((rule orFail_without)+, rule write_without)
      (auto simp: updateOr_def miss assms(4) simp del: snapshotRunId.simps dest!: snapshotRunId_value
        split: option.splits if_splits)
qed

text \<open>
  (C6) The first cancellation request wins for ever.  Once a row carries a request, every later
  history keeps the time of that request; asking again answers it, or how the run ended, and writes
  nothing; and no transition guarded by the absence of a request succeeds or writes.
\<close>

theorem first_cancellation_wins:
  assumes "lawfulHost host" and "timely before" and "timely after" and "stamp (clockMs m)"
    and "r \<in> set (performAll host before [])" and "cancel_requested_at_ms r = Some n"
    and "t = performAll host after (performAll host before [])"
    and "snapshotGuard heap gv = Inr (Some Cancel_absent)"
  shows "(\<exists>r' \<in> set t. run_id r' = run_id r \<and> cancel_requested_at_ms r' = Some n) \<and>
    snd (requestCancel host m (Str (run_id r)) nv t) = t \<and>
    (\<forall>outcome. fst (requestCancel host m (Str (run_id r)) nv t) = Inr outcome \<longrightarrow>
       outcome = AlreadyRequested n \<or> (\<exists>s. outcome = Terminal s \<and> isTerminalStatus s)) \<and>
    snd (transitionOwned host m heap (Str (run_id r)) wv sv jv gv t) = t \<and>
    fst (transitionOwned host m heap (Str (run_id r)) wv sv jv gv t) \<noteq> Inr Transitioned"
proof -
  have k: "keptTable host (performAll host before [])" by (rule performAll_kept[OF assms(1,2)]) simp
  have kt: "keptTable host t" unfolding assms(7) by (rule performAll_kept[OF assms(1,3) k])
  have step: "cancel_requested_at_ms b = Some n" if "rowMove host m a x b" "cancel_requested_at_ms x = Some n" for m a x b
    using that by (cases rule: rowMove.cases) (auto simp: cancellable_def row_edits transitionRow_def)
  have "\<exists>r' \<in> set t. run_id r' = run_id r \<and> cancel_requested_at_ms r' = Some n"
    unfolding assms(7)
    by (rule performAll_preserves[where P = "\<lambda>x. cancel_requested_at_ms x = Some n", OF assms(1,3) k assms(5,6)])
      (rule step)
  then obtain r' where r': "r' \<in> set t" "run_id r' = run_id r" "cancel_requested_at_ms r' = Some n" by blast
  have sel: "selectRun t (run_id r) = Some r'" using selectRun_in[of t r'] kt r' by (simp add: keptTable_def)
  from r' requested_again[OF kt assms(1) sel r'(3)] requested_blocks[OF kt sel r'(3) assms(8)] show ?thesis by blast
qed

section \<open>A lineage\<close>

lemma mergeOutcome_fold:
  assumes "\<forall>x \<in> set outs. x \<noteq> Cancel_not_found"
  shows "(isRequested (foldl mergeOutcome Cancel_not_found outs) \<longleftrightarrow> (\<exists>x \<in> set outs. isRequested x)) \<and>
    (isAlready (foldl mergeOutcome Cancel_not_found outs) \<longleftrightarrow> (\<exists>x \<in> set outs. isAlready x) \<and> (\<forall>x \<in> set outs. \<not> isRequested x)) \<and>
    (foldl mergeOutcome Cancel_not_found outs = Cancel_not_found \<longleftrightarrow> outs = []) \<and>
    ((\<forall>x \<in> set outs. \<not> isRequested x \<and> \<not> isAlready x) \<longrightarrow> outs \<noteq> [] \<longrightarrow>
       foldl mergeOutcome Cancel_not_found outs = last outs)"
  using assms
proof (induction outs rule: rev_induct)
  case (snoc x outs)
  then show ?case by (cases x) (auto simp: mergeOutcome_def)
qed simp

lemma markCancelled_kept:
  "keptTable host t \<Longrightarrow> lawfulHost host \<Longrightarrow> stamp n \<Longrightarrow>
     keptTable host (map (\<lambda>r. if P r \<and> cancellable r then markCancelled n r else r) t)"
proof -
  assume k: "keptTable host t" "lawfulHost host" "stamp n"
  let ?f = "\<lambda>r. if P r \<and> cancellable r then markCancelled n r else r"
  have "keptRow host (?f r)" if "r \<in> set t" for r
  proof (cases "P r \<and> cancellable r")
    case True
    have "rowMove host \<lparr>clockMs = 0, refuses = False\<rparr> Nobody r (markCancelled n r)"
      using True Move_cancel[OF _ k(3)] by (simp add: markCancelled_def)
    from rowMove_kept[OF this k(2)] keptTable_row[OF k(1) that] True show ?thesis by (simp add: stamp_def)
  qed (use keptTable_row[OF k(1) that] in auto)
  then have "list_all (keptRow host) (map ?f t)" unfolding list_all_iff set_map by blast
  moreover have "map run_id (map ?f t) = map run_id t" by (simp add: markCancelled_def)
  ultimately show ?thesis using k(1) unfolding keptTable_def by argo
qed

lemma selectRun_map:
  "(\<And>r. run_id (f r) = run_id r) \<Longrightarrow> selectRun (map f t) i = map_option f (selectRun t i)"
  by (induction t) (auto simp: selectRun_def)

lemma cancelRounds_effect:
  assumes "lawfulHost host" "stamp n"
  shows "keptTable host t \<Longrightarrow> distinct (map viewRunId rounds) \<Longrightarrow>
    cancelRounds host n acc rounds t =
      Inr (foldl mergeOutcome acc (map (\<lambda>v. cancelOutcome n (selectRun t (viewRunId v))) rounds),
        map (\<lambda>r. if run_id r \<in> viewRunId ` set rounds \<and> cancellable r then markCancelled n r else r) t)"
proof (induction rounds arbitrary: acc t)
  case (Cons v rounds)
  let ?one = "\<lambda>r. if run_id r = viewRunId v \<and> cancellable r then markCancelled n r else r"
  have k: "keptTable host (map ?one t)" by (rule markCancelled_kept[OF Cons.prems(1) assms])
  have others: "selectRun (map ?one t) (viewRunId w) = selectRun t (viewRunId w)" if "w \<in> set rounds" for w
  proof -
    have "viewRunId w \<in> viewRunId ` set rounds" using that by (rule imageI)
    then have "viewRunId w \<noteq> viewRunId v" using Cons.prems(2) by auto
    then show ?thesis
      using selectRun_map[of ?one t "viewRunId w"] selectRun_Some[of t "viewRunId w"]
      by (cases "selectRun t (viewRunId w)") (auto simp: markCancelled_def)
  qed
  have outs: "map (\<lambda>w. cancelOutcome n (selectRun (map ?one t) (viewRunId w))) rounds =
      map (\<lambda>w. cancelOutcome n (selectRun t (viewRunId w))) rounds"
    using others by simp
  have tables: "map (\<lambda>r. if run_id r \<in> viewRunId ` set rounds \<and> cancellable r then markCancelled n r else r) (map ?one t) =
      map (\<lambda>r. if run_id r \<in> viewRunId ` set (v # rounds) \<and> cancellable r then markCancelled n r else r) t"
    using Cons.prems(2) by (auto simp: markCancelled_def cancellable_def)
  show ?case
    using Cons.IH[OF k, unfolded outs tables] Cons.prems(2)
    by (simp add: cancelBody_effect[OF Cons.prems(1) assms])
qed simp

text \<open>The answer and the table of a request to a lineage, from the rows of its rounds.\<close>

lemma lineage_request:
  assumes "lawfulHost host" "keptTable host t" "snapshotTimestamp [] [] nv = Inr now"
    "requestCancelLineage host m (Str i) nv t = (Inr out, t')" "rounds = selectLineage t i"
  shows "out = foldl mergeOutcome Cancel_not_found (map (\<lambda>r. cancelOutcome now (Some r)) rounds) \<and>
    t' = map (\<lambda>r. if run_id r \<in> run_id ` set rounds \<and> cancellable r then markCancelled now r else r) t"
proof -
  have d: "distinct (map run_id t)" using assms(2) by (simp add: keptTable_def)
  have sub: "set rounds \<subseteq> set t" using assms(5) lineage_rows by blast
  obtain vs where vs: "decodeAll host ''lineage'' rounds = Inr vs" "map viewRunId vs = map run_id rounds"
    using decodeAll_kept[of rounds host] sub keptTable_row[OF assms(2)] by blast
  have ids: "viewRunId ` set vs = run_id ` set rounds" using vs(2) by (metis list.set_map)
  have "distinct rounds" using d assms(5) by (auto simp: selectLineage_def distinct_map split: option.splits)
  then have dist: "distinct (map viewRunId vs)" using vs(2) d sub by (auto simp: distinct_map intro: inj_on_subset)
  have r: "cancelRounds host now Cancel_not_found vs t = Inr (out, t')"
    using assms(3,4) vs(1) unfolding requestCancelLineage_def
    by (auto simp: orFail_Inr write_Inr andThen_Inr assms(5)[symmetric] timestamp_named[of "''requestCancelLineage''"]
        simp del: snapshotRunId.simps dest!: snapshotRunId_value)
  have "map (\<lambda>v. cancelOutcome now (selectRun t (viewRunId v))) vs =
      map (\<lambda>i. cancelOutcome now (selectRun t i)) (map viewRunId vs)" by simp
  also have "\<dots> = map (\<lambda>r. cancelOutcome now (selectRun t (run_id r))) rounds" by (simp add: vs(2))
  also have "\<dots> = map (\<lambda>r. cancelOutcome now (Some r)) rounds" using selectRun_in[OF d] sub by auto
  finally show ?thesis
    using r cancelRounds_effect[OF assms(1) snapshotTimestamp_stamp[OF assms(3)] assms(2) dist, of Cancel_not_found]
    by (simp add: ids)
qed

text \<open>
  (C11) A lineage is cancelled whole.  A successful request to any round of a lineage records the
  request on exactly its unsettled rounds that carry none yet, in one transaction, and leaves every
  other row alone; it answers that the run is unknown exactly when there is no such lineage, a new
  request exactly when it recorded one, an existing one exactly when it recorded none although a
  round is unsettled, and a terminal status, that of the last round, only when every round is
  settled.
\<close>

theorem lineage_is_cancelled_whole:
  assumes "lawfulHost host" and "timely before" and "t = performAll host before []"
    and "requestCancelLineage host m (Str i) nv t = (Inr out, t')" and "snapshotTimestamp [] [] nv = Inr now"
    and "rounds = selectLineage t i"
  shows "t' = map (\<lambda>r. if run_id r \<in> run_id ` set rounds \<and> cancellable r then r\<lparr>cancel_requested_at_ms := Some now\<rparr> else r) t \<and>
    (out = Cancel_not_found \<longleftrightarrow> rounds = []) \<and>
    (isRequested out \<longleftrightarrow> (\<exists>r \<in> set rounds. cancellable r)) \<and>
    (isAlready out \<longleftrightarrow> (\<forall>r \<in> set rounds. \<not> cancellable r) \<and> (\<exists>r \<in> set rounds. \<not> isTerminalStatus (status r))) \<and>
    (\<forall>s. out = Terminal s \<longrightarrow> (\<forall>r \<in> set rounds. isTerminalStatus (status r)) \<and> s = status (last rounds))"
proof -
  have k: "keptTable host t" unfolding assms(3) by (rule performAll_kept[OF assms(1,2)]) simp
  let ?outs = "map (\<lambda>r. cancelOutcome now (Some r)) rounds"
  have eff: "out = foldl mergeOutcome Cancel_not_found ?outs"
    "t' = map (\<lambda>r. if run_id r \<in> run_id ` set rounds \<and> cancellable r then markCancelled now r else r) t"
    using lineage_request[OF assms(1) k assms(5,4,6)] by simp_all
  have "\<forall>x \<in> set ?outs. x \<noteq> Cancel_not_found" by (auto simp: cancelOutcome_def)
  note m = mergeOutcome_fold[OF this, unfolded eff(1)[symmetric]]
  have q: "isRequested (cancelOutcome now (Some r)) \<longleftrightarrow> cancellable r"
    "isAlready (cancelOutcome now (Some r)) \<longleftrightarrow> \<not> cancellable r \<and> \<not> isTerminalStatus (status r)" for r
    by (auto simp: cancelOutcome_def)
  have settledCase: "(\<forall>r \<in> set rounds. isTerminalStatus (status r)) \<and> s = status (last rounds)" if "out = Terminal s" for s
  proof -
    have settled: "\<forall>r \<in> set rounds. \<not> cancellable r \<and> isTerminalStatus (status r)" and ne: "rounds \<noteq> []"
      using m that by (auto simp: q)
    then have "out = cancelOutcome now (Some (last rounds))" using m by (auto simp: q last_map)
    with settled ne that show ?thesis by (auto simp: cancelOutcome_def split: if_splits)
  qed
  show ?thesis using m eff(2) settledCase by (auto simp: q markCancelled_def)
qed

end
