(* ===== verification/Run_Samples.thy ===== *)
theory Run_Samples
  imports Run_Cancellation
begin

text \<open>A concrete history of the run store, on which the guarantees above are exercised.\<close>

definition sampleHost :: sql_host where
  "sampleHost = \<lparr>parseJson = (\<lambda>_. Some (\<lambda>_. ArrayObj [], Null)), numberText = (\<lambda>_. js ''1''),
     jsonValid = (\<lambda>_. True), foreignKeys = False\<rparr>"

lemma sampleHost_lawful [simp]: "lawfulHost sampleHost"
  by (simp add: lawfulHost_def sampleHost_def)

definition workerId :: run_owner where "workerId = \<lparr>hostId = js ''h'', pid = 0, nonce = js ''n''\<rparr>"
definition thiefId :: run_owner where "thiefId = \<lparr>hostId = js ''k'', pid = 0, nonce = js ''m''\<rparr>"

text \<open>The numbers 32768 and 65536.\<close>

definition n32768 :: js_number where "n32768 = 0x40E0000000000000"
definition n65536 :: js_number where "n65536 = 0x40F0000000000000"

definition runHeap :: js_heap where
  "runHeap a =
     (if a = 10 then RecordObj True [(js ''hostId'', True, Data (Str (js ''h''))), (js ''pid'', True, Data (Number 0)),
        (js ''nonce'', True, Data (Str (js ''n'')))]
      else if a = 11 then RecordObj True [(js ''hostId'', True, Data (Str (js ''k''))), (js ''pid'', True, Data (Number 0)),
        (js ''nonce'', True, Data (Str (js ''m'')))]
      else if a = 12 then RecordObj True [(js ''status'', True, Data (Str (js ''pending''))), (js ''owner'', True, Data Null),
        (js ''heartbeatAtMs'', True, Data Null)]
      else if a = 13 then RecordObj True [(js ''status'', True, Data (Str (js ''running''))), (js ''owner'', True, Data (Ref 10)),
        (js ''heartbeatAtMs'', True, Data (Number 0))]
      else if a = 14 then RecordObj True [(js ''expectedOwner'', True, Data (Ref 10)), (js ''checkedAtMs'', True, Data (Number n32768)),
        (js ''kind'', True, Data (Str (js ''lease-expired'')))]
      else RecordObj True [(js ''cancelRequested'', True, Data (Str (js ''absent'')))])"

definition pendingSnapshot :: run_snapshot where
  "pendingSnapshot = \<lparr>snapshotStatus = Pending, snapshotOwnerId = None, snapshotHeartbeatAtMs = None\<rparr>"
definition runningSnapshot :: run_snapshot where
  "runningSnapshot = \<lparr>snapshotStatus = Running, snapshotOwnerId = Some workerId, snapshotHeartbeatAtMs = Some 0\<rparr>"

lemma sample_numbers [simp]: "safeInteger 0 = Some 0" "safeInteger n32768 = Some 32768" "safeInteger n65536 = Some 65536"
  by (simp_all add: safeInteger_def n32768_def n65536_def exponentBits_def significand_def Let_def)

lemma sample_timestamps [simp]:
  "snapshotTimestamp caller field (Number 0) = Inr 0"
  "snapshotTimestamp caller field (Number n32768) = Inr 32768"
  "snapshotTimestamp caller field (Number n65536) = Inr 65536"
  by (simp_all add: validTimestamp_def)

lemma sample_durable [simp]: "isDurableText (js ''h'')" "isDurableText (js ''n'')" "isDurableText (js ''k'')" "isDurableText (js ''m'')"
  by (simp_all add: isDurableText_def js_lits maximumIdentifierLength_def isHigh_def isLow_def)

lemma sample_owners [simp]:
  "snapshotOwner caller field runHeap (Ref 10) = Inr workerId" "snapshotOwner caller field runHeap (Ref 11) = Inr thiefId"
  by (simp_all add: snapshotOwner_def runHeap_def js_inject workerId_def thiefId_def)

lemma sample_named [simp]: "namedOwner runHeap (Ref 10) = Some workerId" "namedOwner runHeap (Ref 11) = Some thiefId"
  by (simp_all add: namedOwner_def)

lemma sample_snapshots [simp]:
  "snapshotExpected caller runHeap (Ref 12) = Inr pendingSnapshot" "snapshotExpected caller runHeap (Ref 13) = Inr runningSnapshot"
proof -
  have i: "inertRecord runHeap (Ref 12) [js ''status'', js ''owner'', js ''heartbeatAtMs'']"
    "inertRecord runHeap (Ref 13) [js ''status'', js ''owner'', js ''heartbeatAtMs'']"
    by (simp_all add: runHeap_def)
  have o: "ownData runHeap (Ref 12) (js ''status'') = Str (js ''pending'')" "ownData runHeap (Ref 12) (js ''owner'') = Null"
    "ownData runHeap (Ref 12) (js ''heartbeatAtMs'') = Null"
    "ownData runHeap (Ref 13) (js ''status'') = Str (js ''running'')" "ownData runHeap (Ref 13) (js ''owner'') = Ref 10"
    "ownData runHeap (Ref 13) (js ''heartbeatAtMs'') = Number 0"
    by (simp_all add: runHeap_def js_inject)
  have d: "decodeRunStatus (Str (js ''pending'')) = Some Pending" "decodeRunStatus (Str (js ''running'')) = Some Running"
    by (simp_all add: allStatuses_def js_inject)
  show "snapshotExpected caller runHeap (Ref 12) = Inr pendingSnapshot"
    unfolding snapshotExpected_def o d using i by (simp add: nullableOwner_def pendingSnapshot_def del: inertRecord.simps)
  show "snapshotExpected caller runHeap (Ref 13) = Inr runningSnapshot"
    unfolding snapshotExpected_def o d using i
    by (simp add: nullableOwner_def runningSnapshot_def validTimestamp_def del: inertRecord.simps)
qed

lemma sample_named_snapshots [simp]:
  "namedSnapshot runHeap (Ref 12) = Some pendingSnapshot" "namedSnapshot runHeap (Ref 13) = Some runningSnapshot"
  by (simp_all add: namedSnapshot_def)

lemma sample_evidence [simp]:
  "snapshotEvidence caller runHeap (Ref 14) = Inr \<lparr>expectedOwner = workerId, checkedAtMs = 32768, evidenceKind = Lease_expired\<rparr>"
proof -
  have i: "inertRecord runHeap (Ref 14) [js ''expectedOwner'', js ''checkedAtMs'', js ''kind'']"
    by (simp add: runHeap_def)
  have o: "ownData runHeap (Ref 14) (js ''expectedOwner'') = Ref 10"
    "ownData runHeap (Ref 14) (js ''checkedAtMs'') = Number n32768"
    "ownData runHeap (Ref 14) (js ''kind'') = Str (js ''lease-expired'')"
    by (simp_all add: runHeap_def js_inject)
  show ?thesis
    unfolding snapshotEvidence_def o using i by (simp add: decodeKind_def js_inject validTimestamp_def del: inertRecord.simps)
qed

lemma sample_guard [simp]: "snapshotGuard runHeap (Ref 15) = Inr (Some Cancel_absent)"
proof -
  have i: "inertRecord runHeap (Ref 15) [js ''cancelRequested'']" by (simp add: runHeap_def)
  have o: "ownData runHeap (Ref 15) (js ''cancelRequested'') = Str (js ''absent'')"
    by (simp add: runHeap_def js_inject)
  show ?thesis unfolding snapshotGuard_def o Let_def using i by (simp del: inertRecord.simps)
qed

lemma sample_id [simp]: "snapshotRunId caller (Str (js ''n'')) = Inr (js ''n'')"
  using sample_durable(2) by (simp add: wellFormedIdentifier_def isDurableText_def)

lemma sample_state [simp]: "snapshotState sampleHost caller (Str (js ''n'')) = Inr (js ''n'')"
  by (simp add: snapshotState_def stateAdmission_def sampleHost_def runJsonLimits_def within_def admitBounded_def
      admitValue.simps noBytes_def Let_def chargeValue_def addBytes_def safeIntegerLimit_def js_def
      maximumRunJsonDepth_def maximumRunJsonNodes_def)

definition tick :: "int \<Rightarrow> moment" where "tick n = \<lparr>clockMs = n, refuses = False\<rparr>"

lemma tick_simps [simp]: "clockMs (tick n) = n" "refuses (tick n) = False"
  by (simp_all add: tick_def)

lemma sample_stamps [simp]: "stamp 0" "stamp 32768" "stamp 65536"
  by (simp_all add: stamp_def safeIntegerLimit_def)

definition sampleEvents :: "run_call_event list" where
  "sampleEvents = [(tick 0, runHeap, Create (Str (js ''n'')) (Str (js ''n'')) Undefined),
     (tick 0, runHeap, ClaimAndOwn (Str (js ''n'')) (Ref 12) (Ref 10) (Number 0) Undefined)]"

definition sampleCreated :: run_row where
  "sampleCreated = pendingRow (js ''n'') 0
     \<lparr>optionParentRunId = None, optionLineageId = None, optionRoundOrdinal = None\<rparr> (js ''n'')"

definition sampleRow :: run_row where "sampleRow = setOwner workerId 0 sampleCreated"

lemmas sample_rows = sampleRow_def sampleCreated_def setOwner_def pendingRow_def

lemma sampleEvents_timely [simp]: "timely sampleEvents"
  by (simp add: timely_def sampleEvents_def)

lemma sample_reading [simp]: "snapshotLeaseReading 0 caller field (Number 0) = Inr 0"
  "snapshotLeaseReading 32768 caller field (Number n32768) = Inr 32768"
  "snapshotLeaseReading 65536 caller field (Number n65536) = Inr 65536"
  by (simp_all add: snapshotLeaseReading_def heartbeatSkewAllowanceMs_def validTimestamp_def)

lemmas sample_sql = orFail_def sqlWrite_def updateOr_def sqlUpdate_def Let_def

lemma sample_lookup [simp]:
  "selectRun [r] i = (if run_id r = i then Some r else None)"
  by (simp add: selectRun_def)

lemma sample_checks [simp]:
  "rowCheck sampleHost sampleCreated" "rowCheck sampleHost sampleRow" "run_id sampleCreated = js ''n''" "run_id sampleRow = js ''n''"
  "rowCheck sampleHost (setOwner workerId 0 sampleCreated)"
  by (simp_all add: sample_rows rowCheck_def ownerCheck_def claimCheck_def waitingCheck_def null_tests sampleHost_def
      workerId_def js_def)

lemma sample_create:
  "create sampleHost (tick 0) runHeap (Str (js ''n'')) (Str (js ''n'')) Undefined [] = (Inr (), [sampleCreated])"
proof -
  have o: "snapshotCreateOptions runHeap Undefined =
      Inr \<lparr>optionParentRunId = None, optionLineageId = None, optionRoundOrdinal = None\<rparr>"
    by (simp add: snapshotCreateOptions_def)
  have "sqlInsert sampleHost ''create'' sampleCreated [] = Inr ((), [sampleCreated])"
    using sample_checks(1) by (simp add: sqlInsert_def selectRun_def sampleCreated_def pendingRow_def sampleHost_def)
  then show ?thesis
    unfolding create_def o
    by (simp add: orFail_def sqlWrite_def sampleCreated_def del: snapshotRunId.simps)
qed

lemma sample_own:
  "claimAndOwn sampleHost (tick 0) runHeap (Str (js ''n'')) (Ref 12) (Ref 10) (Number 0) Undefined [sampleCreated] =
     (Inr ClaimActivated, [sampleRow])"
proof -
  have "ownable pendingSnapshot 0 sampleCreated"
    by (simp add: ownable_def sampleCreated_def pendingRow_def pendingSnapshot_def rowMatchesSnapshot_def ownerColumnsAre_def
        unclaimed_def)
  moreover have "canReplaceExpectedOwner pendingSnapshot workerId 0 None"
    by (simp add: canReplaceExpectedOwner_def pendingSnapshot_def)
  ultimately show ?thesis
    unfolding claimAndOwn_def
    by (simp add: orFail_def sqlWrite_def updateOr_def sqlUpdate_def Let_def sampleRow_def del: snapshotRunId.simps snapshotTimestamp.simps)
qed

lemma sample_table: "performAll sampleHost sampleEvents [] = [sampleRow]"
  by (simp add: sampleEvents_def sample_create sample_own answering_def)

lemma sample_owned [simp]: "ownsRow workerId sampleRow" "unclaimed sampleRow" "heartbeat_at_ms sampleRow = Some 0"
  "status sampleRow = Running" "cancel_requested_at_ms sampleRow = None" "lineage_id sampleRow = None"
  by (simp_all add: ownsRow_def ownerColumnsAre_def unclaimed_def sample_rows)


section \<open>A settled run\<close>

definition sampleSettled :: run_row where
  "sampleSettled = transitionRow Completed 0 None sampleRow"

definition settlingEvents :: "run_call_event list" where
  "settlingEvents = sampleEvents @
     [(tick 0, runHeap, TransitionOwned (Str (js ''n'')) (Ref 10) (Str (js ''completed'')) Undefined Undefined)]"

lemma performAll_append: "performAll host (xs @ ys) t = performAll host ys (performAll host xs t)"
  by (induction host xs t rule: performAll.induct) auto

lemma settling_timely [simp]: "timely settlingEvents"
  by (simp add: timely_def settlingEvents_def sampleEvents_def)

lemma sample_transition:
  "transitionOwned sampleHost (tick 0) runHeap (Str (js ''n'')) (Ref 10) (Str (js ''completed'')) Undefined Undefined [sampleRow] =
     (Inr Transitioned, [sampleSettled])"
proof -
  have "decodeRunStatus (Str (js ''completed'')) = Some Completed" by (simp add: allStatuses_def js_inject)
  moreover have "rowCheck sampleHost sampleSettled"
    by (simp add: sampleSettled_def transitionRow_def keepOrReplace_def leaveRunning_def clearClaim_def sample_rows rowCheck_def
        ownerCheck_def claimCheck_def waitingCheck_def null_tests sampleHost_def js_def)
  ultimately show ?thesis
    unfolding transitionOwned_def
    by (simp add: orFail_def snapshotGuard_def sqlWrite_def updateOr_def sqlUpdate_def Let_def sampleSettled_def guardHolds_def
        del: snapshotRunId.simps decodeRunStatus.simps)
qed

lemma settling_table: "performAll sampleHost settlingEvents [] = [sampleSettled]"
  by (simp add: settlingEvents_def performAll_append sample_table sample_transition answering_def)

theorem settled_runs_are_final_witness:
  "isTerminalStatus (status sampleSettled) \<and>
   sampleSettled \<in> set (performAll sampleHost sampleEvents (performAll sampleHost settlingEvents []))"
proof -
  have s: "isTerminalStatus (status sampleSettled)"
    by (simp add: sampleSettled_def transitionRow_def keepOrReplace_def leaveRunning_def clearClaim_def)
  with settled_runs_are_final[OF sampleHost_lawful settling_timely sampleEvents_timely, of sampleSettled]
  show ?thesis by (simp add: settling_table)
qed

section \<open>A lease, a steal and a revival\<close>


lemma sample_outside [simp]: "outside thiefId sampleRow"
  by (simp add: outside_def ownerColumnsAre_def sample_rows workerId_def thiefId_def js_inject)

theorem displaced_owner_stays_fenced_witness:
  "fst (heartbeat sampleHost (tick 0) runHeap (Str (js ''n'')) (Ref 11) (Number 0) (performAll sampleHost sampleEvents [])) \<noteq> Inr Updated \<and>
   snd (heartbeat sampleHost (tick 0) runHeap (Str (js ''n'')) (Ref 11) (Number 0) (performAll sampleHost sampleEvents [])) = [sampleRow]"
proof -
  have t: "[sampleRow] = performAll sampleHost [] (performAll sampleHost sampleEvents [])" by (simp add: sample_table)
  have p: "timely []" "sampleRow \<in> set (performAll sampleHost sampleEvents [])"
    "\<forall>(m, heap, call) \<in> set []. Takes thiefId \<notin> actors heap call"
    by (simp_all add: timely_def sample_table)
  show ?thesis
    unfolding sample_table
    using displaced_owner_stays_fenced[where m = "tick 0" and nv = "Number 0",
      OF sampleHost_lawful sampleEvents_timely p(1,2) sample_outside p(3) sample_named(2) t, unfolded sample_checks(4)]
    by blast
qed

definition sampleStolen :: run_row where "sampleStolen = setClaim thiefId 32768 sampleRow"
definition sampleRevived :: run_row where "sampleRevived = advanceHeartbeat 65536 sampleStolen"

lemma stolen_checks [simp]: "rowCheck sampleHost sampleStolen" "rowCheck sampleHost sampleRevived" "ownsRow workerId sampleStolen"
  "run_id sampleStolen = js ''n''"
  by (simp_all add: sampleStolen_def sampleRevived_def setClaim_def advanceHeartbeat_def sample_rows rowCheck_def ownerCheck_def
      claimCheck_def waitingCheck_def null_tests sampleHost_def workerId_def thiefId_def js_def stamp_def safeIntegerLimit_def
      ownsRow_def ownerColumnsAre_def)

lemma sample_steal:
  "steal sampleHost (tick 32768) runHeap (Str (js ''n'')) (Ref 13) (Ref 11) (Number n32768) (Ref 14) [sampleRow] =
     (Inr (Claimed 32768), [sampleStolen])"
proof -
  have "stealable runningSnapshot 32768 sampleRow"
    by (simp add: stealable_def rowMatchesSnapshot_def ownerColumnsAre_def olderThan_def heartbeatStaleAfterMs_def unclaimed_def
        runningSnapshot_def sample_rows)
  moreover have "evidenceMatches runningSnapshot thiefId 32768
      \<lparr>expectedOwner = workerId, checkedAtMs = 32768, evidenceKind = Lease_expired\<rparr>"
    by (simp add: evidenceMatches_def runningSnapshot_def sameOwner_def)
  ultimately show ?thesis
    unfolding steal_def
    by (simp add: orFail_def sqlWrite_def updateOr_def sqlUpdate_def Let_def sampleStolen_def[symmetric]
        del: snapshotRunId.simps snapshotTimestamp.simps)
qed

lemma sample_revive:
  "heartbeat sampleHost (tick 65536) runHeap (Str (js ''n'')) (Ref 10) (Number n65536) [sampleStolen] =
     (Inr Updated, [sampleRevived])"
  unfolding heartbeat_def
  by (simp add: orFail_def sqlWrite_def updateOr_def sqlUpdate_def Let_def sampleRevived_def[symmetric]
      del: snapshotRunId.simps snapshotTimestamp.simps)

theorem revived_owner_defeats_steal_witness:
  "\<exists>t3 r. activate sampleHost (tick 65536) runHeap (Str (js ''n'')) (Ref 11) (Number n32768) (Ref 13) [sampleRevived] =
       (Inr Activate_snapshot_changed, t3) \<and>
     selectRun t3 (js ''n'') = Some r \<and> ownsRow workerId r \<and> unclaimed r \<and> heartbeat_at_ms r = Some 65536"
proof -
  have c: "stamp (clockMs (tick 32768))" "stamp (clockMs (tick 65536))" "\<not> refuses (tick 65536)" by simp_all
  have s: "steal sampleHost (tick 32768) runHeap (Str (js ''n'')) (Ref 13) (Ref 11) (Number n32768) (Ref 14)
      (performAll sampleHost sampleEvents []) = (Inr (Claimed 32768), [sampleStolen])"
    by (simp only: sample_table sample_steal)
  have h: "snapshotHeartbeatAtMs runningSnapshot = Some 0" by (simp add: runningSnapshot_def)
  have lt: "(0 :: int) < 65536" by simp
  show ?thesis
    by (rule revived_owner_defeats_steal[OF sampleHost_lawful sampleEvents_timely c(1,2,2,3) s sample_named_snapshots(2) h
        sample_named(2) sample_revive sample_named(1) sample_timestamps(3) lt sample_timestamps(2)])
qed

section \<open>Cancellation\<close>

definition sampleRequested :: run_row where "sampleRequested = markCancelled 32768 sampleRow"

lemma requested_checks [simp]: "rowCheck sampleHost sampleRequested" "run_id sampleRequested = js ''n''"
    "cancel_requested_at_ms sampleRequested = Some 32768"
  by (simp_all add: sampleRequested_def markCancelled_def sample_rows rowCheck_def ownerCheck_def claimCheck_def waitingCheck_def
      null_tests sampleHost_def workerId_def js_def stamp_def safeIntegerLimit_def)

definition cancellingEvents :: "run_call_event list" where
  "cancellingEvents = sampleEvents @ [(tick 32768, runHeap, RequestCancel (Str (js ''n'')) (Number n32768))]"

lemma cancelling_timely [simp]: "timely cancellingEvents"
  by (simp add: timely_def cancellingEvents_def sampleEvents_def)

lemma sample_request:
  "requestCancel sampleHost (tick 32768) (Str (js ''n'')) (Number n32768) [sampleRow] =
     (Inr (CancelRequested 32768), [sampleRequested])"
  unfolding requestCancel_def
  by (simp add: orFail_def sqlWrite_def requestCancelBody_def recordCancel_def sqlUpdate_def Let_def cancellable_def
      markCancelled_def[symmetric] sampleRequested_def[symmetric] del: snapshotRunId.simps snapshotTimestamp.simps)

lemma cancelling_table: "performAll sampleHost cancellingEvents [] = [sampleRequested]"
  by (simp add: cancellingEvents_def performAll_append sample_table sample_request answering_def)

theorem first_cancellation_wins_witness:
  "snd (requestCancel sampleHost (tick 65536) (Str (js ''n'')) (Number n65536) [sampleRequested]) = [sampleRequested] \<and>
   fst (transitionOwned sampleHost (tick 65536) runHeap (Str (js ''n'')) (Ref 10) (Str (js ''completed'')) Undefined (Ref 15)
     [sampleRequested]) \<noteq> Inr Transitioned"
proof -
  have t: "[sampleRequested] = performAll sampleHost [] (performAll sampleHost cancellingEvents [])"
    by (simp add: cancelling_table)
  have p: "timely []" "stamp (clockMs (tick 65536))" "sampleRequested \<in> set (performAll sampleHost cancellingEvents [])"
    by (simp_all add: timely_def cancelling_table)
  show ?thesis
    using first_cancellation_wins[where nv = "Number n65536" and wv = "Ref 10" and sv = "Str (js ''completed'')" and jv = Undefined,
      OF sampleHost_lawful cancelling_timely p requested_checks(3) t sample_guard, unfolded requested_checks(2)]
    by blast
qed

lemma sample_lineage: "selectLineage [sampleRow] (js ''n'') = [sampleRow]"
  by (simp add: selectLineage_def lineageRoot_def)

theorem lineage_is_cancelled_whole_witness:
  "\<exists>t'. requestCancelLineage sampleHost (tick 32768) (Str (js ''n'')) (Number n32768) [sampleRow] = (Inr (CancelRequested 32768), t') \<and>
    t' = [sampleRow\<lparr>cancel_requested_at_ms := Some 32768\<rparr>]"
proof -
  have k: "keptTable sampleHost [sampleRow]"
    using performAll_kept[OF sampleHost_lawful sampleEvents_timely, of "[]"] by (simp add: sample_table)
  then obtain v where v: "decodeRunRow sampleHost ''lineage'' sampleRow = Inr v" "viewRunId v = js ''n''"
    using decode_kept[of sampleHost sampleRow] by (auto simp: keptTable_def)
  obtain t' where r: "requestCancelLineage sampleHost (tick 32768) (Str (js ''n'')) (Number n32768) [sampleRow] =
      (Inr (CancelRequested 32768), t')"
    unfolding requestCancelLineage_def
    by (simp add: orFail_def sqlWrite_def sample_lineage v requestCancelBody_def recordCancel_def sqlUpdate_def Let_def cancellable_def
        markCancelled_def[symmetric] sampleRequested_def[symmetric] mergeOutcome_def
        del: snapshotRunId.simps snapshotTimestamp.simps)
  have "t' = map (\<lambda>r. if run_id r \<in> run_id ` set [sampleRow] \<and> cancellable r then r\<lparr>cancel_requested_at_ms := Some 32768\<rparr> else r)
      [sampleRow]"
    using lineage_is_cancelled_whole[OF sampleHost_lawful sampleEvents_timely sample_table[symmetric] r sample_timestamps(2)
      sample_lineage[symmetric]] by blast
  with r show ?thesis by (simp add: cancellable_def)
qed

end
