(* ===== verification/Lease_Supervision.thy ===== *)
theory Lease_Supervision
  imports Run_Samples
begin

text \<open>
  Liveness checks and the supervision of a lease (\<open>run-store/src/Ownership.ts\<close>,
  \<open>run-store/src/Heartbeat.ts\<close>).  The process table is the parameter \<open>kill\<close>.  The supervision
  loop races two fibers: pulses, which renew the lease and remember the reading of the last
  confirmed one, and a deadline, which interrupts the owner when that reading is too old.
\<close>

section \<open>Liveness\<close>

record liveness_context =
  claimant :: run_owner
  contextHeartbeatAtMs :: "int option"
  contextNowMs :: int

definition sameHostIncarnation :: "run_owner \<Rightarrow> run_owner \<Rightarrow> bool" where
  "sameHostIncarnation expected other = (hostId expected = hostId other)"


text \<open>What \<open>process.kill(pid, 0)\<close> does: it returns, or throws an error with or without a code.\<close>

datatype kill_answer = Kill_returns | Kill_throws "string option"

definition sameHostPidProbe :: "(int \<Rightarrow> kill_answer) \<Rightarrow> run_owner \<Rightarrow> liveness_context \<Rightarrow> bool" where
  "sameHostPidProbe kill expected context =
     (if \<not> sameHostIncarnation expected (claimant context) then False
      else if \<not> (\<bar>pid expected\<bar> \<le> int safeIntegerLimit) \<or> pid expected \<le> 0 then True
      else case kill (pid expected) of
        Kill_returns \<Rightarrow> True
      | Kill_throws code \<Rightarrow> code \<noteq> Some ''ESRCH'')"

section \<open>The supervision loop\<close>

datatype deadline_verdict = Interrupt | Sleep int

definition deadlineCheck :: "int \<Rightarrow> int \<Rightarrow> deadline_verdict" where
  "deadlineCheck lastConfirmedPulseMs nowMs =
     (let remainingMs = lastConfirmedPulseMs + heartbeatWriteToleranceMs - nowMs
      in if remainingMs \<le> 0 then Interrupt else Sleep (min remainingMs heartbeatIntervalMs))"

text \<open>A pulse sent at \<open>nowMs\<close>: the reading confirmed after it, or \<open>None\<close> when the fence is lost.\<close>

definition pulse :: "int \<Rightarrow> int \<Rightarrow> run_error + heartbeat_outcome \<Rightarrow> int option" where
  "pulse lastConfirmedPulseMs nowMs result =
     (case result of
        Inl _ \<Rightarrow> Some lastConfirmedPulseMs
      | Inr outcome \<Rightarrow> if outcome = Updated then Some nowMs else None)"

text \<open>
  The loop while it runs: the reading last confirmed, and when the deadline fiber wakes next.  A
  pulse carries a reading of the owner's clock no older than the one confirmed before.
\<close>

inductive supervised :: "int \<Rightarrow> int \<Rightarrow> bool" where
  Begins: "deadlineCheck start start = Sleep d \<Longrightarrow> supervised start (start + d)"
| Wakes: "supervised confirmed wake \<Longrightarrow> wake \<le> nowMs \<Longrightarrow> deadlineCheck confirmed nowMs = Sleep d \<Longrightarrow> supervised confirmed (nowMs + d)"
| Pulses: "supervised confirmed wake \<Longrightarrow> confirmed \<le> nowMs \<Longrightarrow> pulse confirmed nowMs result = Some confirmed' \<Longrightarrow> supervised confirmed' wake"



lemmas lease_durations = heartbeatWriteToleranceMs_def heartbeatStaleAfterMs_def heartbeatSkewAllowanceMs_def heartbeatIntervalMs_def

section \<open>What supervision asks of a store\<close>










text \<open>
  The loop takes its first confirmed reading from its own clock, not from the stored heartbeat: when
  it starts later than one interval after the claim, an owner whose writes all fail may still be
  sleeping when a peer within the skew allowance may steal.
\<close>

lemma late_start_overlaps:
  "\<exists>h start wake ownerClock. h < start \<and> supervised start wake \<and> ownerClock < wake \<and>
     h < ownerClock + heartbeatSkewAllowanceMs - heartbeatStaleAfterMs"
proof -
  have "supervised 21500 22500" using Begins[of 21500 1000] by (simp add: deadlineCheck_def lease_durations)
  then show ?thesis
    by (intro exI[of _ 0] exI[of _ 21500] exI[of _ 22500] exI[of _ 21600]) (simp add: lease_durations)
qed

end
