(* ===== verification/Spec2Isabelle.thy ===== *)
theory Spec2Isabelle
  imports Journal_Properties Time_Travel_Properties File_Set_Properties Scheduling Effect_Boundary_Properties
    Compensation_Properties History_Properties Projector_Properties Retry_Properties Bounded_Json_Properties Lease_Supervision
begin

text \<open>
  A verification development of the Smithers flow engine: the parts of \<open>packages/smithers/flows\<close>
  that decide what a flow may do, who runs it, and what its history is.  Paths below are relative to
  \<open>packages/smithers/flows\<close>.

  \<^bold>\<open>The program.\<close>  A flow is run by one process at a time.  The \<^emph>\<open>run store\<close> (\<open>run-store\<close>) keeps a row per
  run and hands ownership of a run from process to process through claims, leases and a fence; the
  \<^emph>\<open>supervision loop\<close> renews the lease and stops an owner that has lost it.  While a run executes, every
  effect it asks of the host passes the \<^emph>\<open>permission kernel\<close> (\<open>capability\<close>, \<open>kernel\<close>): a capability is
  checked against ordered rules and a ceiling, and what no rule decides is parked for an operator,
  whose replies are journaled and replayed when a run restarts.  The effects that leave the process
  cross a journaled \<^emph>\<open>boundary\<close> (\<open>time-travel\<close>), so that a rewind can classify, compensate or refuse
  them; \<^emph>\<open>time travel\<close> truncates, forks and rederives the history itself.  Before a run, the \<^emph>\<open>planner\<close>
  (\<open>plan\<close>) compares the file sets of its steps to find conflicts and admits ready steps under permits.
  Values enter durable storage through \<^emph>\<open>bounded JSON\<close> (\<open>canonical\<close>), and digests are the handwritten
  SHA-256 (\<open>crypto\<close>).

  \<^bold>\<open>How the code is modelled.\<close>  Each operation is one executable HOL function with the name of the
  code's.  Interfaces and classes are records, tagged unions datatypes, nullable fields options.  Code
  that mutates a store is state passing; a failing effect answers a sum or an error value and says
  what state it leaves.  Strings are lists of UTF-16 code units of type \<open>16 word\<close>, numbers that cross a
  boundary are IEEE 754 patterns of type \<open>64 word\<close>, SHA-256 works on \<open>32 word\<close>, and the counters and
  timestamps the code keeps below \<open>2^53\<close> are \<open>nat\<close> or \<open>int\<close> with the guards written out.  Inputs the code
  does not trust are values on a JavaScript heap (\<open>Json\<close>) with holes, accessors, non-enumerable
  properties, exotic prototypes, sharing and cycles.  An atomic transaction is a function from the
  whole table or store; processes interleave as sequences of such operations, and the theorems quantify
  over every sequence.

  \<^bold>\<open>Theories.\<close>

  \<^item> \<^emph>\<open>Shared vocabulary.\<close>  \<open>Prelude\<close>: strings, the string and array functions of the language, insertion
    sort by a comparison, maps in insertion order; locales \<open>comparator\<close> (what a comparison owes \<open>js_sort\<close>)
    and \<open>keyed_store\<close> (what a \<open>Map\<close> owes its clients).  \<open>Text\<close>: well-formed UTF-16, UTF-8, \<open>JSON.stringify\<close>
    of a string, the bounded slices several packages use.  \<open>Json\<close>: heap values and JSON values.

  \<^item> \<^emph>\<open>Digests.\<close>  \<open>Sha256\<close> models \<open>crypto/src/internal/sha256.ts\<close> and \<open>crypto/src/Sha256.ts\<close> and states FIPS 180-4
    separately; the locale \<open>digest_source\<close> holds for the synchronous and for the host's digest.

  \<^item> \<^emph>\<open>Policy.\<close>  \<open>Capability\<close> (\<open>capability/src/Capability.ts\<close>): actions, resources, glob matching, subsumption,
    lexical containment, effect tiers.  \<open>Permission\<close> (\<open>capability/src/Permission.ts\<close>): rules, their evaluation,
    the rendering of failures.  \<open>Capability_Set\<close> (\<open>kernel/src/CapabilitySet.ts\<close>): ceilings as intersections of
    unions, with the locale \<open>authority\<close> that the grant store relies on.  \<open>Policy_Properties\<close>: the glob loop
    decides the language of its pattern, subsumption is sound, attenuation only removes, parsing inverts
    formatting, the digest is FIPS 180-4's.

  \<^item> \<^emph>\<open>Permission kernel.\<close>  \<open>Grant_Validation\<close>: what \<open>kernel/src/GrantStore.ts\<close> checks before it touches its
    state, and the events of \<open>kernel/src/GrantEvent.ts\<close>.  \<open>Grant_Store\<close>: the record of the store and each of its
    operations.  \<open>Grant_Store_Safety\<close>: the store as a step relation with its invariant, the justification of
    each release, and the rules in force as a function of the recorded events.  \<open>Grant_Outcomes\<close>: every
    branch of every operation.  \<open>Grant_Properties\<close>: the properties.

  \<^item> \<^emph>\<open>Journal-backed grants.\<close>  \<open>Journal_Grant_Store\<close> (\<open>kernel/src/JournalGrantStore.ts\<close>, with the page reader of
    \<open>journal/src/SqlJournal.ts\<close>), \<open>Journal_Replay\<close> (locale \<open>journal_provider\<close>: pages of any size that a reader
    may trust, interpreted on the event table), \<open>Journal_Restart\<close> (the replayed authority is the recorded
    one), \<open>Journal_Properties\<close>.

  \<^item> \<^emph>\<open>Run ownership.\<close>  \<open>Run_Boundary\<close>: the admission of every input (\<open>run-store/src/RunStore.ts\<close>,
    \<open>run-store/src/internal/Boundary.ts\<close>, \<open>journal/src/OwnerId.ts\<close>).  \<open>Run_Store\<close>: rows, the constraints of the
    migrations, statements and transactions, reads and \<open>create\<close>.  \<open>Run_Ownership\<close>: cancellation, claims,
    steals, activation, recovery, heartbeats, owned transitions, and the sequences of calls
    \<open>performAll\<close>.  \<open>Run_Store_Lemmas\<close> reduces calls to the moves \<open>rowMove\<close> of one row; \<open>Run_Store_Moves\<close> proves
    that every operation makes only such moves; \<open>Run_Store_Properties\<close> and \<open>Run_Cancellation\<close> state what
    holds over every sequence of calls; \<open>Run_Samples\<close> exercises them on a concrete history.
    \<open>Lease_Supervision\<close> (\<open>run-store/src/Ownership.ts\<close>, \<open>run-store/src/Heartbeat.ts\<close>): the liveness checks and the
    supervision loop as a step relation, over the locale \<open>lease_provider\<close> that the run store satisfies.

  \<^item> \<^emph>\<open>Time travel.\<close>  \<open>Time_Travel_Store\<close> (\<open>time-travel/src/MemoryTimeTravelStore.ts\<close>, with \<open>Frame.ts\<close>,
    \<open>TimeTravelError.ts\<close> and \<open>TimeTravelStore.ts\<close>): archive, fork, mint, audit and receipts, each as a
    transaction that may fail at an injected point; \<open>Time_Travel_Lemmas\<close> has the locale \<open>transaction\<close>, with one
    interpretation per mutation; \<open>Time_Travel_Properties\<close>.  \<open>History_Replay\<close> and \<open>History_Properties\<close>
    (\<open>internal/Replay.ts\<close>, \<open>internal/HistoryLimit.ts\<close>), \<open>Snapshot_Projector\<close> and \<open>Projector_Properties\<close>
    (\<open>internal/SnapshotProjector.ts\<close>) fold the journal page by page and rest on \<open>journal_provider\<close>.

  \<^item> \<^emph>\<open>Effects.\<close>  \<open>Effect_Boundary\<close> and its properties (\<open>EffectBoundary.ts\<close>): the guard between two durable
    records, and the fold of the records.  \<open>Effect_Handlers\<close> (\<open>internal/EffectHandlerRegistry.ts\<close>,
    \<open>CompensationHandlers.ts\<close>), \<open>Compensation\<close> with its lemmas and properties (\<open>internal/Compensation.ts\<close>), and
    \<open>Effect_Retry\<close> with \<open>Retry_Properties\<close> (\<open>internal/Retry.ts\<close>).

  \<^item> \<^emph>\<open>Planning.\<close>  \<open>File_Set\<close>, \<open>Literal_Search\<close>, \<open>File_Set_Lemmas\<close> and \<open>File_Set_Properties\<close> (\<open>plan/src/FileSet.ts\<close>),
    \<open>Effect_Candidates\<close> (\<open>plan/src/internal/EffectCandidates.ts\<close>), \<open>Scheduling\<close> (\<open>plan/src/Scheduling.ts\<close>).

  \<^item> \<^emph>\<open>Bounded JSON.\<close>  \<open>Bounded_Json\<close>, \<open>Bounded_Json_Lemmas\<close>, \<open>Bounded_Json_Properties\<close>
    (\<open>canonical/src/BoundedJson.ts\<close>).
\<close>

text \<open>
  \<^bold>\<open>What the theorems show.\<close>  \<^emph>\<open>Authority\<close>: every store a run can reach is well-formed; a parked request is
  released only by a reply whose rules and ceiling allow it; a configured denial is final; the rules in
  force are those the journal records, and a restart restores them.  \<^emph>\<open>Ownership\<close>: the run table keeps
  its invariant under every sequence of calls; settled runs never change; a fresh lease cannot be
  taken, whatever evidence is offered; a displaced owner stays fenced; an owner that revives defeats a
  steal in progress; the first cancellation wins and reaches a whole lineage at once; within the
  clock-skew allowance an owner is interrupted before its run can be taken.  \<^emph>\<open>History\<close>: a truncation moves
  records and loses none; a fork inherits exactly its parent's past; identities are never minted twice;
  a failed mutation changes nothing; a past state is one fold over the run's entries, whatever the page
  size.  \<^emph>\<open>Effects\<close>: a guarded action runs at most once per position; the fold accepts exactly the legal
  histories; compensation reverts only what it is authorised to, a failed rewind is undone and a
  completed one can be; a retry never repeats an effect its tier forbids.  \<^emph>\<open>Planning\<close>: overlap never
  misses a shared path, the candidate index is exact, admission is fair.

  \<^bold>\<open>Termination and bounds.\<close>  The three loops that read pages from a journal, \<open>replayLoop\<close>, \<open>rederiveLoop\<close> and
  \<open>projectLoop\<close>, take fuel, one unit a page, and answer \<open>None\<close> when it runs out.  The theorems name a fuel
  that is enough: more units than the run has rows for any page size, as every page but the last
  advances the cursor; and for deriving a past state the frame's sequence number plus two on \<^emph>\<open>every\<close>
  reader, however it orders, repeats or cuts its pages.  All other recursion is structural or has a
  measure: the text left in the glob and search loops, the branches left in a candidate tree, the depth
  left below \<open>maxDepth\<close> in the admission of JSON (which so ends on cyclic values), the runs not yet
  reached in lineage walks.  The limits of the code (\<open>maxMatchWork\<close>, \<open>maxResourceLength\<close>, the depth and node
  limits of run state, the history limit, the safe integer bound) are definitions with the code's
  values, and what a limit refuses is a branch of the model.

  \<^bold>\<open>What is a parameter.\<close>  Code outside the sources is an argument of the definitions that use it: Unicode
  NFC normalisation in file sets; \<open>Number::toString\<close>, \<open>JSON.parse\<close> and the schema codecs of payloads; the digest of
  the host; the function that persists a grant event; the compensation handlers, the jj workspace, the step
  cache and the clock of compensation and retry; the decoder of versioned engine events; \<open>Random.nextInt\<close>;
  \<open>json_valid\<close> and the foreign-key mode of the database; the process table.  What is relied on of them is a
  named hypothesis of each theorem that needs it, such as \<open>lawfulHost\<close> (\<open>json_valid\<close> accepts the state
  text the admission lets through and the acknowledgement the store writes) or \<open>number_text\<close> (the text of a number is ASCII), and each such theorem is applied to a
  concrete instance.

  \<^bold>\<open>What is not modelled.\<close>  Spans, metrics, log lines and the exact prose of most complaints; fiber
  scheduling inside one operation, which the code serialises with a semaphore or a transaction; the
  SQL twin of the time-travel store, which implements the contract modelled here on its in-memory
  reference; the revision triggers of the run database and its attempt table, which the operations on
  runs do not read; the step-key compiler, whose inputs are schema values of the caller; and the layers
  that wrap host services, transports, agents, user interfaces and build tooling, which are effects of
  other programs.  Data properties are assumed to have no getter the engine itself installs, so reading
  an own data property has no effect.
\<close>

end
